(* ===== verification/Prelude.thy ===== *)
theory Prelude
  imports Complex_Main "HOL-Library.Sublist"
begin

text \<open>
  Shared vocabulary of the development: the Go types every component uses (time, durations,
  floats, maps with an unspecified iteration order, errors), the parts of the Go standard
  library the sources call (\<^verbatim>\<open>strings\<close>, \<^verbatim>\<open>errors.Is\<close>, the \<^verbatim>\<open>IsZero\<close>/\<^verbatim>\<open>After\<close> expiry idiom),
  and the generic lemmas the component theories share.

  Conventions. \<^verbatim>\<open>time.Time\<close> is an integer number of nanoseconds since the Unix epoch and
  \<^verbatim>\<open>time.Duration\<close> an integer number of nanoseconds; every call of \<^verbatim>\<open>time.Now()\<close> is an argument.
  A \<^verbatim>\<open>time.Time\<close> field whose zero value is tested with \<^verbatim>\<open>IsZero\<close> is a \<open>time option\<close>, with
  \<open>None\<close> the zero time. \<^verbatim>\<open>float64\<close> and \<^verbatim>\<open>float32\<close> are real numbers (no rounding). Go's \<^verbatim>\<open>int\<close> is
  \<open>int\<close> except where a component keeps the width. A Go \<^verbatim>\<open>string\<close> is a list of bytes.
\<close>

section \<open>Go types\<close>

type_synonym time = int
type_synonym duration = int
type_synonym float64 = real
type_synonym ('k, 'v) gomap = "'k \<Rightarrow> 'v option"

named_theorems expiry_simps "the TTL idiom of the stores"
named_theorems gomap_simps "reading and writing Go maps"

definition Nanosecond :: duration where "Nanosecond = 1"
definition Millisecond :: duration where "Millisecond = 1000000"
definition Second :: duration where "Second = 1000000000"
definition Minute :: duration where "Minute = 60000000000"

text \<open>The zero \<^verbatim>\<open>time.Time\<close> is January 1 of year 1, counted from the Unix epoch.\<close>

definition zero_time :: time where
  "zero_time = - 62135596800000000000"

text \<open>\<^verbatim>\<open>!t.IsZero() && now.After(t)\<close>: the test every store makes before it serves an entry.\<close>

definition expired :: "time option \<Rightarrow> time \<Rightarrow> bool" where
  "expired t now = (case t of None \<Rightarrow> False | Some e \<Rightarrow> e < now)"

lemma expired_None [simp, expiry_simps]: "expired None now = False"
  by (simp add: expired_def)

lemma expired_Some [simp, expiry_simps]: "expired (Some e) now = (e < now)"
  by (simp add: expired_def)

lemma expired_mono: "expired t now \<Longrightarrow> now \<le> now' \<Longrightarrow> expired t now'"
  by (cases t) auto

section \<open>Go arithmetic\<close>

text \<open>Converting a \<^verbatim>\<open>float64\<close> to an integer type truncates toward zero.\<close>

definition go_trunc :: "float64 \<Rightarrow> int" where
  "go_trunc x = (if x < 0 then \<lceil>x\<rceil> else \<lfloor>x\<rfloor>)"

text \<open>Integer division truncates toward zero.\<close>

definition go_div :: "int \<Rightarrow> int \<Rightarrow> int" where
  "go_div a b = sgn a * sgn b * (\<bar>a\<bar> div \<bar>b\<bar>)"

section \<open>Go maps\<close>

text \<open>
  \<^verbatim>\<open>m[k]\<close> of a missing key is the zero value of the element type. \<^verbatim>\<open>range m\<close> visits every entry
  once, in an order the language leaves open: a function that ranges over a map takes the
  order as an argument, and \<open>iteration_order\<close> says that a list is one of them.
\<close>

definition gomap_get :: "'v \<Rightarrow> ('k, 'v) gomap \<Rightarrow> 'k \<Rightarrow> 'v" where
  "gomap_get z m k = (case m k of None \<Rightarrow> z | Some v \<Rightarrow> v)"

definition gomap_delete :: "'k \<Rightarrow> ('k, 'v) gomap \<Rightarrow> ('k, 'v) gomap" where
  "gomap_delete k m = m(k := None)"

definition gomap_len :: "('k, 'v) gomap \<Rightarrow> nat" where
  "gomap_len m = card (dom m)"

definition iteration_order :: "'k list \<Rightarrow> ('k, 'v) gomap \<Rightarrow> bool" where
  "iteration_order ord m \<longleftrightarrow> distinct ord \<and> set ord = dom m"

lemma gomap_get_upd [simp, gomap_simps]:
  "gomap_get z (m(k \<mapsto> v)) j = (if j = k then v else gomap_get z m j)"
  by (simp add: gomap_get_def)

lemma gomap_get_empty [simp, gomap_simps]: "gomap_get z Map.empty k = z"
  by (simp add: gomap_get_def)

lemma gomap_get_delete [simp, gomap_simps]:
  "gomap_get z (gomap_delete k m) j = (if j = k then z else gomap_get z m j)"
  by (simp add: gomap_get_def gomap_delete_def)

lemma gomap_delete_apply [simp, gomap_simps]:
  "gomap_delete k m j = (if j = k then None else m j)"
  by (simp add: gomap_delete_def)

lemma dom_gomap_delete [simp, gomap_simps]: "dom (gomap_delete k m) = dom m - {k}"
  by (auto simp: gomap_delete_def)

lemma gomap_len_delete:
  "finite (dom m) \<Longrightarrow> k \<in> dom m \<Longrightarrow> gomap_len (gomap_delete k m) = gomap_len m - 1"
  by (simp add: gomap_len_def)

lemma gomap_len_delete_le: "finite (dom m) \<Longrightarrow> gomap_len (gomap_delete k m) \<le> gomap_len m"
  by (auto simp: gomap_len_def intro: card_mono)

lemma gomap_len_upd:
  "finite (dom m) \<Longrightarrow> gomap_len (m(k \<mapsto> v)) = (if k \<in> dom m then gomap_len m else Suc (gomap_len m))"
  by (auto simp: gomap_len_def insert_absorb)

lemma gomap_len_pos: "finite (dom m) \<Longrightarrow> 0 < gomap_len m \<longleftrightarrow> dom m \<noteq> {}"
  by (simp add: gomap_len_def card_gt_0_iff)

lemma iteration_order_finite: "iteration_order ord m \<Longrightarrow> finite (dom m)"
  by (metis List.finite_set iteration_order_def)

lemma iteration_order_len: "iteration_order ord m \<Longrightarrow> length ord = gomap_len m"
  by (auto simp: iteration_order_def gomap_len_def distinct_card [symmetric])

lemma iteration_order_exists: "finite (dom m) \<Longrightarrow> \<exists>ord. iteration_order ord m"
  using finite_distinct_list [of "dom m"] by (auto simp: iteration_order_def)

section \<open>Errors\<close>

text \<open>
  A Go \<^verbatim>\<open>error\<close> is its message with what \<^verbatim>\<open>errors.Is\<close> finds in its chain: \<^verbatim>\<open>context.Canceled\<close>
  and \<^verbatim>\<open>context.DeadlineExceeded\<close> are the two sentinels the request path tests.
\<close>

record goerror =
  err_msg :: string
  err_canceled :: bool
  err_deadline :: bool

definition plain_error :: "string \<Rightarrow> goerror" where
  "plain_error m = \<lparr>err_msg = m, err_canceled = False, err_deadline = False\<rparr>"

definition context_error :: "goerror \<Rightarrow> bool" where
  "context_error e \<longleftrightarrow> err_canceled e \<or> err_deadline e"

section \<open>Strings\<close>

definition HasPrefix :: "string \<Rightarrow> string \<Rightarrow> bool" where
  "HasPrefix s p \<longleftrightarrow> take (length p) s = p"

definition HasSuffix :: "string \<Rightarrow> string \<Rightarrow> bool" where
  "HasSuffix s p \<longleftrightarrow> HasPrefix (rev s) (rev p)"

fun Contains :: "string \<Rightarrow> string \<Rightarrow> bool" where
  "Contains [] sub = (sub = [])"
| "Contains (c # s) sub = (HasPrefix (c # s) sub \<or> Contains s sub)"

text \<open>ASCII letters only; bytes of multi-byte UTF-8 sequences are left as they are.\<close>

definition lower_char :: "char \<Rightarrow> char" where
  "lower_char c = (if 65 \<le> (of_char c :: nat) \<and> (of_char c :: nat) \<le> 90
     then char_of ((of_char c :: nat) + 32) else c)"

definition ToLower :: "string \<Rightarrow> string" where
  "ToLower s = map lower_char s"

text \<open>\<^verbatim>\<open>unicode.IsSpace\<close> on ASCII: tab, newline, vertical tab, form feed, return, space.\<close>

definition is_space :: "char \<Rightarrow> bool" where
  "is_space c \<longleftrightarrow> (of_char c :: nat) \<in> {9, 10, 11, 12, 13, 32}"

definition TrimRightIf :: "(char \<Rightarrow> bool) \<Rightarrow> string \<Rightarrow> string" where
  "TrimRightIf p s = rev (dropWhile p (rev s))"

definition TrimSpace :: "string \<Rightarrow> string" where
  "TrimSpace s = TrimRightIf is_space (dropWhile is_space s)"

text \<open>\<^verbatim>\<open>strings.Split\<close> at a one-byte separator, and the part before and after its first occurrence.\<close>

fun split_at :: "char \<Rightarrow> string \<Rightarrow> string list" where
  "split_at sep [] = [[]]"
| "split_at sep (c # s) =
     (if c = sep then [] # split_at sep s
      else case split_at sep s of [] \<Rightarrow> [[c]] | p # ps \<Rightarrow> (c # p) # ps)"

definition cut_at :: "char \<Rightarrow> string \<Rightarrow> (string \<times> string) option" where
  "cut_at sep s = (if sep \<in> set s
     then Some (takeWhile (\<lambda>c. c \<noteq> sep) s, tl (dropWhile (\<lambda>c. c \<noteq> sep) s)) else None)"

text \<open>\<^verbatim>\<open>strings.Join\<close>.\<close>

fun Join :: "string list \<Rightarrow> string \<Rightarrow> string" where
  "Join [] sep = []"
| "Join [s] sep = s"
| "Join (s # t # ss) sep = s @ sep @ Join (t # ss) sep"

text \<open>\<^verbatim>\<open>hex.EncodeToString\<close>.\<close>

definition hex_digit :: "nat \<Rightarrow> char" where
  "hex_digit n = char_of (if n < 10 then 48 + n else 87 + n)"

definition hex_byte :: "char \<Rightarrow> string" where
  "hex_byte c = [hex_digit (of_char c div 16), hex_digit (of_char c mod 16)]"

definition hex_encode :: "string \<Rightarrow> string" where
  "hex_encode s = concat (map hex_byte s)"

text \<open>\<^verbatim>\<open>strconv.Itoa\<close> and \<^verbatim>\<open>strconv.Atoi\<close>, which refuses what does not fit 64 bits.\<close>

fun nat_digits :: "nat \<Rightarrow> string" where
  "nat_digits n = (if n < 10 then [char_of (48 + n)]
     else nat_digits (n div 10) @ [char_of (48 + n mod 10)])"

declare nat_digits.simps [simp del]

definition Itoa :: "int \<Rightarrow> string" where
  "Itoa n = (if n < 0 then CHR ''-'' # nat_digits (nat (- n)) else nat_digits (nat n))"

definition is_digit :: "char \<Rightarrow> bool" where
  "is_digit c \<longleftrightarrow> 48 \<le> (of_char c :: nat) \<and> (of_char c :: nat) \<le> 57"

definition digits_value :: "string \<Rightarrow> nat" where
  "digits_value s = foldl (\<lambda>a c. 10 * a + ((of_char c :: nat) - 48)) 0 s"

definition parse_uint :: "string \<Rightarrow> nat option" where
  "parse_uint s = (if s \<noteq> [] \<and> list_all is_digit s then Some (digits_value s) else None)"

definition Atoi :: "string \<Rightarrow> int option" where
  "Atoi s =
     (let v = (case s of
          [] \<Rightarrow> None
        | c # t \<Rightarrow> if c = CHR ''-'' then map_option (\<lambda>n. - int n) (parse_uint t)
                   else if c = CHR ''+'' then map_option int (parse_uint t)
                   else map_option int (parse_uint s))
      in case v of None \<Rightarrow> None
         | Some n \<Rightarrow> if - (2 ^ 63) \<le> n \<and> n < 2 ^ 63 then Some n else None)"

lemma HasPrefix_iff: "HasPrefix s p \<longleftrightarrow> (\<exists>t. s = p @ t)"
proof
  assume "HasPrefix s p"
  then have "s = p @ drop (length p) s"
    unfolding HasPrefix_def by (metis append_take_drop_id)
  then show "\<exists>t. s = p @ t" ..
qed (auto simp: HasPrefix_def)

lemma HasPrefix_prefix: "HasPrefix s p \<longleftrightarrow> prefix p s"
  by (auto simp: HasPrefix_iff prefix_def)

lemma Contains_iff: "Contains s sub \<longleftrightarrow> sublist sub s"
proof (induction s)
  case Nil
  then show ?case by simp
next
  case (Cons c s)
  then show ?case by (simp add: HasPrefix_prefix sublist_Cons_right)
qed

lemma of_char_digit [simp]: "d < 10 \<Longrightarrow> (of_char (char_of (48 + d :: nat)) :: nat) = 48 + d"
  by (simp add: of_char_of)

lemma is_digit_char [simp]: "d < 10 \<Longrightarrow> is_digit (char_of (48 + d :: nat))"
  by (simp add: is_digit_def)

lemma digits_value_snoc: "digits_value (s @ [c]) = 10 * digits_value s + ((of_char c :: nat) - 48)"
  by (simp add: digits_value_def)

lemma nat_digits_ok:
  "nat_digits n \<noteq> [] \<and> list_all is_digit (nat_digits n) \<and> digits_value (nat_digits n) = n"
proof (induction n rule: nat_digits.induct)
  case (1 n)
  show ?case
  proof (cases "n < 10")
    case True
    then show ?thesis
      by (simp add: nat_digits.simps digits_value_def)
  next
    case False
    have "n mod 10 < 10" by simp
    with 1 [OF False] show ?thesis
      by (subst (1 2 3) nat_digits.simps) (simp add: False digits_value_snoc)
  qed
qed

lemma parse_uint_digits: "parse_uint (nat_digits n) = Some n"
  by (simp add: parse_uint_def nat_digits_ok)

lemma nat_digits_hd: "nat_digits n = c # t \<Longrightarrow> c \<noteq> CHR ''-'' \<and> c \<noteq> CHR ''+''"
  using nat_digits_ok [of n] by (auto simp: is_digit_def)

lemma Atoi_Itoa: "- (2 ^ 63) \<le> n \<Longrightarrow> n < 2 ^ 63 \<Longrightarrow> Atoi (Itoa n) = Some n"
  using parse_uint_digits [of "nat n"] nat_digits_hd [of "nat n"]
    nat_digits_ok [of "nat n"]
  by (cases "nat_digits (nat n)")
    (auto simp: Atoi_def Itoa_def parse_uint_digits)

lemma split_at_nonempty [simp]: "split_at sep s \<noteq> []"
  by (induction s) (auto split: list.splits)

lemma Join_Cons: "ss \<noteq> [] \<Longrightarrow> Join (s # ss) sep = s @ sep @ Join ss sep"
  by (cases ss) auto

lemma Join_split_at: "Join (split_at sep s) [sep] = s"
proof (induction s)
  case (Cons c s)
  then show ?case
    by (cases "split_at sep s") (auto simp: Join_Cons split: list.splits, (metis Join.simps(2,3) append_Cons list.exhaust)+)
qed simp

lemma split_at_no_sep: "p \<in> set (split_at sep s) \<Longrightarrow> sep \<notin> set p"
  by (induction s arbitrary: p) (auto split: if_splits list.splits)

lemma split_at_append_sep: "sep \<notin> set p \<Longrightarrow> split_at sep (p @ sep # s) = p # split_at sep s"
  by (induction p) auto

lemma split_at_single: "sep \<notin> set p \<Longrightarrow> split_at sep p = [p]"
  by (induction p) auto

lemma split_at_Join:
  "ss \<noteq> [] \<Longrightarrow> (\<And>p. p \<in> set ss \<Longrightarrow> sep \<notin> set p) \<Longrightarrow> split_at sep (Join ss [sep]) = ss"
proof (induction ss)
  case (Cons p ps)
  then show ?case
    by (cases "ps = []") (simp_all add: split_at_single Join_Cons split_at_append_sep)
qed simp

lemma of_char_hex_digit: "n < 16 \<Longrightarrow> (of_char (hex_digit n) :: nat) = (if n < 10 then 48 + n else 87 + n)"
  by (cases "n < 10") (simp_all add: hex_digit_def of_char_of)

lemma hex_digit_inj:
  assumes "m < 16" "n < 16" "hex_digit m = hex_digit n"
  shows "m = n"
proof -
  have "(if m < 10 then 48 + m else 87 + m) = (if n < 10 then 48 + n else 87 + n)"
    using assms(3) of_char_hex_digit [OF assms(1)] of_char_hex_digit [OF assms(2)] by metis
  with assms(1,2) show ?thesis by (simp split: if_splits)
qed

lemma hex_byte_inj: "hex_byte c = hex_byte d \<Longrightarrow> c = d"
proof -
  assume eq: "hex_byte c = hex_byte d"
  have "(of_char c :: nat) div 16 < 16" "(of_char d :: nat) div 16 < 16"
    using nat_of_char_less_256 [of c] nat_of_char_less_256 [of d] by linarith+
  moreover have "hex_digit (of_char c div 16) = hex_digit (of_char d div 16)"
      "hex_digit (of_char c mod 16) = hex_digit (of_char d mod 16)"
    using eq by (simp_all add: hex_byte_def)
  ultimately have "(of_char c :: nat) div 16 = of_char d div 16" "(of_char c :: nat) mod 16 = of_char d mod 16"
    by (auto intro: hex_digit_inj)
  then have "(of_char c :: nat) = of_char d" by (metis div_mult_mod_eq)
  then show "c = d" by simp
qed

lemma hex_encode_inj: "hex_encode s = hex_encode t \<Longrightarrow> s = t"
proof (induction s arbitrary: t)
  case Nil
  then show ?case by (cases t) (auto simp: hex_encode_def hex_byte_def)
next
  case (Cons c s)
  then obtain d t' where t: "t = d # t'"
    by (cases t) (auto simp: hex_encode_def hex_byte_def)
  with Cons.prems have "hex_byte c = hex_byte d" "hex_encode s = hex_encode t'"
    by (auto simp: hex_encode_def hex_byte_def)
  with Cons.IH [of t'] t show ?case by (simp add: hex_byte_inj)
qed

text \<open>Strings joined at a separator that does not occur in the first part split uniquely.\<close>

lemma append_sep_cancel:
  "c \<notin> set xs \<Longrightarrow> c \<notin> set ys \<Longrightarrow> xs @ c # us = ys @ c # vs \<longleftrightarrow> xs = ys \<and> us = vs"
proof (induction xs arbitrary: ys)
  case Nil
  then show ?case by (cases ys) auto
next
  case (Cons x xs)
  then show ?case by (cases ys) auto
qed

section \<open>Invariants of runs\<close>

text \<open>
  Every stateful component is a state and a step function on its operations. An invariant
  that one operation keeps holds after every sequence of operations.
\<close>

locale invariant_run =
  fixes step :: "'s \<Rightarrow> 'e \<Rightarrow> 's"
    and inv :: "'s \<Rightarrow> bool"
  assumes step_inv: "inv s \<Longrightarrow> inv (step s e)"
begin

lemma run_inv: "inv s \<Longrightarrow> inv (foldl step s es)"
  by (induction es arbitrary: s) (auto intro: step_inv)

end

section \<open>Journals\<close>

text \<open>
  Several stores append a record of every change to a file and rebuild their state from it at
  start-up. The contract: what an operation does to the state it persists (\<open>view\<close>) is what
  applying the records it writes does. Then replaying the journal of any sequence of operations
  restores the state.
\<close>

fun run_journal :: "('s \<Rightarrow> 'o \<Rightarrow> 's) \<Rightarrow> ('s \<Rightarrow> 'o \<Rightarrow> 'e list) \<Rightarrow> 's \<Rightarrow> 'o list \<Rightarrow> 'e list" where
  "run_journal op emits s [] = []"
| "run_journal op emits s (x # xs) = emits s x @ run_journal op emits (op s x) xs"

locale journaled =
  fixes op :: "'s \<Rightarrow> 'o \<Rightarrow> 's"
    and emits :: "'s \<Rightarrow> 'o \<Rightarrow> 'e list"
    and apply_entry :: "'v \<Rightarrow> 'e \<Rightarrow> 'v"
    and view :: "'s \<Rightarrow> 'v"
    and ok :: "'s \<Rightarrow> bool"
  assumes ok_op: "ok s \<Longrightarrow> ok (op s x)"
    and op_view: "ok s \<Longrightarrow> view (op s x) = foldl apply_entry (view s) (emits s x)"
begin

lemma replay_run: "ok s \<Longrightarrow> foldl apply_entry (view s) (run_journal op emits s xs) = view (foldl op s xs)"
proof (induction xs arbitrary: s)
  case (Cons x xs)
  then show ?case by (simp add: op_view [symmetric] ok_op)
qed simp

lemma ok_run: "ok s \<Longrightarrow> ok (foldl op s xs)"
  by (induction xs arbitrary: s) (auto intro: ok_op)

lemma replay_from:
  "ok s \<Longrightarrow> view s = foldl apply_entry v0 old \<Longrightarrow>
   foldl apply_entry v0 (old @ run_journal op emits s xs) = view (foldl op s xs)"
  using replay_run [of s xs] by simp

end

end
