(* ===== verification/Schema.thy ===== *)
theory Schema
  imports Prelude
begin

text \<open>
  The data contracts of \<^verbatim>\<open>pkg/schema\<close> and \<^verbatim>\<open>pkg/provider\<close>: each struct is a record with the
  struct's fields in order (prefixed by the struct), each \<^verbatim>\<open>any\<close> a JSON value, each pointer an
  option. \<^verbatim>\<open>Message\<close> has its own JSON codec (\<^verbatim>\<open>content.go\<close>), modelled on JSON trees: the text of a
  tree is the business of \<^verbatim>\<open>encoding/json\<close>, which object keys are written and how they are read
  back is the business of the code.
\<close>

section \<open>JSON trees\<close>

text \<open>A number literal with a fraction or an exponent is a \<open>JFloat\<close>: the integer decoders refuse it.\<close>

datatype json = JNull | JBool bool | JInt int | JFloat float64 | JStr string | JArr "json list"
  | JObj "(string \<times> json) list"

text \<open>A later duplicate of a key overrides an earlier one. \<^verbatim>\<open>null\<close> leaves a field at its zero value.\<close>

definition json_field :: "string \<Rightarrow> (string \<times> json) list \<Rightarrow> json option" where
  "json_field k obj = map_of (rev obj) k"

definition json_string :: "string \<Rightarrow> (string \<times> json) list \<Rightarrow> string option" where
  "json_string k obj = (case json_field k obj of
      None \<Rightarrow> Some []
    | Some JNull \<Rightarrow> Some []
    | Some (JStr s) \<Rightarrow> Some s
    | Some _ \<Rightarrow> None)"

fun json_list :: "(json \<Rightarrow> 'a option) \<Rightarrow> json list \<Rightarrow> 'a list option" where
  "json_list f [] = Some []"
| "json_list f (v # vs) = (case f v of None \<Rightarrow> None
     | Some x \<Rightarrow> (case json_list f vs of None \<Rightarrow> None | Some xs \<Rightarrow> Some (x # xs)))"

definition json_object :: "string \<Rightarrow> (string \<times> json) list \<Rightarrow> (string \<times> json) list option" where
  "json_object k obj = (case json_field k obj of
      None \<Rightarrow> Some [] | Some JNull \<Rightarrow> Some [] | Some (JObj o') \<Rightarrow> Some o' | Some _ \<Rightarrow> None)"

definition json_int :: "string \<Rightarrow> (string \<times> json) list \<Rightarrow> int option" where
  "json_int k obj = (case json_field k obj of
      None \<Rightarrow> Some 0 | Some JNull \<Rightarrow> Some 0 | Some (JInt n) \<Rightarrow> (if - (2 ^ 63) \<le> n \<and> n < 2 ^ 63 then Some n else None) | Some _ \<Rightarrow> None)"

definition decode_object :: "(string \<Rightarrow> json option) \<Rightarrow> ((string \<times> json) list \<Rightarrow> 'a option) \<Rightarrow> string \<Rightarrow> 'a option" where
  "decode_object unmarshal f s = (case unmarshal s of Some (JObj o') \<Rightarrow> f o' | Some JNull \<Rightarrow> f [] | _ \<Rightarrow> None)"

definition omitempty :: "string \<Rightarrow> string \<Rightarrow> (string \<times> json) list" where
  "omitempty k s = (if s = [] then [] else [(k, JStr s)])"

section \<open>Messages and requests\<close>

record ImageURLPart =
  img_URL :: string
  img_Detail :: string

record ContentPart =
  part_Type :: string
  part_Text :: string
  part_ImageURL :: "ImageURLPart option"

record ToolFunction =
  tf_Name :: string
  tf_Arguments :: string

record ToolCall =
  tc_ID :: string
  tc_Type :: string
  tc_Function :: ToolFunction

record Message =
  msg_Role :: string
  msg_Content :: string
  msg_Parts :: "ContentPart list"
  msg_ToolCalls :: "ToolCall list"
  msg_ToolCallID :: string
  msg_Name :: string

record FunctionDef =
  fn_Name :: string
  fn_Description :: string
  fn_Parameters :: "(string \<times> json) list"
  fn_Strict :: bool

record Tool =
  tool_Type :: string
  tool_Function :: FunctionDef

record RequestEnvelope =
  req_Model :: string
  req_Messages :: "Message list"
  req_Stream :: bool
  req_Tools :: "Tool list"
  req_ToolChoice :: json
  req_Temperature :: float64
  req_MaxTokens :: int
  req_TopP :: float64
  req_N :: int
  req_Stop :: json
  req_User :: string

record Choice =
  ch_Index :: int
  ch_Message :: Message
  ch_FinishReason :: string

record Usage =
  PromptTokens :: int
  CompletionTokens :: int
  TotalTokens :: int
  CacheReadInputTokens :: int
  CacheCreationInputTokens :: int

record ResponseEnvelope =
  resp_ID :: string
  resp_Object :: string
  resp_Created :: int
  resp_Model :: string
  resp_Choices :: "Choice list"
  resp_Usage :: Usage

text \<open>Zero values of the structs, and a message with only a role and a text.\<close>

definition text_message :: "string \<Rightarrow> string \<Rightarrow> Message" where
  "text_message role content = \<lparr>msg_Role = role, msg_Content = content, msg_Parts = [],
     msg_ToolCalls = [], msg_ToolCallID = [], msg_Name = []\<rparr>"

definition zero_request :: RequestEnvelope where
  "zero_request = \<lparr>req_Model = [], req_Messages = [], req_Stream = False, req_Tools = [],
     req_ToolChoice = JNull, req_Temperature = 0, req_MaxTokens = 0, req_TopP = 0, req_N = 0,
     req_Stop = JNull, req_User = []\<rparr>"

definition zero_usage :: Usage where
  "zero_usage = \<lparr>PromptTokens = 0, CompletionTokens = 0, TotalTokens = 0,
     CacheReadInputTokens = 0, CacheCreationInputTokens = 0\<rparr>"

definition zero_response :: ResponseEnvelope where
  "zero_response = \<lparr>resp_ID = [], resp_Object = [], resp_Created = 0, resp_Model = [],
     resp_Choices = [], resp_Usage = zero_usage\<rparr>"

section \<open>Identity, cost, events, stream chunks\<close>

record Identity =
  TenantID :: string
  TeamID :: string
  UserID :: string
  UseCaseID :: string

record CostBreakdown =
  InputUSD :: float64
  OutputUSD :: float64
  TotalUSD :: float64

record ShadowMetadata =
  PrimaryID :: string
  PrimaryModel :: string
  ShadowModel :: string

record CallEvent =
  ev_ID :: string
  ev_Timestamp :: time
  ev_UseCaseID :: string
  ev_TenantID :: string
  ev_TeamID :: string
  ev_UserID :: string
  ev_Provider :: string
  ev_Model :: string
  ev_Latency :: duration
  ev_TokensIn :: int
  ev_TokensOut :: int
  ev_Cost :: CostBreakdown
  ev_Request :: RequestEnvelope
  ev_Response :: ResponseEnvelope
  ev_Error :: string
  ev_Streaming :: bool
  ev_Shadow :: "ShadowMetadata option"
  ev_AutoRouted :: bool
  ev_FallbackUsed :: bool
  ev_FallbackFrom :: string

record StreamChunk =
  chunk_ID :: string
  chunk_Model :: string
  chunk_Delta :: Message
  chunk_FinishReason :: string
  chunk_Usage :: "Usage option"

definition zero_cost :: CostBreakdown where
  "zero_cost = \<lparr>InputUSD = 0, OutputUSD = 0, TotalUSD = 0\<rparr>"

definition zero_event :: CallEvent where
  "zero_event = \<lparr>ev_ID = [], ev_Timestamp = zero_time, ev_UseCaseID = [], ev_TenantID = [],
     ev_TeamID = [], ev_UserID = [], ev_Provider = [], ev_Model = [], ev_Latency = 0,
     ev_TokensIn = 0, ev_TokensOut = 0, ev_Cost = zero_cost, ev_Request = zero_request,
     ev_Response = zero_response, ev_Error = [], ev_Streaming = False, ev_Shadow = None,
     ev_AutoRouted = False, ev_FallbackUsed = False, ev_FallbackFrom = []\<rparr>"

text \<open>\<^verbatim>\<open>EventLatency\<close> truncates to milliseconds when written and multiplies back when read.\<close>

definition EventLatency_Milliseconds :: "duration \<Rightarrow> int" where
  "EventLatency_Milliseconds d = sgn d * (\<bar>d\<bar> div Millisecond)"

definition EventLatency_MarshalJSON :: "duration \<Rightarrow> json" where
  "EventLatency_MarshalJSON d = JInt (EventLatency_Milliseconds d)"

definition EventLatency_UnmarshalJSON :: "json \<Rightarrow> duration option" where
  "EventLatency_UnmarshalJSON v = (case v of
      JInt ms \<Rightarrow> Some (ms * Millisecond)
    | JNull \<Rightarrow> Some 0
    | _ \<Rightarrow> None)"

section \<open>Message codec\<close>

definition marshal_part :: "ContentPart \<Rightarrow> json" where
  "marshal_part p = JObj ([(''type'', JStr (part_Type p))] @ omitempty ''text'' (part_Text p) @
     (case part_ImageURL p of None \<Rightarrow> []
      | Some i \<Rightarrow> [(''image_url'', JObj ([(''url'', JStr (img_URL i))] @ omitempty ''detail'' (img_Detail i)))]))"

definition marshal_tool_call :: "ToolCall \<Rightarrow> json" where
  "marshal_tool_call t = JObj [(''id'', JStr (tc_ID t)), (''type'', JStr (tc_Type t)),
     (''function'', JObj [(''name'', JStr (tf_Name (tc_Function t))),
        (''arguments'', JStr (tf_Arguments (tc_Function t)))])]"

definition marshal_message_rest :: "Message \<Rightarrow> (string \<times> json) list" where
  "marshal_message_rest m =
     (if msg_ToolCalls m = [] then [] else [(''tool_calls'', JArr (map marshal_tool_call (msg_ToolCalls m)))]) @
     omitempty ''tool_call_id'' (msg_ToolCallID m) @ omitempty ''name'' (msg_Name m)"

definition Message_MarshalJSON :: "Message \<Rightarrow> json" where
  "Message_MarshalJSON m =
     (if msg_Parts m = []
      then JObj ([(''role'', JStr (msg_Role m))] @ omitempty ''content'' (msg_Content m) @ marshal_message_rest m)
      else JObj ([(''role'', JStr (msg_Role m))] @ marshal_message_rest m @
             [(''content'', JArr (map marshal_part (msg_Parts m)))]))"

definition unmarshal_image :: "json \<Rightarrow> ImageURLPart option option" where
  "unmarshal_image v = (case v of
      JNull \<Rightarrow> Some None
    | JObj obj \<Rightarrow> (case (json_string ''url'' obj, json_string ''detail'' obj) of
        (Some u, Some d) \<Rightarrow> Some (Some \<lparr>img_URL = u, img_Detail = d\<rparr>)
      | _ \<Rightarrow> None)
    | _ \<Rightarrow> None)"

definition unmarshal_part :: "json \<Rightarrow> ContentPart option" where
  "unmarshal_part v = (case v of
      JObj obj \<Rightarrow>
        (case (json_string ''type'' obj, json_string ''text'' obj,
               case json_field ''image_url'' obj of None \<Rightarrow> Some None | Some i \<Rightarrow> unmarshal_image i) of
          (Some ty, Some tx, Some i) \<Rightarrow> Some \<lparr>part_Type = ty, part_Text = tx, part_ImageURL = i\<rparr>
        | _ \<Rightarrow> None)
    | JNull \<Rightarrow> Some \<lparr>part_Type = [], part_Text = [], part_ImageURL = None\<rparr>
    | _ \<Rightarrow> None)"

definition unmarshal_tool_function :: "json option \<Rightarrow> ToolFunction option" where
  "unmarshal_tool_function v = (case v of
      None \<Rightarrow> Some \<lparr>tf_Name = [], tf_Arguments = []\<rparr>
    | Some JNull \<Rightarrow> Some \<lparr>tf_Name = [], tf_Arguments = []\<rparr>
    | Some (JObj obj) \<Rightarrow> (case (json_string ''name'' obj, json_string ''arguments'' obj) of
        (Some n, Some a) \<Rightarrow> Some \<lparr>tf_Name = n, tf_Arguments = a\<rparr>
      | _ \<Rightarrow> None)
    | _ \<Rightarrow> None)"

definition unmarshal_tool_call :: "json \<Rightarrow> ToolCall option" where
  "unmarshal_tool_call v = (case v of
      JObj obj \<Rightarrow>
        (case (json_string ''id'' obj, json_string ''type'' obj,
               unmarshal_tool_function (json_field ''function'' obj)) of
          (Some i, Some t, Some f) \<Rightarrow> Some \<lparr>tc_ID = i, tc_Type = t, tc_Function = f\<rparr>
        | _ \<Rightarrow> None)
    | JNull \<Rightarrow> Some \<lparr>tc_ID = [], tc_Type = [], tc_Function = \<lparr>tf_Name = [], tf_Arguments = []\<rparr>\<rparr>
    | _ \<Rightarrow> None)"

text \<open>The loop that joins the non-empty text parts with newlines.\<close>

definition flatten_text :: "ContentPart list \<Rightarrow> string" where
  "flatten_text parts = foldl (\<lambda>text p.
     if part_Type p = ''text'' \<and> part_Text p \<noteq> [] then
       (if text \<noteq> [] then text @ [CHR 0x0A] else text) @ part_Text p
     else text) [] parts"

text \<open>The probe: every field but \<^verbatim>\<open>content\<close>, then \<^verbatim>\<open>content\<close> by its first byte.\<close>

definition unmarshal_probe :: "(string \<times> json) list \<Rightarrow> Message option" where
  "unmarshal_probe obj =
     (case (json_string ''role'' obj, json_string ''tool_call_id'' obj, json_string ''name'' obj,
            case json_field ''tool_calls'' obj of
              None \<Rightarrow> Some [] | Some JNull \<Rightarrow> Some []
            | Some (JArr vs) \<Rightarrow> json_list unmarshal_tool_call vs | Some _ \<Rightarrow> None) of
        (Some r, Some i, Some n, Some tcs) \<Rightarrow>
          Some \<lparr>msg_Role = r, msg_Content = [], msg_Parts = [], msg_ToolCalls = tcs,
                msg_ToolCallID = i, msg_Name = n\<rparr>
      | _ \<Rightarrow> None)"

definition Message_UnmarshalJSON :: "json \<Rightarrow> Message option" where
  "Message_UnmarshalJSON v = (case v of
      JObj obj \<Rightarrow>
        (case unmarshal_probe obj of None \<Rightarrow> None
         | Some m \<Rightarrow>
           (case json_field ''content'' obj of
              None \<Rightarrow> Some m
            | Some (JStr s) \<Rightarrow> Some (m\<lparr>msg_Content := s\<rparr>)
            | Some (JArr vs) \<Rightarrow>
                (case json_list unmarshal_part vs of None \<Rightarrow> None
                 | Some parts \<Rightarrow> Some (m\<lparr>msg_Parts := parts, msg_Content := flatten_text parts\<rparr>))
            | Some JNull \<Rightarrow> Some m
            | Some _ \<Rightarrow> None))
    | JNull \<Rightarrow> Some (text_message [] [])
    | _ \<Rightarrow> None)"

section \<open>Round trips\<close>

lemma json_field_Nil [simp]: "json_field k [] = None"
  by (simp add: json_field_def)

lemma json_field_append [simp]:
  "json_field k (xs @ ys) = (case json_field k ys of None \<Rightarrow> json_field k xs | Some v \<Rightarrow> Some v)"
  by (simp add: json_field_def map_add_def split: option.splits)

lemma json_field_Cons [simp]:
  "json_field k ((j, v) # ys) = (case json_field k ys of None \<Rightarrow> if k = j then Some v else None
     | Some w \<Rightarrow> Some w)"
  by (simp add: json_field_def map_add_def split: option.splits)

lemma json_field_omitempty [simp]:
  "json_field k (omitempty j s) = (if k = j \<and> s \<noteq> [] then Some (JStr s) else None)"
  by (simp add: omitempty_def)

lemma json_list_map: "(\<And>x. f (g x) = Some x) \<Longrightarrow> json_list f (map g xs) = Some xs"
  by (induction xs) auto

lemma unmarshal_marshal_part: "unmarshal_part (marshal_part p) = Some p"
  by (cases "part_ImageURL p")
    (auto simp: unmarshal_part_def marshal_part_def json_string_def unmarshal_image_def)

lemma unmarshal_marshal_tool_call: "unmarshal_tool_call (marshal_tool_call t) = Some t"
  by (simp add: unmarshal_tool_call_def marshal_tool_call_def json_string_def unmarshal_tool_function_def)

lemmas codec_list = json_list_map [OF unmarshal_marshal_part] json_list_map [OF unmarshal_marshal_tool_call]

lemma probe_ok:
  assumes "json_field ''role'' obj = Some (JStr (msg_Role m))"
    and "json_field ''tool_call_id'' obj = json_field ''tool_call_id'' (marshal_message_rest m)"
    and "json_field ''name'' obj = json_field ''name'' (marshal_message_rest m)"
    and "json_field ''tool_calls'' obj = json_field ''tool_calls'' (marshal_message_rest m)"
  shows "unmarshal_probe obj = Some (m\<lparr>msg_Content := [], msg_Parts := []\<rparr>)"
  using assms
  by (simp add: unmarshal_probe_def json_string_def marshal_message_rest_def codec_list)

lemma rest_fields [simp]:
  "json_field ''role'' (marshal_message_rest m) = None"
  "json_field ''content'' (marshal_message_rest m) = None"
  by (simp_all add: marshal_message_rest_def)

lemma message_codec:
  "Message_UnmarshalJSON (Message_MarshalJSON m) =
     Some (if msg_Parts m = [] then m else m\<lparr>msg_Content := flatten_text (msg_Parts m)\<rparr>)"
proof (cases "msg_Parts m = []")
  case True
  let ?obj = "[(''role'', JStr (msg_Role m))] @ omitempty ''content'' (msg_Content m) @ marshal_message_rest m"
  have "unmarshal_probe ?obj = Some (m\<lparr>msg_Content := [], msg_Parts := []\<rparr>)"
    by (rule probe_ok) (auto split: option.splits)
  with True show ?thesis
    by (cases "msg_Content m = []") (simp_all add: Message_UnmarshalJSON_def Message_MarshalJSON_def)
next
  case False
  let ?obj = "[(''role'', JStr (msg_Role m))] @ marshal_message_rest m @
    [(''content'', JArr (map marshal_part (msg_Parts m)))]"
  have "unmarshal_probe ?obj = Some (m\<lparr>msg_Content := [], msg_Parts := []\<rparr>)"
    by (rule probe_ok) (auto split: option.splits)
  with False show ?thesis
    by (simp add: Message_UnmarshalJSON_def Message_MarshalJSON_def codec_list)
qed

text \<open>
  C39. Writing a message as JSON and reading it back returns the message: exactly for a
  plain-text one; for a multi-part one with every part and tool call intact and \<^verbatim>\<open>Content\<close> set to
  the text of its text parts.
\<close>

theorem message_json_roundtrip:
  "Message_UnmarshalJSON (Message_MarshalJSON m) =
     Some (if msg_Parts m = [] then m else m\<lparr>msg_Content := flatten_text (msg_Parts m)\<rparr>)"
  by (rule message_codec)

text \<open>A latency survives the codec up to the milliseconds it is written in.\<close>

lemma latency_roundtrip:
  "0 \<le> d \<Longrightarrow> EventLatency_UnmarshalJSON (EventLatency_MarshalJSON d) = Some (d - d mod Millisecond)"
  by (cases "d = 0")
    (auto simp: EventLatency_UnmarshalJSON_def EventLatency_MarshalJSON_def
      EventLatency_Milliseconds_def minus_mod_eq_div_mult)

end
