(* ===== verification/ResponseCache.thy ===== *)
theory ResponseCache
  imports Schema
begin

text \<open>
  The exact-match response cache (\<^verbatim>\<open>internal/domain/cache/cache.go\<close>, \<^verbatim>\<open>ExactCache\<close> of
  \<^verbatim>\<open>semantic_cache.go\<close>), the interface the HTTP layer sees (\<^verbatim>\<open>RequestAwareCache\<close>) and the caching
  middleware (\<^verbatim>\<open>internal/ingress/cache_middleware.go\<close>). SHA-256 over the JSON text of model and
  messages is the parameter \<open>digest\<close>. Eviction ranges over a Go map twice; the two iteration
  orders are arguments. One clock reading serves one operation.
\<close>

section \<open>In-memory cache\<close>

type_synonym digest = "string \<times> Message list \<Rightarrow> string"

definition Key :: "digest \<Rightarrow> RequestEnvelope \<Rightarrow> string" where
  "Key digest req = digest (req_Model req, req_Messages req)"

record cache_entry =
  ce_resp :: ResponseEnvelope
  ce_expiresAt :: "time option"

record Memory =
  mc_entries :: "(string, cache_entry) gomap"
  mc_maxSize :: int
  mc_defaultTTL :: duration

definition NewMemory :: "int \<Rightarrow> duration \<Rightarrow> Memory" where
  "NewMemory maxSize defaultTTL = \<lparr>mc_entries = Map.empty, mc_maxSize = maxSize, mc_defaultTTL = defaultTTL\<rparr>"

definition Memory_Get :: "time \<Rightarrow> string \<Rightarrow> Memory \<Rightarrow> ResponseEnvelope option \<times> Memory" where
  "Memory_Get now key m = (case mc_entries m key of
      None \<Rightarrow> (None, m)
    | Some e \<Rightarrow>
        if expired (ce_expiresAt e) now
        then (None, m\<lparr>mc_entries := gomap_delete key (mc_entries m)\<rparr>)
        else (Some (ce_resp e), m))"

definition entry_expired :: "time \<Rightarrow> Memory \<Rightarrow> string \<Rightarrow> bool" where
  "entry_expired now m k = (case mc_entries m k of None \<Rightarrow> False | Some e \<Rightarrow> expired (ce_expiresAt e) now)"

definition evictOldest :: "string list \<Rightarrow> string list \<Rightarrow> time \<Rightarrow> Memory \<Rightarrow> Memory" where
  "evictOldest ord1 ord2 now m = (case find (entry_expired now m) ord1 of
      Some k \<Rightarrow> m\<lparr>mc_entries := gomap_delete k (mc_entries m)\<rparr>
    | None \<Rightarrow> (case ord2 of
        [] \<Rightarrow> m
      | k # _ \<Rightarrow> m\<lparr>mc_entries := gomap_delete k (mc_entries m)\<rparr>))"

definition Memory_expiry :: "time \<Rightarrow> duration \<Rightarrow> Memory \<Rightarrow> time option" where
  "Memory_expiry now ttl m = (if ttl > 0 then Some (now + ttl)
     else if mc_defaultTTL m > 0 then Some (now + mc_defaultTTL m) else None)"

definition Memory_Set :: "string list \<Rightarrow> string list \<Rightarrow> time \<Rightarrow> string \<Rightarrow> ResponseEnvelope \<Rightarrow> duration \<Rightarrow> Memory \<Rightarrow> Memory" where
  "Memory_Set ord1 ord2 now key resp ttl m =
     (let m = (if mc_maxSize m > 0 \<and> int (gomap_len (mc_entries m)) \<ge> mc_maxSize m
               then evictOldest ord1 ord2 now m else m)
      in m\<lparr>mc_entries := (mc_entries m)(key \<mapsto> \<lparr>ce_resp = resp, ce_expiresAt = Memory_expiry now ttl m\<rparr>)\<rparr>)"

definition Memory_Invalidate :: "string \<Rightarrow> Memory \<Rightarrow> Memory" where
  "Memory_Invalidate key m = m\<lparr>mc_entries := gomap_delete key (mc_entries m)\<rparr>"

definition Memory_Size :: "Memory \<Rightarrow> int" where
  "Memory_Size m = int (gomap_len (mc_entries m))"

section \<open>Request-aware caches\<close>

datatype CacheHit = CacheHitNone | CacheHitExact | CacheHitSemantic

fun CacheHit_String :: "CacheHit \<Rightarrow> string" where
  "CacheHit_String CacheHitExact = ''EXACT-HIT''"
| "CacheHit_String CacheHitSemantic = ''SEMANTIC-HIT''"
| "CacheHit_String CacheHitNone = ''MISS''"

definition ExactCache_Lookup :: "digest \<Rightarrow> time \<Rightarrow> RequestEnvelope \<Rightarrow> Memory \<Rightarrow> (ResponseEnvelope \<times> CacheHit) option \<times> Memory" where
  "ExactCache_Lookup digest now req m = (case Memory_Get now (Key digest req) m of
      (None, m) \<Rightarrow> (None, m)
    | (Some resp, m) \<Rightarrow> (Some (resp, CacheHitExact), m))"

definition ExactCache_Store :: "digest \<Rightarrow> string list \<times> string list \<Rightarrow> time \<Rightarrow> RequestEnvelope \<Rightarrow> ResponseEnvelope \<Rightarrow>
    duration \<Rightarrow> Memory \<Rightarrow> Memory" where
  "ExactCache_Store digest ords now req resp ttl m =
     Memory_Set (fst ords) (snd ords) now (Key digest req) resp ttl m"

section \<open>Middleware\<close>

text \<open>
  A recorded response: its status and its body, which is empty, the JSON of a response, or
  something else. The wrapped handler is a parameter that acts on the world. \<^verbatim>\<open>shared\<close> is what
  \<^verbatim>\<open>singleflight\<close> reports to this caller; a caller that is not the leader gets the leader's recorded
  response as \<open>joined\<close> and does not run the handler or the store.
\<close>

datatype http_body = EmptyBody | JsonBody ResponseEnvelope | RawBody string

record recorded =
  rec_status :: int
  rec_body :: http_body

datatype cache_reply = PassedThrough recorded | FromCache string ResponseEnvelope | FromHandler string recorded

definition CacheMiddleware_ServeHTTP ::
    "(RequestEnvelope \<Rightarrow> 'c \<Rightarrow> (ResponseEnvelope \<times> CacheHit) option \<times> 'c) \<Rightarrow>
     (RequestEnvelope \<Rightarrow> ResponseEnvelope \<Rightarrow> duration \<Rightarrow> 'c \<Rightarrow> 'c) \<Rightarrow> duration \<Rightarrow>
     (RequestEnvelope option \<Rightarrow> 'w \<Rightarrow> recorded \<times> 'w) \<Rightarrow> string \<Rightarrow> RequestEnvelope option \<Rightarrow> recorded option \<Rightarrow> bool \<Rightarrow>
     'c \<Rightarrow> 'w \<Rightarrow> cache_reply \<times> 'c \<times> 'w" where
  "CacheMiddleware_ServeHTTP lookup store ttl handler method decoded joined shared c w =
     (let pass = (case handler decoded w of (rec, w) \<Rightarrow> (PassedThrough rec, c, w)) in
      if method \<noteq> ''POST'' then pass
      else case decoded of
        None \<Rightarrow> pass
      | Some req \<Rightarrow>
          if req_Stream req then pass
          else (case lookup req c of
             (Some (resp, hit), c) \<Rightarrow> (FromCache (CacheHit_String hit) resp, c, w)
           | (None, c) \<Rightarrow>
               let status = (if shared then ''COALESCED'' else ''MISS'') in
               (case joined of
                  Some rec \<Rightarrow> (FromHandler status rec, c, w)
                | None \<Rightarrow>
                    (case handler (Some req) w of (rec, w) \<Rightarrow>
                       (FromHandler status rec,
                        (case rec_body rec of
                           JsonBody resp \<Rightarrow> if rec_status rec = 200 then store req resp ttl c else c
                         | _ \<Rightarrow> c), w)))))"

section \<open>Invariant\<close>

definition cache_inv :: "Memory \<Rightarrow> bool" where
  "cache_inv m \<longleftrightarrow> finite (dom (mc_entries m)) \<and>
     (mc_maxSize m > 0 \<longrightarrow> int (gomap_len (mc_entries m)) \<le> mc_maxSize m)"

text \<open>The operations, with the iteration orders a \<^verbatim>\<open>Set\<close> may see.\<close>

datatype cache_op = CGet time string | CSet "string list" "string list" time string ResponseEnvelope duration
  | CInvalidate string

fun cache_step :: "Memory \<Rightarrow> cache_op \<Rightarrow> Memory" where
  "cache_step m (CGet now k) = snd (Memory_Get now k m)"
| "cache_step m (CSet o1 o2 now k r ttl) = Memory_Set o1 o2 now k r ttl m"
| "cache_step m (CInvalidate k) = Memory_Invalidate k m"

fun cache_op_ok :: "Memory \<Rightarrow> cache_op \<Rightarrow> bool" where
  "cache_op_ok m (CSet o1 o2 now k r ttl) \<longleftrightarrow>
     iteration_order o1 (mc_entries m) \<and> iteration_order o2 (mc_entries m)"
| "cache_op_ok m _ \<longleftrightarrow> True"

inductive cache_reachable :: "int \<Rightarrow> duration \<Rightarrow> Memory \<Rightarrow> bool" for n d where
  new: "cache_reachable n d (NewMemory n d)"
| step: "cache_reachable n d m \<Longrightarrow> cache_op_ok m op \<Longrightarrow> cache_reachable n d (cache_step m op)"

lemma evictOldest_fields [simp]:
  "mc_maxSize (evictOldest o1 o2 now m) = mc_maxSize m" "mc_defaultTTL (evictOldest o1 o2 now m) = mc_defaultTTL m"
  by (auto simp: evictOldest_def split: option.splits list.splits)

lemma find_Some_mem: "find P xs = Some x \<Longrightarrow> x \<in> set xs \<and> P x"
  by (induction xs) (auto split: if_splits)

text \<open>Eviction removes exactly one entry, and an expired one when there is one.\<close>

lemma evictOldest_one:
  assumes "iteration_order o1 (mc_entries m)" "iteration_order o2 (mc_entries m)" "dom (mc_entries m) \<noteq> {}"
  shows "\<exists>k \<in> dom (mc_entries m). mc_entries (evictOldest o1 o2 now m) = gomap_delete k (mc_entries m) \<and>
    ((\<exists>j. entry_expired now m j) \<longrightarrow> entry_expired now m k)"
proof (cases "find (entry_expired now m) o1")
  case (Some k)
  then have "k \<in> set o1" "entry_expired now m k" using find_Some_mem by fast+
  with Some assms(1) show ?thesis
    by (intro bexI [of _ k]) (auto simp: evictOldest_def iteration_order_def)
next
  case None
  have none: "\<not> entry_expired now m j" for j
  proof
    assume j: "entry_expired now m j"
    then have "j \<in> set o1" using assms(1) by (auto simp: entry_expired_def iteration_order_def split: option.splits)
    with None j show False by (auto simp: find_None_iff)
  qed
  from assms(2,3) obtain k ks where "o2 = k # ks" by (cases o2) (auto simp: iteration_order_def)
  with None assms(2) none show ?thesis
    by (intro bexI [of _ k]) (auto simp: evictOldest_def iteration_order_def)
qed

lemma cache_inv_Set:
  assumes "cache_inv m" "iteration_order o1 (mc_entries m)" "iteration_order o2 (mc_entries m)"
  shows "cache_inv (Memory_Set o1 o2 now k r ttl m)"
proof (cases "mc_maxSize m > 0 \<and> int (gomap_len (mc_entries m)) \<ge> mc_maxSize m")
  case True
  have fin: "finite (dom (mc_entries m))" using assms(1) by (simp add: cache_inv_def)
  with True have "dom (mc_entries m) \<noteq> {}" by (auto simp: gomap_len_def)
  from evictOldest_one [OF assms(2,3) this, of now] obtain j where
    j: "j \<in> dom (mc_entries m)" "mc_entries (evictOldest o1 o2 now m) = gomap_delete j (mc_entries m)" by blast
  have "gomap_len (gomap_delete j (mc_entries m)) = gomap_len (mc_entries m) - 1"
    using fin j(1) by (rule gomap_len_delete)
  moreover have "0 < gomap_len (mc_entries m)" using True by linarith
  ultimately have "int (gomap_len ((gomap_delete j (mc_entries m))(k \<mapsto> x))) \<le> int (gomap_len (mc_entries m))" for x
    using fin by (auto simp: gomap_len_upd)
  then show ?thesis
    using assms(1) True fin
    by (auto simp: Memory_Set_def Let_def cache_inv_def j(2) intro: order_trans)
next
  case False
  then show ?thesis
    using assms(1) by (auto simp: Memory_Set_def Let_def cache_inv_def gomap_len_upd split: if_splits)
qed

lemma cache_inv_Get: "cache_inv m \<Longrightarrow> cache_inv (snd (Memory_Get now k m))"
  by (auto simp: cache_inv_def Memory_Get_def split: option.splits
      intro: order_trans [OF of_nat_mono [OF gomap_len_delete_le]])

lemma cache_inv_Invalidate: "cache_inv m \<Longrightarrow> cache_inv (Memory_Invalidate k m)"
  by (auto simp: cache_inv_def Memory_Invalidate_def
      intro: order_trans [OF of_nat_mono [OF gomap_len_delete_le]])

lemma cache_inv_step: "cache_inv m \<Longrightarrow> cache_op_ok m op \<Longrightarrow> cache_inv (cache_step m op)"
  by (cases op) (auto intro: cache_inv_Get cache_inv_Set cache_inv_Invalidate)

lemma maxSize_step: "mc_maxSize (cache_step m op) = mc_maxSize m"
  by (cases op) (auto simp: Memory_Get_def Memory_Set_def Memory_Invalidate_def Let_def split: option.splits)

lemma cache_reachable_inv: "cache_reachable n d m \<Longrightarrow> cache_inv m \<and> mc_maxSize m = n"
proof (induction rule: cache_reachable.induct)
  case new
  then show ?case by (simp add: NewMemory_def cache_inv_def gomap_len_def)
next
  case (step m op)
  then show ?case using cache_inv_step maxSize_step by metis
qed

text \<open>
  The cache never grows past its size limit: after any operations, with any eviction order
  the runtime picks, a cache made with a positive \<^verbatim>\<open>maxSize\<close> holds at most that many entries.
\<close>

theorem cache_size_bounded:
  assumes "cache_reachable n d m" "0 < n"
  shows "Memory_Size m \<le> n"
  using cache_reachable_inv [OF assms(1)] assms(2) by (auto simp: cache_inv_def Memory_Size_def)

theorem cache_size_bounded_witness:
  defines "m \<equiv> Memory_Set [''a''] [''a''] 2 ''b'' zero_response 0
      (Memory_Set [] [] 1 ''a'' zero_response 0 (NewMemory 1 0))"
  shows "cache_reachable 1 0 m \<and> Memory_Size m \<le> 1"
proof -
  let ?m1 = "cache_step (NewMemory 1 0) (CSet [] [] 1 ''a'' zero_response 0)"
  have "cache_reachable 1 0 ?m1"
    by (intro cache_reachable.intros) (simp add: NewMemory_def iteration_order_def)
  moreover have "cache_op_ok ?m1 (CSet [''a''] [''a''] 2 ''b'' zero_response 0)"
    by (simp add: NewMemory_def iteration_order_def Memory_Set_def gomap_len_def)
  ultimately have "cache_reachable 1 0 (cache_step ?m1 (CSet [''a''] [''a''] 2 ''b'' zero_response 0))"
    by (rule cache_reachable.step)
  then have "cache_reachable 1 0 m" by (simp add: m_def)
  with cache_size_bounded [OF this] show ?thesis by simp
qed

section \<open>Lookup after store\<close>

lemma Memory_Set_entry:
  "mc_entries (Memory_Set o1 o2 now k r ttl m) k = Some \<lparr>ce_resp = r, ce_expiresAt = Memory_expiry now ttl m\<rparr>"
  by (auto simp: Memory_Set_def Let_def Memory_expiry_def)

lemma Get_after_Set:
  "fst (Memory_Get now' k (Memory_Set o1 o2 now k r ttl m)) =
     (if expired (Memory_expiry now ttl m) now' then None else Some r)"
  by (simp add: Memory_Get_def Memory_Set_entry)

text \<open>
  What \<^verbatim>\<open>Set\<close> does to every key: the new entry is served until its expiry and never after,
  whatever was evicted; any other entry is either untouched or, in a full cache, the single one
  evicted, and that one is not alive while some entry is expired.
\<close>

theorem cache_set_get:
  assumes "iteration_order o1 (mc_entries m)" "iteration_order o2 (mc_entries m)"
  shows "fst (Memory_Get now' k (Memory_Set o1 o2 now k r ttl m)) =
      (if expired (Memory_expiry now ttl m) now' then None else Some r) \<and>
    (\<exists>gone. (gone \<noteq> {} \<longrightarrow> 0 < mc_maxSize m \<and> mc_maxSize m \<le> Memory_Size m) \<and>
       (gone = {} \<or> (\<exists>g. gone = {g})) \<and>
       (\<forall>j. j \<noteq> k \<longrightarrow> mc_entries (Memory_Set o1 o2 now k r ttl m) j = (if j \<in> gone then None else mc_entries m j)) \<and>
       (\<forall>g \<in> gone. (\<exists>j. entry_expired now m j) \<longrightarrow> entry_expired now m g))"
proof (rule conjI [OF Get_after_Set], cases "mc_maxSize m > 0 \<and> int (gomap_len (mc_entries m)) \<ge> mc_maxSize m")
  case True
  then have "dom (mc_entries m) \<noteq> {}" by (auto simp: gomap_len_def)
  from evictOldest_one [OF assms this, of now] obtain g where g:
    "mc_entries (evictOldest o1 o2 now m) = gomap_delete g (mc_entries m)"
    "(\<exists>j. entry_expired now m j) \<longrightarrow> entry_expired now m g" by blast
  then show "\<exists>gone. (gone \<noteq> {} \<longrightarrow> 0 < mc_maxSize m \<and> mc_maxSize m \<le> Memory_Size m) \<and>
       (gone = {} \<or> (\<exists>g. gone = {g})) \<and>
       (\<forall>j. j \<noteq> k \<longrightarrow> mc_entries (Memory_Set o1 o2 now k r ttl m) j = (if j \<in> gone then None else mc_entries m j)) \<and>
       (\<forall>g \<in> gone. (\<exists>j. entry_expired now m j) \<longrightarrow> entry_expired now m g)"
    using True by (intro exI [of _ "{g}"]) (auto simp: Memory_Set_def Let_def Memory_Size_def)
next
  case False
  then show "\<exists>gone. (gone \<noteq> {} \<longrightarrow> 0 < mc_maxSize m \<and> mc_maxSize m \<le> Memory_Size m) \<and>
       (gone = {} \<or> (\<exists>g. gone = {g})) \<and>
       (\<forall>j. j \<noteq> k \<longrightarrow> mc_entries (Memory_Set o1 o2 now k r ttl m) j = (if j \<in> gone then None else mc_entries m j)) \<and>
       (\<forall>g \<in> gone. (\<exists>j. entry_expired now m j) \<longrightarrow> entry_expired now m g)"
    by (intro exI [of _ "{}"]) (auto simp: Memory_Set_def Let_def)
qed

theorem cache_set_get_witness:
  "fst (Memory_Get 5 ''k'' (Memory_Set [] [] 2 ''k'' zero_response 3 (NewMemory 10 0))) = Some zero_response \<and>
   fst (Memory_Get 6 ''k'' (Memory_Set [] [] 2 ''k'' zero_response 3 (NewMemory 10 0))) = None"
  using cache_set_get [of "[]" "NewMemory 10 0" "[]" 5 "''k''" 2 zero_response 3]
    cache_set_get [of "[]" "NewMemory 10 0" "[]" 6 "''k''" 2 zero_response 3]
  by (simp add: NewMemory_def iteration_order_def Memory_expiry_def)

text \<open>Refreshing a key of a full cache can throw out another entry and shrink the cache.\<close>

lemma refresh_evicts_other:
  "mc_entries (Memory_Set [''b'', ''a''] [''b'', ''a''] 3 ''a'' r 0
     (Memory_Set [] [] 2 ''b'' r 0 (Memory_Set [] [] 1 ''a'' r 0 (NewMemory 2 0)))) ''b'' = None"
  by (simp add: Memory_Set_def NewMemory_def evictOldest_def entry_expired_def Memory_expiry_def
      gomap_len_def Let_def)

section \<open>The interface of the middleware\<close>

text \<open>
  What \<^verbatim>\<open>CacheMiddleware\<close> relies on: a request stored and still fresh is found again, as an exact
  hit, with the stored response. \<open>fresh\<close> says when an entry stored in a cache state is alive.
\<close>

locale request_cache =
  fixes lookup :: "time \<Rightarrow> RequestEnvelope \<Rightarrow> 'c \<Rightarrow> (ResponseEnvelope \<times> CacheHit) option \<times> 'c"
    and store :: "'o \<Rightarrow> time \<Rightarrow> RequestEnvelope \<Rightarrow> ResponseEnvelope \<Rightarrow> duration \<Rightarrow> 'c \<Rightarrow> 'c"
    and fresh :: "'c \<Rightarrow> time \<Rightarrow> duration \<Rightarrow> time \<Rightarrow> bool"
  assumes lookup_store: "fresh c now ttl now' \<Longrightarrow>
      fst (lookup now' req (store ords now req resp ttl c)) = Some (resp, CacheHitExact)"
    and lookup_fresh: "fresh (snd (lookup now req c)) t ttl t' = fresh c t ttl t'"
begin

lemma second_request_hits:
  assumes "\<not> req_Stream req" "fst (lookup now req c) = None" "handler (Some req) w = (rec, w1)"
    and "rec_status rec = 200" "rec_body rec = JsonBody resp" "fresh c now ttl now'"
  shows "case CacheMiddleware_ServeHTTP (lookup now) (store ords now) ttl handler ''POST'' (Some req) None False c w of
    (reply, c1, w') \<Rightarrow> reply = FromHandler ''MISS'' rec \<and> w' = w1 \<and>
      (\<exists>c2. CacheMiddleware_ServeHTTP (lookup now') (store ords' now') ttl handler ''POST'' (Some req) None False c1 w1 =
        (FromCache ''EXACT-HIT'' resp, c2, w1))"
proof -
  obtain c0 where c0: "lookup now req c = (None, c0)" using assms(2) by (metis prod.collapse)
  have "fresh c0 now ttl now'" using lookup_fresh [of now req c now ttl now'] assms(6) c0 by simp
  from lookup_store [OF this, of req ords resp] obtain c2 where
    "lookup now' req (store ords now req resp ttl c0) = (Some (resp, CacheHitExact), c2)"
    by (metis prod.collapse)
  then show ?thesis
    using assms c0 by (simp add: CacheMiddleware_ServeHTTP_def Let_def)
qed

lemma hit_skips_handler:
  assumes "\<not> req_Stream req" "fst (lookup now req c) = Some (resp, hit)"
  shows "\<exists>c2. CacheMiddleware_ServeHTTP (lookup now) (store ords now) ttl handler ''POST'' (Some req) joined sh c w =
    (FromCache (CacheHit_String hit) resp, c2, w)"
  using assms by (auto simp: CacheMiddleware_ServeHTTP_def Let_def split: prod.splits)

end

definition exact_fresh :: "Memory \<Rightarrow> time \<Rightarrow> duration \<Rightarrow> time \<Rightarrow> bool" where
  "exact_fresh m now ttl now' \<longleftrightarrow> \<not> expired (Memory_expiry now ttl m) now'"

lemma exact_lookup_store:
  "exact_fresh m now ttl now' \<Longrightarrow>
   fst (ExactCache_Lookup digest now' req (ExactCache_Store digest ords now req resp ttl m)) = Some (resp, CacheHitExact)"
  using Get_after_Set [of now' "Key digest req" "fst ords" "snd ords" now resp ttl m]
  by (auto simp: ExactCache_Lookup_def ExactCache_Store_def exact_fresh_def split: prod.splits option.splits)

lemma exact_lookup_fresh: "exact_fresh (snd (ExactCache_Lookup digest now req m)) t ttl t' = exact_fresh m t ttl t'"
  by (auto simp: exact_fresh_def ExactCache_Lookup_def Memory_Get_def Memory_expiry_def split: option.splits)

interpretation exact_cache: request_cache "ExactCache_Lookup digest" "ExactCache_Store digest" exact_fresh
  for digest
  by unfold_locales (simp_all add: exact_lookup_store exact_lookup_fresh)

text \<open>
  A repeated request is answered from the cache: when a non-streaming request missed and its
  handler answered 200 with a response, the same request sent again while the entry is fresh
  gets that response, marked as an exact hit, and the handler does not run.
\<close>

theorem repeated_request_served_from_cache:
  assumes "\<not> req_Stream req" "fst (ExactCache_Lookup digest now req m) = None"
    and "handler (Some req) w = (rec, w1)" "rec_status rec = 200" "rec_body rec = JsonBody resp"
    and "exact_fresh m now ttl now'"
  shows "case CacheMiddleware_ServeHTTP (ExactCache_Lookup digest now) (ExactCache_Store digest ords now) ttl handler
      ''POST'' (Some req) None False m w of
    (reply, m1, w') \<Rightarrow> reply = FromHandler ''MISS'' rec \<and> w' = w1 \<and>
      (\<exists>m2. CacheMiddleware_ServeHTTP (ExactCache_Lookup digest now') (ExactCache_Store digest ords' now') ttl handler
        ''POST'' (Some req) None False m1 w1 = (FromCache ''EXACT-HIT'' resp, m2, w1))"
  using assms by (intro exact_cache.second_request_hits)

theorem repeated_request_served_from_cache_witness:
  defines "handler \<equiv> (\<lambda>(r :: RequestEnvelope option) (w :: nat). (\<lparr>rec_status = 200, rec_body = JsonBody zero_response\<rparr>, w + 1))"
  defines "d \<equiv> (\<lambda>(x :: string \<times> Message list). fst x)"
  shows "\<exists>m1 m2. CacheMiddleware_ServeHTTP (ExactCache_Lookup d 1) (ExactCache_Store d ([], []) 1) 10 handler
      ''POST'' (Some zero_request) None False (NewMemory 0 0) 0 =
        (FromHandler ''MISS'' \<lparr>rec_status = 200, rec_body = JsonBody zero_response\<rparr>, m1, 1) \<and>
    CacheMiddleware_ServeHTTP (ExactCache_Lookup d 11) (ExactCache_Store d ([], []) 11) 10 handler
        ''POST'' (Some zero_request) None False m1 1 = (FromCache ''EXACT-HIT'' zero_response, m2, 1)"
proof -
  have pre: "\<not> req_Stream zero_request" "fst (ExactCache_Lookup d 1 zero_request (NewMemory 0 0)) = None"
    "exact_fresh (NewMemory 0 0) 1 10 11"
    by (simp_all add: zero_request_def ExactCache_Lookup_def Memory_Get_def NewMemory_def exact_fresh_def Memory_expiry_def)
  have h: "handler (Some zero_request) 0 = (\<lparr>rec_status = 200, rec_body = JsonBody zero_response\<rparr>, 1)"
    by (simp add: handler_def)
  from repeated_request_served_from_cache [where handler = handler and ords = "([], [])" and ords' = "([], [])",
      OF pre(1,2) h _ _ pre(3), of zero_response]
  show ?thesis by (auto split: prod.splits)
qed

end
