(* ===== verification/SemanticLayer.thy ===== *)
theory SemanticLayer
  imports ResponseCache "HOL-Library.Word"
begin

text \<open>
  The semantic response cache (\<^verbatim>\<open>internal/domain/cache\<close>: \<^verbatim>\<open>semantic.go\<close>, \<^verbatim>\<open>vectorize.go\<close>,
  \<^verbatim>\<open>semantic_cache.go\<close>, \<^verbatim>\<open>context.go\<close>): word-hash vectors, the cosine-similarity store with its
  journal, and the two-layer cache. Vectors are lists of reals. FNV-32a works on 32-bit words.
  Tokens are split at ASCII characters that are neither letters nor digits; other bytes belong
  to tokens. An embedder is a parameter: the vector of a text, or an error.
\<close>

unbundle bit_operations_syntax

section \<open>Vectors\<close>

type_synonym vec = "float64 list"

definition cosine_sums :: "vec \<Rightarrow> vec \<Rightarrow> float64 \<times> float64 \<times> float64" where
  "cosine_sums a b = foldl (\<lambda>(dot, normA, normB) (x, y). (dot + x * y, normA + x * x, normB + y * y))
     (0, 0, 0) (zip a b)"

definition cosineSimilarity :: "vec \<Rightarrow> vec \<Rightarrow> float64" where
  "cosineSimilarity a b =
     (if length a \<noteq> length b \<or> length a = 0 then 0
      else case cosine_sums a b of (dot, normA, normB) \<Rightarrow>
        if normA = 0 \<or> normB = 0 then 0 else dot / (sqrt normA * sqrt normB))"

definition vecDim :: nat where
  "vecDim = 512"

text \<open>\<^verbatim>\<open>strings.FieldsFunc\<close>: maximal runs of characters that are not separators.\<close>

definition is_token_char :: "char \<Rightarrow> bool" where
  "is_token_char c \<longleftrightarrow> (let n = (of_char c :: nat) in
     48 \<le> n \<and> n \<le> 57 \<or> 65 \<le> n \<and> n \<le> 90 \<or> 97 \<le> n \<and> n \<le> 122 \<or> 128 \<le> n)"

fun fields_from :: "string \<Rightarrow> string \<Rightarrow> string list" where
  "fields_from acc [] = (if acc = [] then [] else [acc])"
| "fields_from acc (c # cs) =
     (if is_token_char c then fields_from (acc @ [c]) cs
      else (if acc = [] then [] else [acc]) @ fields_from [] cs)"

definition tokenize :: "string \<Rightarrow> string list" where
  "tokenize text = fields_from [] (ToLower text)"

definition fnv32a :: "string \<Rightarrow> 32 word" where
  "fnv32a s = foldl (\<lambda>h c. (h XOR word_of_int (of_char c)) * 16777619) 2166136261 s"

definition bucketOf :: "string \<Rightarrow> nat" where
  "bucketOf token = unat (fnv32a token mod word_of_nat vecDim)"

definition l2Normalize :: "vec \<Rightarrow> vec" where
  "l2Normalize vec =
     (let norm = foldl (\<lambda>n v. n + v * v) 0 vec in
      if norm = 0 then vec else let inv = 1 / sqrt norm in map (\<lambda>v. v * inv) vec)"

definition WordVectorizer_counts :: "string list \<Rightarrow> vec" where
  "WordVectorizer_counts toks = foldl (\<lambda>vec tok. vec[bucketOf tok := vec ! bucketOf tok + 1]) (replicate vecDim 0) toks"

definition WordVectorizer_Embed :: "string \<Rightarrow> goerror + vec" where
  "WordVectorizer_Embed text = Inr (l2Normalize (WordVectorizer_counts (tokenize text)))"

section \<open>Similarity store\<close>

record vectorEntry =
  ve_vec :: vec
  ve_resp :: ResponseEnvelope
  ve_expiresAt :: "time option"

record MemorySemanticBackend =
  sb_entries :: "vectorEntry list"
  sb_maxSize :: int

definition NewMemorySemanticBackend :: "int \<Rightarrow> MemorySemanticBackend" where
  "NewMemorySemanticBackend maxSize = \<lparr>sb_entries = [], sb_maxSize = maxSize\<rparr>"

definition find_step :: "time \<Rightarrow> vec \<Rightarrow> float64 \<Rightarrow> ResponseEnvelope option \<times> float64 \<Rightarrow> vectorEntry \<Rightarrow>
    ResponseEnvelope option \<times> float64" where
  "find_step now vec threshold st e =
     (if expired (ve_expiresAt e) now then st
      else let score = cosineSimilarity vec (ve_vec e) in
           if score \<ge> threshold \<and> score > snd st then (Some (ve_resp e), score) else st)"

definition SemanticBackend_Find :: "time \<Rightarrow> vec \<Rightarrow> float64 \<Rightarrow> MemorySemanticBackend \<Rightarrow> ResponseEnvelope option" where
  "SemanticBackend_Find now vec threshold b = fst (foldl (find_step now vec threshold) (None, 0) (sb_entries b))"

fun remove_first_expired :: "time \<Rightarrow> vectorEntry list \<Rightarrow> vectorEntry list option" where
  "remove_first_expired now [] = None"
| "remove_first_expired now (e # es) =
     (if expired (ve_expiresAt e) now then Some es
      else map_option (Cons e) (remove_first_expired now es))"

definition SemanticBackend_evict :: "time \<Rightarrow> MemorySemanticBackend \<Rightarrow> MemorySemanticBackend" where
  "SemanticBackend_evict now b = (case remove_first_expired now (sb_entries b) of
      Some es \<Rightarrow> b\<lparr>sb_entries := es\<rparr>
    | None \<Rightarrow> b\<lparr>sb_entries := (case sb_entries b of [] \<Rightarrow> [] | _ # es \<Rightarrow> es)\<rparr>)"

definition SemanticBackend_Store :: "time \<Rightarrow> vec \<Rightarrow> ResponseEnvelope \<Rightarrow> duration \<Rightarrow> MemorySemanticBackend \<Rightarrow> MemorySemanticBackend" where
  "SemanticBackend_Store now vec resp ttl b =
     (let b = (if sb_maxSize b > 0 \<and> int (length (sb_entries b)) \<ge> sb_maxSize b then SemanticBackend_evict now b else b)
      in b\<lparr>sb_entries := sb_entries b @ [\<lparr>ve_vec = vec, ve_resp = resp,
             ve_expiresAt = (if ttl > 0 then Some (now + ttl) else None)\<rparr>]\<rparr>)"

section \<open>Journal\<close>

record journalEntry =
  je_Vec :: vec
  je_Resp :: ResponseEnvelope
  je_ExpiresAt :: "time option"

record PersistentSemanticBackend =
  ps_memory :: MemorySemanticBackend
  ps_file :: bool

text \<open>
  One journal line at start-up. The expiry test uses the time the replay began; the remaining
  time and the new expiry are computed from later clock readings, \<open>fst t\<close> and \<open>snd t\<close>. A line that
  does not parse is \<open>None\<close>.
\<close>

definition replay_entry :: "time \<Rightarrow> time \<times> time \<Rightarrow> journalEntry option \<Rightarrow> MemorySemanticBackend \<times> journalEntry list \<Rightarrow>
    MemorySemanticBackend \<times> journalEntry list" where
  "replay_entry now t l st = (case l of
      None \<Rightarrow> st
    | Some e \<Rightarrow>
        if expired (je_ExpiresAt e) now then st
        else (SemanticBackend_Store (snd t) (je_Vec e) (je_Resp e)
                (case je_ExpiresAt e of None \<Rightarrow> 0 | Some x \<Rightarrow> x - fst t) (fst st), snd st @ [e]))"

definition Semantic_replayJournal :: "time \<Rightarrow> (time \<times> time) list \<Rightarrow> journalEntry option list \<Rightarrow> MemorySemanticBackend \<Rightarrow>
    MemorySemanticBackend \<times> journalEntry option list" where
  "Semantic_replayJournal now clocks lines b =
     (let (b, live) = foldl (\<lambda>st (t, l). replay_entry now t l st) (b, []) (zip clocks lines)
      in (b, if length live < length lines \<and> live \<noteq> [] then map Some live else lines))"

definition PersistentSemanticBackend_Store :: "time \<Rightarrow> time \<Rightarrow> vec \<Rightarrow> ResponseEnvelope \<Rightarrow> duration \<Rightarrow>
    PersistentSemanticBackend \<Rightarrow> journalEntry list \<times> PersistentSemanticBackend" where
  "PersistentSemanticBackend_Store now now' vec resp ttl b =
     (if ps_file b then [\<lparr>je_Vec = vec, je_Resp = resp, je_ExpiresAt = (if ttl > 0 then Some (now' + ttl) else None)\<rparr>] else [],
      b\<lparr>ps_memory := SemanticBackend_Store now vec resp ttl (ps_memory b)\<rparr>)"

section \<open>Two-layer cache\<close>

definition HistoryLenFromContext :: "int option \<Rightarrow> int" where
  "HistoryLenFromContext ctx = (case ctx of None \<Rightarrow> 0 | Some n \<Rightarrow> n)"

definition requestText :: "RequestEnvelope \<Rightarrow> int \<Rightarrow> string" where
  "requestText req historyLen =
     (let messages = (if historyLen > 0 \<and> historyLen \<le> int (length (req_Messages req))
                      then drop (nat historyLen) (req_Messages req) else req_Messages req)
      in TrimSpace (concat (map (\<lambda>m. msg_Content m @ [CHR 0x0A])
           (filter (\<lambda>m. msg_Role m = ''user'' \<or> msg_Role m = ''system'') messages))))"

record SemanticCache =
  sc_exact :: Memory
  sc_backend :: MemorySemanticBackend
  sc_threshold :: float64
  sc_qualityBackend :: "MemorySemanticBackend option"

type_synonym embedder = "string \<Rightarrow> goerror + vec"

definition NewSemanticCache :: "Memory \<Rightarrow> MemorySemanticBackend \<Rightarrow> float64 \<Rightarrow> SemanticCache" where
  "NewSemanticCache exact backend threshold =
     \<lparr>sc_exact = exact, sc_backend = backend, sc_threshold = threshold, sc_qualityBackend = None\<rparr>"

definition WithQualityTier :: "MemorySemanticBackend \<Rightarrow> SemanticCache \<Rightarrow> SemanticCache" where
  "WithQualityTier backend s = s\<lparr>sc_qualityBackend := Some backend\<rparr>"

definition SemanticCache_Lookup :: "digest \<Rightarrow> embedder \<Rightarrow> embedder \<Rightarrow> int option \<Rightarrow> time \<Rightarrow> RequestEnvelope \<Rightarrow> SemanticCache \<Rightarrow>
    (ResponseEnvelope \<times> CacheHit) option \<times> SemanticCache" where
  "SemanticCache_Lookup digest emb qemb ctx now req s =
     (case ExactCache_Lookup digest now req (sc_exact s) of
        (Some r, m) \<Rightarrow> (Some r, s\<lparr>sc_exact := m\<rparr>)
      | (None, m) \<Rightarrow>
          let s = s\<lparr>sc_exact := m\<rparr>;
              text = requestText req (HistoryLenFromContext ctx)
          in if text = [] then (None, s)
             else (case emb text of
                 Inl _ \<Rightarrow> (None, s)
               | Inr vec \<Rightarrow>
                   (case SemanticBackend_Find now vec (sc_threshold s) (sc_backend s) of
                      Some resp \<Rightarrow> (Some (resp, CacheHitSemantic), s)
                    | None \<Rightarrow>
                        (case sc_qualityBackend s of
                           None \<Rightarrow> (None, s)
                         | Some qb \<Rightarrow>
                             (case qemb text of
                                Inl _ \<Rightarrow> (None, s)
                              | Inr qvec \<Rightarrow>
                                  (case SemanticBackend_Find now qvec (sc_threshold s) qb of
                                     None \<Rightarrow> (None, s)
                                   | Some resp \<Rightarrow> (Some (resp, CacheHitSemantic), s)))))))"

definition SemanticCache_Store :: "digest \<Rightarrow> embedder \<Rightarrow> int option \<Rightarrow> string list \<times> string list \<Rightarrow> time \<Rightarrow> RequestEnvelope \<Rightarrow>
    ResponseEnvelope \<Rightarrow> duration \<Rightarrow> SemanticCache \<Rightarrow> SemanticCache" where
  "SemanticCache_Store digest emb ctx ords now req resp ttl s =
     (let s = s\<lparr>sc_exact := ExactCache_Store digest ords now req resp ttl (sc_exact s)\<rparr>;
          text = requestText req (HistoryLenFromContext ctx)
      in if text = [] then s
         else (case emb text of
             Inl _ \<Rightarrow> s
           | Inr vec \<Rightarrow> s\<lparr>sc_backend := SemanticBackend_Store now vec resp ttl (sc_backend s)\<rparr>))"

text \<open>The goroutine a store starts when a quality tier is configured, when it gets to run.\<close>

definition SemanticCache_StoreQuality :: "embedder \<Rightarrow> time \<Rightarrow> string \<Rightarrow> ResponseEnvelope \<Rightarrow> duration \<Rightarrow> SemanticCache \<Rightarrow> SemanticCache" where
  "SemanticCache_StoreQuality qemb now text resp ttl s = (case sc_qualityBackend s of
      None \<Rightarrow> s
    | Some qb \<Rightarrow> (case qemb text of
        Inl _ \<Rightarrow> s
      | Inr vec \<Rightarrow> s\<lparr>sc_qualityBackend := Some (SemanticBackend_Store now vec resp ttl qb)\<rparr>))"

section \<open>Cosine similarity\<close>

definition dotp :: "vec \<Rightarrow> vec \<Rightarrow> float64" where
  "dotp a b = sum_list (map2 (*) a b)"

lemma dotp_simps [simp]: "dotp [] [] = 0" "dotp (x # a) (y # b) = x * y + dotp a b"
  by (simp_all add: dotp_def)

lemma cosine_sums_acc:
  "length a = length b \<Longrightarrow>
   foldl (\<lambda>(dot, normA, normB) (x, y). (dot + x * y, normA + x * x, normB + y * y)) (d, na, nb) (zip a b) =
     (d + dotp a b, na + dotp a a, nb + dotp b b)"
  by (induction a b arbitrary: d na nb rule: list_induct2) (simp_all add: algebra_simps)

lemma cosine_sums_eq: "length a = length b \<Longrightarrow> cosine_sums a b = (dotp a b, dotp a a, dotp b b)"
  by (simp add: cosine_sums_def cosine_sums_acc)

lemma dotp_self_nonneg: "0 \<le> dotp a a"
  by (induction a) simp_all

lemma dotp_commute: "length a = length b \<Longrightarrow> dotp a b = dotp b a"
  by (induction a b rule: list_induct2) (simp_all add: mult.commute)

lemma dotp_nonneg: "length a = length b \<Longrightarrow> list_all ((\<le>) 0) a \<Longrightarrow> list_all ((\<le>) 0) b \<Longrightarrow> 0 \<le> dotp a b"
  by (induction a b rule: list_induct2) simp_all

lemma four_mult_le: "4 * u * v \<le> (u + v)\<^sup>2" for u v :: real
  using zero_le_power2 [of "u - v"] by (simp add: power2_eq_square algebra_simps)

lemma cross_term:
  fixes x y d p q :: real
  assumes "d\<^sup>2 \<le> p * q" "0 \<le> p" "0 \<le> q"
  shows "2 * x * y * d \<le> x\<^sup>2 * q + y\<^sup>2 * p"
proof -
  have "(2 * x * y * d)\<^sup>2 = 4 * x\<^sup>2 * y\<^sup>2 * d\<^sup>2" by (simp add: power_mult_distrib)
  also have "\<dots> \<le> 4 * x\<^sup>2 * y\<^sup>2 * (p * q)" using assms(1) by (intro mult_left_mono) auto
  also have "\<dots> = 4 * (x\<^sup>2 * q) * (y\<^sup>2 * p)" by simp
  also have "\<dots> \<le> (x\<^sup>2 * q + y\<^sup>2 * p)\<^sup>2" by (rule four_mult_le)
  finally have "(2 * x * y * d)\<^sup>2 \<le> (x\<^sup>2 * q + y\<^sup>2 * p)\<^sup>2" .
  then show ?thesis by (rule power2_le_imp_le) (simp add: assms(2,3))
qed

lemma dotp_Cauchy_Schwarz: "length a = length b \<Longrightarrow> (dotp a b)\<^sup>2 \<le> dotp a a * dotp b b"
proof (induction a b rule: list_induct2)
  case (Cons x a y b)
  have "2 * x * y * dotp a b \<le> x\<^sup>2 * dotp b b + y\<^sup>2 * dotp a a"
    by (rule cross_term) (use Cons dotp_self_nonneg in auto)
  moreover have "(x * y + dotp a b)\<^sup>2 = x\<^sup>2 * y\<^sup>2 + 2 * x * y * dotp a b + (dotp a b)\<^sup>2"
    by (simp add: power2_sum power_mult_distrib)
  moreover have "(x * x + dotp a a) * (y * y + dotp b b) =
      x\<^sup>2 * y\<^sup>2 + (x\<^sup>2 * dotp b b + y\<^sup>2 * dotp a a) + dotp a a * dotp b b"
    by (simp add: power2_eq_square distrib_left distrib_right)
  ultimately show ?case using Cons.IH by simp
qed simp

lemma cosine_eq:
  "length a = length b \<Longrightarrow> dotp a a \<noteq> 0 \<Longrightarrow> dotp b b \<noteq> 0 \<Longrightarrow>
   cosineSimilarity a b = dotp a b / (sqrt (dotp a a) * sqrt (dotp b b))"
  by (cases a) (auto simp: cosineSimilarity_def cosine_sums_eq)

text \<open>
  Cosine similarity is a similarity: it is symmetric, between -1 and 1 (and between 0 and 1
  for vectors without negative components), and a non-zero vector has similarity exactly 1 with
  itself.
\<close>

theorem cosineSimilarity_bounds:
  "\<bar>cosineSimilarity a b\<bar> \<le> 1 \<and> cosineSimilarity a b = cosineSimilarity b a \<and>
   (list_all ((\<le>) 0) a \<and> list_all ((\<le>) 0) b \<longrightarrow> 0 \<le> cosineSimilarity a b) \<and>
   (dotp a a \<noteq> 0 \<longrightarrow> cosineSimilarity a a = 1)"
proof (cases "length a = length b \<and> dotp a a \<noteq> 0 \<and> dotp b b \<noteq> 0")
  case True
  then have len: "length a = length b" and pos: "0 < dotp a a" "0 < dotp b b"
    using dotp_self_nonneg [of a] dotp_self_nonneg [of b] by auto
  have "\<bar>dotp a b\<bar> \<le> sqrt (dotp a a * dotp b b)"
    using dotp_Cauchy_Schwarz [OF len] by (intro real_le_rsqrt) simp
  then have "\<bar>dotp a b / (sqrt (dotp a a) * sqrt (dotp b b))\<bar> \<le> 1"
    using pos by (simp add: real_sqrt_mult field_simps)
  moreover have "cosineSimilarity a a = 1"
    using cosine_eq [of a a] pos by simp
  ultimately show ?thesis
    using len pos cosine_eq [of a b] cosine_eq [of b a] dotp_commute [OF len] dotp_nonneg [OF len]
    by (auto simp: mult.commute)
next
  case False
  then have "cosineSimilarity a b = 0" "cosineSimilarity b a = 0"
    by (auto simp: cosineSimilarity_def cosine_sums_eq)
  moreover have "cosineSimilarity a a = 1" if "dotp a a \<noteq> 0"
    using that cosine_eq [of a a] dotp_self_nonneg [of a] by simp
  ultimately show ?thesis by simp
qed

theorem cosineSimilarity_bounds_witness:
  "list_all ((\<le>) 0) [3, 4 :: real] \<and> dotp [3, 4] [3, 4] \<noteq> 0 \<and> cosineSimilarity [3, 4] [3, 4] = 1 \<and>
   0 \<le> cosineSimilarity [3, 4] [1, 0]"
  using cosineSimilarity_bounds [of "[3, 4]" "[1, 0]"] by simp

section \<open>Word vectors\<close>

lemma bucketOf_less: "bucketOf t < vecDim"
proof -
  have "unat (fnv32a t mod word_of_nat vecDim) = unat (fnv32a t) mod unat (word_of_nat vecDim :: 32 word)"
    by (rule unat_mod_distrib)
  also have "unat (word_of_nat vecDim :: 32 word) = 512"
    by (simp add: vecDim_def)
  finally show ?thesis by (simp add: bucketOf_def vecDim_def)
qed

lemma sum_list_upd:
  fixes xs :: "real list"
  shows "i < length xs \<Longrightarrow> sum_list (xs[i := xs ! i + 1]) = sum_list xs + 1"
proof (induction xs arbitrary: i)
  case (Cons x xs)
  then show ?case by (cases i) auto
qed simp

lemma counts_spec:
  "length v = vecDim \<Longrightarrow> list_all ((\<le>) 0) v \<Longrightarrow>
   let w = foldl (\<lambda>vec tok. vec[bucketOf tok := vec ! bucketOf tok + 1]) v toks in
   length w = vecDim \<and> list_all ((\<le>) 0) w \<and> sum_list w = sum_list v + real (length toks)"
proof (induction toks arbitrary: v)
  case (Cons t toks)
  have "bucketOf t < length v" using bucketOf_less Cons.prems(1) by simp
  moreover from this have "list_all ((\<le>) 0) (v[bucketOf t := v ! bucketOf t + 1])"
    using Cons.prems(2) by (auto simp: list_all_iff dest!: set_update_subset_insert [THEN subsetD])
  ultimately show ?case
    using Cons.IH [of "v[bucketOf t := v ! bucketOf t + 1]"] Cons.prems by (simp add: Let_def sum_list_upd)
qed simp

lemma dotp_self_zero: "dotp v v = 0 \<Longrightarrow> sum_list v = 0"
proof (induction v)
  case (Cons x v)
  have "x * x + dotp v v = 0" using Cons.prems by simp
  with dotp_self_nonneg [of v] zero_le_square [of x] have "x * x = 0" "dotp v v = 0" by linarith+
  with Cons.IH show ?case by simp
qed simp

lemma foldl_norm: "foldl (\<lambda>n v. n + v * v) n v = n + dotp v v"
  by (induction v arbitrary: n) (simp_all add: algebra_simps)

lemma dotp_scale: "dotp (map (\<lambda>v. v * c) v) (map (\<lambda>v. v * c) v) = c\<^sup>2 * dotp v v"
  by (induction v) (simp_all add: algebra_simps power2_eq_square)

lemma l2Normalize_norm: "dotp (l2Normalize v) (l2Normalize v) = (if dotp v v = 0 then 0 else 1)"
proof (cases "dotp v v = 0")
  case True
  then show ?thesis by (simp add: l2Normalize_def foldl_norm)
next
  case False
  then have "l2Normalize v = map (\<lambda>x. x * (1 / sqrt (dotp v v))) v"
    by (simp add: l2Normalize_def foldl_norm Let_def)
  then have "dotp (l2Normalize v) (l2Normalize v) = (1 / sqrt (dotp v v))\<^sup>2 * dotp v v"
    by (simp only: dotp_scale)
  with False dotp_self_nonneg [of v] show ?thesis by (simp add: power_divide)
qed

lemma WordVectorizer_vec:
  "\<exists>v. WordVectorizer_Embed text = Inr v \<and> length v = vecDim \<and> list_all ((\<le>) 0) v \<and>
     dotp v v = (if tokenize text = [] then 0 else 1) \<and> list_all (\<lambda>t. bucketOf t < vecDim) (tokenize text)"
proof -
  let ?c = "WordVectorizer_counts (tokenize text)"
  have c: "length ?c = vecDim" "list_all ((\<le>) 0) ?c" "sum_list ?c = real (length (tokenize text))"
    using counts_spec [of "replicate vecDim 0" "tokenize text"]
    by (auto simp: WordVectorizer_counts_def Let_def list_all_iff sum_list_replicate)
  have "dotp ?c ?c = 0 \<longleftrightarrow> tokenize text = []"
  proof
    assume "tokenize text = []"
    moreover have "dotp (replicate n 0) (replicate n 0) = 0" for n by (induction n) simp_all
    ultimately show "dotp ?c ?c = 0" by (simp add: WordVectorizer_counts_def)
  next
    assume "dotp ?c ?c = 0"
    then show "tokenize text = []" using dotp_self_zero c(3) by fastforce
  qed
  moreover have "length (l2Normalize ?c) = vecDim" "list_all ((\<le>) 0) (l2Normalize ?c)"
    using c(1,2) by (auto simp: l2Normalize_def Let_def list_all_iff foldl_norm dotp_self_nonneg)
  ultimately show ?thesis
    by (simp add: WordVectorizer_Embed_def l2Normalize_norm list_all_iff bucketOf_less)
qed

text \<open>
  The built-in embedder never fails: it returns a vector of dimension 512 without negative
  components, of length 1 when the text has a token and 0 otherwise; no token hashes outside
  the vector.
\<close>

theorem WordVectorizer_unit:
  "\<exists>v. WordVectorizer_Embed text = Inr v \<and> length v = vecDim \<and> list_all ((\<le>) 0) v \<and>
     dotp v v = (if tokenize text = [] then 0 else 1) \<and> list_all (\<lambda>t. bucketOf t < vecDim) (tokenize text)"
  by (rule WordVectorizer_vec)

section \<open>Finding the best match\<close>

definition matches :: "time \<Rightarrow> vec \<Rightarrow> float64 \<Rightarrow> vectorEntry list \<Rightarrow> vectorEntry list" where
  "matches now vec thr es = filter (\<lambda>e. \<not> expired (ve_expiresAt e) now \<and>
     thr \<le> cosineSimilarity vec (ve_vec e) \<and> 0 < cosineSimilarity vec (ve_vec e)) es"

definition best_of :: "vec \<Rightarrow> vectorEntry list \<Rightarrow> ResponseEnvelope option \<times> float64 \<Rightarrow> bool" where
  "best_of vec ms st \<longleftrightarrow> (if ms = [] then st = (None, 0)
     else \<exists>e \<in> set ms. st = (Some (ve_resp e), cosineSimilarity vec (ve_vec e)) \<and>
       (\<forall>e' \<in> set ms. cosineSimilarity vec (ve_vec e') \<le> cosineSimilarity vec (ve_vec e)))"

lemma best_of_step:
  assumes "best_of vec (matches now vec thr es) st"
  shows "best_of vec (matches now vec thr (es @ [e])) (find_step now vec thr st e)"
proof (cases "matches now vec thr [e] = []")
  case True
  then have same: "matches now vec thr (es @ [e]) = matches now vec thr es"
    by (auto simp: matches_def split: if_splits)
  have "0 \<le> snd st"
    using assms by (auto simp: best_of_def matches_def split: if_splits intro: less_imp_le)
  then have "find_step now vec thr st e = st"
    using True by (auto simp: find_step_def matches_def Let_def split: if_splits)
  with assms same show ?thesis by simp
next
  case False
  then have e: "\<not> expired (ve_expiresAt e) now" "thr \<le> cosineSimilarity vec (ve_vec e)"
      "0 < cosineSimilarity vec (ve_vec e)" "matches now vec thr (es @ [e]) = matches now vec thr es @ [e]"
    by (auto simp: matches_def split: if_splits)
  show ?thesis
  proof (cases "snd st < cosineSimilarity vec (ve_vec e)")
    case True
    then have "find_step now vec thr st e = (Some (ve_resp e), cosineSimilarity vec (ve_vec e))"
      using e by (simp add: find_step_def)
    moreover have "\<forall>e' \<in> set (matches now vec thr es). cosineSimilarity vec (ve_vec e') \<le> cosineSimilarity vec (ve_vec e)"
      using assms True by (auto simp: best_of_def split: if_splits)
    ultimately show ?thesis using e(4) by (auto simp: best_of_def)
  next
    case False
    then have "find_step now vec thr st e = st" using e by (simp add: find_step_def)
    moreover have "matches now vec thr es \<noteq> []" using assms False e(3) by (auto simp: best_of_def)
    ultimately show ?thesis using assms False e(4) by (auto simp: best_of_def)
  qed
qed

lemma Find_best: "best_of vec (matches now vec thr es) (foldl (find_step now vec thr) (None, 0) es)"
proof (induction es rule: rev_induct)
  case Nil
  then show ?case by (simp add: best_of_def matches_def)
next
  case (snoc e es)
  then show ?case by (simp add: best_of_step)
qed

text \<open>
  The similarity search is exact: it returns nothing precisely when no live entry reaches
  both the threshold and a positive score, and otherwise the response of a live entry that
  reaches the threshold and that no other such entry beats.
\<close>

theorem semantic_find_best:
  "case SemanticBackend_Find now vec thr b of
     None \<Rightarrow> matches now vec thr (sb_entries b) = []
   | Some r \<Rightarrow> \<exists>e \<in> set (matches now vec thr (sb_entries b)). ve_resp e = r \<and>
       list_all (\<lambda>e'. cosineSimilarity vec (ve_vec e') \<le> cosineSimilarity vec (ve_vec e))
         (matches now vec thr (sb_entries b))"
  using Find_best [of vec now thr "sb_entries b"]
  by (auto simp: SemanticBackend_Find_def best_of_def list_all_iff split: option.splits if_splits)

text \<open>Storing keeps a bounded store within its bound.\<close>

definition sb_inv :: "MemorySemanticBackend \<Rightarrow> bool" where
  "sb_inv b \<longleftrightarrow> (sb_maxSize b > 0 \<longrightarrow> int (length (sb_entries b)) \<le> sb_maxSize b)"

definition sb_step :: "MemorySemanticBackend \<Rightarrow> time \<times> vec \<times> ResponseEnvelope \<times> duration \<Rightarrow> MemorySemanticBackend" where
  "sb_step b op = (case op of (now, v, r, ttl) \<Rightarrow> SemanticBackend_Store now v r ttl b)"

lemma remove_first_expired_length:
  "remove_first_expired now es = Some es' \<Longrightarrow> length es = Suc (length es')"
  by (induction es arbitrary: es') (auto split: if_splits)

lemma evict_length: "sb_entries b \<noteq> [] \<Longrightarrow> Suc (length (sb_entries (SemanticBackend_evict now b))) = length (sb_entries b)"
  by (auto simp: SemanticBackend_evict_def remove_first_expired_length split: option.splits list.splits)

lemma sb_inv_Store: "sb_inv b \<Longrightarrow> sb_inv (SemanticBackend_Store now v r ttl b)"
  using evict_length [of b now]
  by (cases "sb_entries b = []")
    (auto simp: sb_inv_def SemanticBackend_Store_def Let_def SemanticBackend_evict_def split: option.splits)

interpretation sb_run: invariant_run sb_step sb_inv
  by unfold_locales (auto simp: sb_step_def sb_inv_Store split: prod.splits)

section \<open>The two layers\<close>

definition semantic_fresh :: "SemanticCache \<Rightarrow> time \<Rightarrow> duration \<Rightarrow> time \<Rightarrow> bool" where
  "semantic_fresh s now ttl now' = exact_fresh (sc_exact s) now ttl now'"

lemma sc_exact_Store: "sc_exact (SemanticCache_Store digest emb ctx ords now req resp ttl s) =
    ExactCache_Store digest ords now req resp ttl (sc_exact s)"
  by (simp add: SemanticCache_Store_def Let_def split: sum.splits)

lemma sc_exact_Lookup:
  "sc_exact (snd (SemanticCache_Lookup digest emb qemb ctx now req s)) = snd (ExactCache_Lookup digest now req (sc_exact s))"
  by (auto simp: SemanticCache_Lookup_def Let_def split: prod.splits option.splits sum.splits)

interpretation semantic_cache: request_cache "SemanticCache_Lookup digest emb qemb ctx"
    "SemanticCache_Store digest emb ctx" semantic_fresh
  for digest emb qemb ctx
proof unfold_locales
  fix c now ttl now' req ords resp
  assume "semantic_fresh c now ttl now'"
  then have "fst (ExactCache_Lookup digest now' req (sc_exact (SemanticCache_Store digest emb ctx ords now req resp ttl c))) =
      Some (resp, CacheHitExact)"
    by (simp add: sc_exact_Store exact_lookup_store semantic_fresh_def)
  then show "fst (SemanticCache_Lookup digest emb qemb ctx now' req (SemanticCache_Store digest emb ctx ords now req resp ttl c)) =
      Some (resp, CacheHitExact)"
    by (auto simp: SemanticCache_Lookup_def split: prod.splits)
qed (simp add: semantic_fresh_def sc_exact_Lookup exact_lookup_fresh)

text \<open>
  A semantic hit ignores the model: a response stored for one model is returned, as a
  semantic hit, to a request with the same messages for any other model that misses the exact
  layer, whenever the text has a token and the threshold is at most 1.
\<close>

theorem semantic_hit_ignores_model:
  assumes tok: "tokenize (requestText req 0) \<noteq> []" and thr: "thr \<le> 1"
    and dig: "digest (m2, req_Messages req) \<noteq> digest (req_Model req, req_Messages req)"
  shows "fst (SemanticCache_Lookup digest WordVectorizer_Embed qemb None now' (req\<lparr>req_Model := m2\<rparr>)
      (SemanticCache_Store digest WordVectorizer_Embed None ords now req resp 0
        (NewSemanticCache (NewMemory 0 0) (NewMemorySemanticBackend 0) thr))) = Some (resp, CacheHitSemantic)"
proof -
  let ?text = "requestText req 0"
  have tx: "?text \<noteq> []" using tok by (auto simp: tokenize_def ToLower_def)
  have tx2: "requestText (req\<lparr>req_Model := m2\<rparr>) 0 = ?text" by (simp add: requestText_def)
  obtain v where v: "WordVectorizer_Embed ?text = Inr v" "dotp v v = 1"
    using WordVectorizer_vec [of ?text] tok by auto
  have "cosineSimilarity v v = 1" using cosine_eq [of v v] v(2) by simp
  then have find: "SemanticBackend_Find now' v thr (SemanticBackend_Store now v resp 0 (NewMemorySemanticBackend 0)) = Some resp"
    using thr by (simp add: SemanticBackend_Find_def SemanticBackend_Store_def NewMemorySemanticBackend_def find_step_def)
  have "Key digest (req\<lparr>req_Model := m2\<rparr>) \<noteq> Key digest req" using dig by (simp add: Key_def)
  then have "ExactCache_Lookup digest now' (req\<lparr>req_Model := m2\<rparr>) (ExactCache_Store digest ords now req resp 0 (NewMemory 0 0)) =
      (None, ExactCache_Store digest ords now req resp 0 (NewMemory 0 0))"
    by (simp add: ExactCache_Lookup_def ExactCache_Store_def Memory_Get_def Memory_Set_def NewMemory_def)
  with find v(1) tx tx2 show ?thesis
    by (simp add: SemanticCache_Lookup_def SemanticCache_Store_def NewSemanticCache_def HistoryLenFromContext_def Let_def)
qed

theorem semantic_hit_ignores_model_witness:
  defines "req \<equiv> zero_request\<lparr>req_Model := ''gpt-4o'', req_Messages := [text_message ''user'' ''hi'']\<rparr>"
  shows "fst (SemanticCache_Lookup fst WordVectorizer_Embed (\<lambda>t. Inl (plain_error [])) None 9 (req\<lparr>req_Model := ''o1''\<rparr>)
      (SemanticCache_Store fst WordVectorizer_Embed None ([], []) 5 req zero_response 0
        (NewSemanticCache (NewMemory 0 0) (NewMemorySemanticBackend 0) (92 / 100)))) = Some (zero_response, CacheHitSemantic)"
proof (rule semantic_hit_ignores_model)
  have "requestText req 0 = ''hi''"
    by (simp add: req_def requestText_def text_message_def TrimSpace_def TrimRightIf_def is_space_def)
  then show "tokenize (requestText req 0) \<noteq> []"
    by (simp add: tokenize_def ToLower_def lower_char_def is_token_char_def)
qed (simp_all add: req_def)

text \<open>
  Replaying the journal can make an entry immortal: an entry that is alive when the replay
  starts but whose expiry has passed when its remaining time is computed is stored with no
  expiry at all, because a non-positive time to live means none.
\<close>

theorem semantic_replay_loses_expiry:
  assumes "je_ExpiresAt e = Some x" "now \<le> x" "x \<le> t1"
  shows "ve_expiresAt (last (sb_entries (fst (replay_entry now (t1, t2) (Some e) (b, live))))) = None"
  using assms by (simp add: replay_entry_def SemanticBackend_Store_def Let_def)

theorem semantic_replay_loses_expiry_witness:
  defines "e \<equiv> \<lparr>je_Vec = [1], je_Resp = zero_response, je_ExpiresAt = Some 10\<rparr>"
  shows "ve_expiresAt (last (sb_entries (fst (replay_entry 10 (11, 12) (Some e) (NewMemorySemanticBackend 0, []))))) = None"
  by (rule semantic_replay_loses_expiry [of e 10]) (simp_all add: e_def)

end
