(* ===== verification/SliceSort.thy ===== *)
theory SliceSort
  imports Prelude "HOL-Library.Multiset"
begin

text \<open>
  In-place insertion sort by adjacent swaps. It is the loop \<^verbatim>\<open>escalateCandidates\<close> writes out in
  \<^verbatim>\<open>internal/domain/routing/executor.go\<close>, and what \<^verbatim>\<open>sort.Slice\<close> runs on a slice of at most twelve
  elements, which covers the model catalog. With a comparison by a key it is the stable sort of
  the library, \<open>sort_key\<close>.
\<close>

text \<open>The inner loop: element \<open>j\<close> moves left past every element it is less than.\<close>

fun sink_left :: "('a \<Rightarrow> 'a \<Rightarrow> bool) \<Rightarrow> nat \<Rightarrow> 'a list \<Rightarrow> 'a list" where
  "sink_left lt 0 xs = xs"
| "sink_left lt (Suc j) xs =
     (if lt (xs ! Suc j) (xs ! j) then sink_left lt j (xs[Suc j := xs ! j, j := xs ! Suc j])
      else xs)"

definition insertion_sort :: "('a \<Rightarrow> 'a \<Rightarrow> bool) \<Rightarrow> 'a list \<Rightarrow> 'a list" where
  "insertion_sort lt xs = foldl (\<lambda>xs i. sink_left lt i xs) xs [1..<length xs]"

lemma length_sink_left [simp]: "length (sink_left lt j xs) = length xs"
  by (induction j arbitrary: xs) auto

lemma swap_adjacent:
  assumes "Suc j < length xs"
  shows "xs[Suc j := xs ! j, j := xs ! Suc j] = take j xs @ xs ! Suc j # xs ! j # drop (Suc (Suc j)) xs"
    and "xs = take j xs @ xs ! j # xs ! Suc j # drop (Suc (Suc j)) xs"
proof -
  show dec: "xs = take j xs @ xs ! j # xs ! Suc j # drop (Suc (Suc j)) xs"
    using assms by (metis Cons_nth_drop_Suc Suc_lessD append_take_drop_id)
  have len: "length (take j xs) = j" using assms by simp
  show "xs[Suc j := xs ! j, j := xs ! Suc j] = take j xs @ xs ! Suc j # xs ! j # drop (Suc (Suc j)) xs"
    using assms by (subst (1) dec) (simp add: list_update_append len)
qed

lemma mset_sink_left: "j < length xs \<Longrightarrow> mset (sink_left lt j xs) = mset xs"
proof (induction j arbitrary: xs)
  case (Suc j)
  have "mset (xs[Suc j := xs ! j, j := xs ! Suc j]) = mset xs"
    using swap_adjacent [OF Suc.prems] by (metis (no_types, lifting) add_mset_commute mset.simps(2) mset_append)
  with Suc show ?case by simp
qed simp

lemma set_sink_left: "j < length xs \<Longrightarrow> set (sink_left lt j xs) = set xs"
  by (metis mset_sink_left set_mset_mset)

text \<open>Stability: only elements with different keys change places.\<close>

lemma filter_sink_left:
  fixes f :: "'a \<Rightarrow> 'k::linorder"
  shows "j < length xs \<Longrightarrow>
    filter (\<lambda>x. f x = k) (sink_left (\<lambda>a b. f a < f b) j xs) = filter (\<lambda>x. f x = k) xs"
proof (induction j arbitrary: xs)
  case (Suc j)
  show ?case
  proof (cases "f (xs ! Suc j) < f (xs ! j)")
    case True
    have "filter (\<lambda>x. f x = k) (xs[Suc j := xs ! j, j := xs ! Suc j]) = filter (\<lambda>x. f x = k) xs"
      using True by (subst (2) swap_adjacent(2) [OF Suc.prems]) (auto simp: swap_adjacent(1) [OF Suc.prems])
    with Suc True show ?thesis by simp
  qed simp
qed simp

text \<open>
  Sortedness: while \<open>x\<close> sinks, the elements before it and the elements after it are sorted, and
  \<open>x\<close> is below everything it has passed.
\<close>

lemma sorted_sink_left:
  fixes f :: "'a \<Rightarrow> 'k::linorder"
  assumes "xs = ps @ x # qs @ rest" "length ps = j" "sorted (map f (ps @ qs))" "\<forall>q \<in> set qs. f x < f q"
  shows "\<exists>ys. sink_left (\<lambda>a b. f a < f b) j xs = ys @ rest \<and> length ys = Suc (length ps + length qs) \<and>
    sorted (map f ys)"
  using assms
proof (induction j arbitrary: xs ps qs)
  case 0
  then show ?case by (intro exI [of _ "x # qs"]) (auto intro: less_imp_le)
next
  case (Suc j)
  from Suc.prems(2) obtain ps' p where ps: "ps = ps' @ [p]" "length ps' = j"
    by (metis length_Suc_conv_rev)
  have nth: "xs ! Suc j = x" "xs ! j = p"
    using Suc.prems(1) ps by (simp_all add: nth_append)
  show ?case
  proof (cases "f x < f p")
    case True
    have upd: "xs[Suc j := xs ! j, j := xs ! Suc j] = ps' @ x # (p # qs) @ rest"
      unfolding nth using Suc.prems(1) ps by (simp add: list_update_append)
    have "\<exists>ys. sink_left (\<lambda>a b. f a < f b) j (ps' @ x # (p # qs) @ rest) = ys @ rest \<and>
        length ys = Suc (length ps' + length (p # qs)) \<and> sorted (map f ys)"
      by (rule Suc.IH) (use Suc.prems ps True in \<open>auto simp: sorted_append\<close>)
    then obtain ys where ys: "sink_left (\<lambda>a b. f a < f b) j (ps' @ x # (p # qs) @ rest) = ys @ rest"
      "length ys = Suc (length ps' + length (p # qs))" "sorted (map f ys)" by blast
    have "sink_left (\<lambda>a b. f a < f b) (Suc j) xs = ys @ rest"
      using True upd ys(1) nth by simp
    with ys(2,3) ps show ?thesis by auto
  next
    case False
    then have le: "f p \<le> f x" by simp
    have "sink_left (\<lambda>a b. f a < f b) (Suc j) xs = xs" using False nth by simp
    moreover have "sorted (map f (ps @ x # qs))"
      using Suc.prems(3,4) ps le by (auto simp: sorted_append intro: order_trans less_imp_le)
    ultimately show ?thesis
      using Suc.prems(1) by (intro exI [of _ "ps @ x # qs"]) simp
  qed
qed

lemma sorted_take_sink_left:
  fixes f :: "'a \<Rightarrow> 'k::linorder"
  assumes "i < length xs" "sorted (map f (take i xs))"
  shows "sorted (map f (take (Suc i) (sink_left (\<lambda>a b. f a < f b) i xs)))"
proof -
  have "xs = take i xs @ xs ! i # [] @ drop (Suc i) xs"
    using assms(1) by (simp add: id_take_nth_drop)
  moreover have "length (take i xs) = i" using assms(1) by simp
  ultimately obtain ys where "sink_left (\<lambda>a b. f a < f b) i xs = ys @ drop (Suc i) xs"
    "length ys = Suc i" "sorted (map f ys)"
    using sorted_sink_left [of xs "take i xs" "xs ! i" "[]" "drop (Suc i) xs" i f] assms by auto
  then show ?thesis by simp
qed

definition sort_upto :: "('a \<Rightarrow> 'k::linorder) \<Rightarrow> 'a list \<Rightarrow> nat \<Rightarrow> 'a list" where
  "sort_upto f xs n = foldl (\<lambda>xs i. sink_left (\<lambda>a b. f a < f b) i xs) xs [1..<n]"

lemma insertion_sort_loop:
  "n \<le> length xs \<Longrightarrow> length (sort_upto f xs n) = length xs \<and> mset (sort_upto f xs n) = mset xs \<and>
    sorted (map f (take n (sort_upto f xs n))) \<and>
    (\<forall>k. filter (\<lambda>x. f x = k) (sort_upto f xs n) = filter (\<lambda>x. f x = k) xs)"
proof (induction n)
  case 0
  then show ?case by (simp add: sort_upto_def)
next
  case (Suc n)
  show ?case
  proof (cases "n = 0")
    case True
    then show ?thesis using Suc.prems by (cases xs) (auto simp: sort_upto_def)
  next
    case False
    then have "sort_upto f xs (Suc n) = sink_left (\<lambda>a b. f a < f b) n (sort_upto f xs n)"
      by (simp add: sort_upto_def)
    with Suc show ?thesis
      by (simp add: mset_sink_left filter_sink_left sorted_take_sink_left)
  qed
qed

theorem insertion_sort_eq_sort_key:
  fixes f :: "'a \<Rightarrow> 'k::linorder"
  shows "insertion_sort (\<lambda>a b. f a < f b) xs = sort_key f xs"
proof (rule sym, rule properties_for_sort_key)
  note loop = insertion_sort_loop [of "length xs" xs f]
  show "mset (insertion_sort (\<lambda>a b. f a < f b) xs) = mset xs"
    using loop by (simp add: insertion_sort_def sort_upto_def)
  show "filter (\<lambda>x. f k = f x) (insertion_sort (\<lambda>a b. f a < f b) xs) = filter (\<lambda>x. f k = f x) xs" for k
    using loop by (simp add: insertion_sort_def sort_upto_def eq_commute [of "f k"])
  show "sorted (map f (insertion_sort (\<lambda>a b. f a < f b) xs))"
    using loop by (auto simp: insertion_sort_def sort_upto_def)
qed

end
