(* ===== verification/CircuitBreaker.thy ===== *)
theory CircuitBreaker
  imports Prelude
begin

text \<open>
  The per-model circuit breaker of \<^verbatim>\<open>internal/domain/circuitbreaker\<close> (\<^verbatim>\<open>breaker.go\<close>, \<^verbatim>\<open>policy.go\<close>,
  \<^verbatim>\<open>registry.go\<close>) and the Redis-backed \<^verbatim>\<open>StateStore\<close> of \<^verbatim>\<open>adapters/store/cbstate\<close>.
  A breaker is a record, each method a function on it that takes the value of \<^verbatim>\<open>time.Now()\<close>;
  the methods hold the breaker's mutex, so a concurrent execution is a sequence of them.
  The registry is a map of breakers, seeded on first use from an optional store; its \<^verbatim>\<open>RecordOutcome\<close>
  is not one critical section but three, with those of other goroutines in between.
\<close>

section \<open>Breaker\<close>

text \<open>\<^verbatim>\<open>State\<close> is an integer type: the three named values, and any other integer a store may return.\<close>

datatype State = StateClosed | StateOpen | StateHalfOpen | StateOther int

record Policy =
  SuccessRateThreshold :: float64
  WindowDuration :: duration
  MinRequests :: int
  HalfOpenAfter :: duration
  ProbeCount :: int

definition DefaultPolicy :: Policy where
  "DefaultPolicy = \<lparr>SuccessRateThreshold = 9 / 10, WindowDuration = 2 * Minute,
     MinRequests = 10, HalfOpenAfter = 30 * Second, ProbeCount = 3\<rparr>"

record Breaker =
  br_state :: State
  br_policy :: Policy
  br_windowStart :: time
  br_failures :: int
  br_total :: int
  br_openedAt :: time
  br_probesSent :: int
  br_probesPassed :: int

definition Breaker_New :: "time \<Rightarrow> Policy \<Rightarrow> Breaker" where
  "Breaker_New now p = \<lparr>br_state = StateClosed, br_policy = p, br_windowStart = now,
     br_failures = 0, br_total = 0, br_openedAt = zero_time, br_probesSent = 0, br_probesPassed = 0\<rparr>"

text \<open>The \<^verbatim>\<open>StateHalfOpen\<close> case of \<^verbatim>\<open>Allow\<close>, which the \<^verbatim>\<open>StateOpen\<close> case falls through to.\<close>

definition Breaker_probe :: "Breaker \<Rightarrow> bool \<times> Breaker" where
  "Breaker_probe b =
     (if br_probesSent b < ProbeCount (br_policy b)
      then (True, b\<lparr>br_probesSent := br_probesSent b + 1\<rparr>)
      else (False, b))"

definition Breaker_Allow :: "time \<Rightarrow> Breaker \<Rightarrow> bool \<times> Breaker" where
  "Breaker_Allow now b = (case br_state b of
      StateClosed \<Rightarrow>
        (True, if now - br_windowStart b > WindowDuration (br_policy b)
               then b\<lparr>br_failures := 0, br_total := 0, br_windowStart := now\<rparr> else b)
    | StateOpen \<Rightarrow>
        if now - br_openedAt b < HalfOpenAfter (br_policy b) then (False, b)
        else Breaker_probe (b\<lparr>br_state := StateHalfOpen, br_probesSent := 0, br_probesPassed := 0\<rparr>)
    | StateHalfOpen \<Rightarrow> Breaker_probe b
    | StateOther _ \<Rightarrow> (False, b))"

definition Breaker_RecordSuccess :: "time \<Rightarrow> Breaker \<Rightarrow> Breaker" where
  "Breaker_RecordSuccess now b = (case br_state b of
      StateClosed \<Rightarrow> b\<lparr>br_total := br_total b + 1\<rparr>
    | StateHalfOpen \<Rightarrow>
        (let b = b\<lparr>br_probesPassed := br_probesPassed b + 1\<rparr> in
         if br_probesPassed b \<ge> ProbeCount (br_policy b)
         then b\<lparr>br_state := StateClosed, br_failures := 0, br_total := 0, br_windowStart := now\<rparr>
         else b)
    | _ \<Rightarrow> b)"

definition Breaker_RecordFailure :: "time \<Rightarrow> Breaker \<Rightarrow> Breaker" where
  "Breaker_RecordFailure now b = (case br_state b of
      StateClosed \<Rightarrow>
        (let b = b\<lparr>br_failures := br_failures b + 1, br_total := br_total b + 1\<rparr> in
         if br_total b \<ge> MinRequests (br_policy b) \<and>
            real_of_int (br_total b - br_failures b) / real_of_int (br_total b)
              < SuccessRateThreshold (br_policy b)
         then b\<lparr>br_state := StateOpen, br_openedAt := now\<rparr>
         else b)
    | StateHalfOpen \<Rightarrow> b\<lparr>br_state := StateOpen, br_openedAt := now\<rparr>
    | _ \<Rightarrow> b)"

definition Breaker_setState :: "time \<Rightarrow> State \<Rightarrow> Breaker \<Rightarrow> Breaker" where
  "Breaker_setState now s b =
     (let b = b\<lparr>br_state := s\<rparr> in
      if s = StateOpen then b\<lparr>br_openedAt := now\<rparr> else b)"

section \<open>Registry and state store\<close>

text \<open>
  A \<^verbatim>\<open>StateStore\<close> is seen through its \<^verbatim>\<open>Load\<close>: the state of a model, or \<open>None\<close> when the call
  fails. \<^verbatim>\<open>Save\<close> runs in its own goroutine and its result is dropped, so \<^verbatim>\<open>RecordOutcome\<close>
  returns the saves it starts.
\<close>

record Registry =
  rg_breakers :: "(string, Breaker) gomap"
  rg_policy :: Policy
  rg_store :: "(string \<Rightarrow> State option) option"

definition NewRegistry :: "Policy \<Rightarrow> Registry" where
  "NewRegistry p = \<lparr>rg_breakers = Map.empty, rg_policy = p, rg_store = None\<rparr>"

definition WithStateStore :: "(string \<Rightarrow> State option) \<Rightarrow> Registry \<Rightarrow> Registry" where
  "WithStateStore store r = r\<lparr>rg_store := Some store\<rparr>"

definition Registry_seed :: "time \<Rightarrow> string \<Rightarrow> Registry \<Rightarrow> Breaker" where
  "Registry_seed now model r =
     (case rg_store r of
        None \<Rightarrow> Breaker_New now (rg_policy r)
      | Some load \<Rightarrow>
          (case load model of
             None \<Rightarrow> Breaker_New now (rg_policy r)
           | Some s \<Rightarrow> Breaker_setState now s (Breaker_New now (rg_policy r))))"

definition Registry_get :: "time \<Rightarrow> string \<Rightarrow> Registry \<Rightarrow> Breaker \<times> Registry" where
  "Registry_get now model r =
     (case rg_breakers r model of
        Some b \<Rightarrow> (b, r)
      | None \<Rightarrow>
          (let b = Registry_seed now model r in
           (b, r\<lparr>rg_breakers := (rg_breakers r)(model \<mapsto> b)\<rparr>)))"

text \<open>\<^verbatim>\<open>get\<close> returns a pointer into the map: what a method does to the breaker is seen there.\<close>

definition Registry_IsAllowed :: "time \<Rightarrow> string \<Rightarrow> Registry \<Rightarrow> bool \<times> Registry" where
  "Registry_IsAllowed now model r =
     (let (b, r) = Registry_get now model r; (ok, b) = Breaker_Allow now b in
      (ok, r\<lparr>rg_breakers := (rg_breakers r)(model \<mapsto> b)\<rparr>))"

text \<open>
  \<^verbatim>\<open>RecordOutcome\<close> takes the breaker's lock three times: to read the state, to record, and to read the
  state again. Between two of them other goroutines may run critical sections of their own:
  fetching a breaker, \<^verbatim>\<open>Allow\<close>, \<^verbatim>\<open>RecordSuccess\<close> or \<^verbatim>\<open>RecordFailure\<close>, on this model or on others
  (reading a state changes nothing). \<open>cs\<close> are those that fall between the first read and the
  recording, \<open>cs'\<close> those between the recording and the second read.
\<close>

datatype breaker_call = Fetched time | Allowed time | Recorded time bool

fun call_time :: "breaker_call \<Rightarrow> time" where
  "call_time (Fetched t) = t"
| "call_time (Allowed t) = t"
| "call_time (Recorded t ok) = t"

fun breaker_act :: "breaker_call \<Rightarrow> Breaker \<Rightarrow> Breaker" where
  "breaker_act (Fetched t) b = b"
| "breaker_act (Allowed t) b = snd (Breaker_Allow t b)"
| "breaker_act (Recorded t ok) b = (if ok then Breaker_RecordSuccess t b else Breaker_RecordFailure t b)"

definition registry_act :: "Registry \<Rightarrow> string \<times> breaker_call \<Rightarrow> Registry" where
  "registry_act r mc = (case mc of (model, c) \<Rightarrow>
     (case Registry_get (call_time c) model r of (b, r) \<Rightarrow>
        r\<lparr>rg_breakers := (rg_breakers r)(model \<mapsto> breaker_act c b)\<rparr>))"

definition RecordOutcome_among :: "(string \<times> breaker_call) list \<Rightarrow> (string \<times> breaker_call) list \<Rightarrow>
    time \<Rightarrow> string \<Rightarrow> bool \<Rightarrow> Registry \<Rightarrow> (string \<times> State) list \<times> Registry" where
  "RecordOutcome_among cs cs' now model success r =
     (let (b, r) = Registry_get now model r;
          before = br_state b;
          r = foldl registry_act r cs;
          r = registry_act r (model, Recorded now success);
          r = foldl registry_act r cs'
      in if rg_store r = None then ([], r)
         else (let after = br_state (fst (Registry_get now model r)) in
               if after = before then ([], r) else ([(model, after)], r)))"

text \<open>The call with nothing in between, as a request handled on its own makes it.\<close>

definition Registry_RecordOutcome ::
    "time \<Rightarrow> string \<Rightarrow> bool \<Rightarrow> Registry \<Rightarrow> (string \<times> State) list \<times> Registry" where
  "Registry_RecordOutcome = RecordOutcome_among [] []"

text \<open>
  The Redis store: \<^verbatim>\<open>client.Get\<close> and \<^verbatim>\<open>client.Set\<close> of the third-party client are the read function
  (\<open>None\<close> when the call fails) and the write request (key, value as the decimal the client
  sends, expiry).
\<close>

definition State_of_int :: "int \<Rightarrow> State" where
  "State_of_int n = (if n = 0 then StateClosed else if n = 1 then StateOpen
     else if n = 2 then StateHalfOpen else StateOther n)"

fun int_of_State :: "State \<Rightarrow> int" where
  "int_of_State StateClosed = 0"
| "int_of_State StateOpen = 1"
| "int_of_State StateHalfOpen = 2"
| "int_of_State (StateOther n) = n"

definition cbstate_keyPrefix :: string where
  "cbstate_keyPrefix = ''cbstate:''"

definition cbstate_Save :: "duration \<Rightarrow> string \<Rightarrow> State \<Rightarrow> string \<times> string \<times> duration" where
  "cbstate_Save ttl model s =
     (cbstate_keyPrefix @ model, Itoa (int_of_State s), if ttl < 0 then 0 else ttl)"

definition cbstate_Load :: "(string \<Rightarrow> string option) \<Rightarrow> string \<Rightarrow> State option" where
  "cbstate_Load get model =
     (case get (cbstate_keyPrefix @ model) of
        None \<Rightarrow> None
      | Some val \<Rightarrow> (case Atoi val of None \<Rightarrow> None | Some n \<Rightarrow> Some (State_of_int n)))"

section \<open>State machine\<close>

text \<open>The operations a breaker sees, each at the time it runs, and the states they lead to.\<close>

datatype cb_op = OpAllow | OpSuccess | OpFailure

fun Breaker_op :: "Breaker \<Rightarrow> time \<times> cb_op \<Rightarrow> Breaker" where
  "Breaker_op b (now, OpAllow) = snd (Breaker_Allow now b)"
| "Breaker_op b (now, OpSuccess) = Breaker_RecordSuccess now b"
| "Breaker_op b (now, OpFailure) = Breaker_RecordFailure now b"

inductive cb_reachable :: "Policy \<Rightarrow> Breaker \<Rightarrow> bool" for p where
  new: "cb_reachable p (Breaker_New now p)"
| seeded: "cb_reachable p (Breaker_setState now s (Breaker_New now p))"
| step: "cb_reachable p b \<Longrightarrow> cb_reachable p (Breaker_op b op)"

text \<open>The documented graph: closed, open, half-open, and back to closed or open.\<close>

inductive cb_edge :: "State \<Rightarrow> cb_op \<Rightarrow> State \<Rightarrow> bool" where
  trip: "cb_edge StateClosed OpFailure StateOpen"
| try_again: "cb_edge StateOpen OpAllow StateHalfOpen"
| recover: "cb_edge StateHalfOpen OpSuccess StateClosed"
| relapse: "cb_edge StateHalfOpen OpFailure StateOpen"

inductive_cases cb_edge_from_Other [elim!]: "cb_edge (StateOther n) op s"
inductive_simps cb_edge_simps [simp]: "cb_edge s op s'"

fun Breaker_Allow_run :: "time list \<Rightarrow> Breaker \<Rightarrow> bool list \<times> Breaker" where
  "Breaker_Allow_run [] b = ([], b)"
| "Breaker_Allow_run (now # ts) b =
     (let (ok, b) = Breaker_Allow now b; (oks, b) = Breaker_Allow_run ts b in (ok # oks, b))"

definition Breaker_record :: "Breaker \<Rightarrow> time \<times> bool \<Rightarrow> Breaker" where
  "Breaker_record b o' = (if snd o' then Breaker_RecordSuccess (fst o') b
     else Breaker_RecordFailure (fst o') b)"

text \<open>
  Reference condition for a trip over the outcomes of one window: some failure, after at least
  \<^verbatim>\<open>MinRequests\<close> outcomes, at which the share of successes is below the threshold.
\<close>

definition trips :: "Policy \<Rightarrow> bool list \<Rightarrow> bool" where
  "trips p outs \<longleftrightarrow> (\<exists>k < length outs. \<not> outs ! k \<and> MinRequests p \<le> int (Suc k) \<and>
     real (length (filter id (take (Suc k) outs))) / real (Suc k) < SuccessRateThreshold p)"

definition cb_inv :: "Breaker \<Rightarrow> bool" where
  "cb_inv b \<longleftrightarrow> 0 \<le> br_failures b \<and> br_failures b \<le> br_total b \<and>
     0 \<le> br_probesSent b \<and> br_probesSent b \<le> max 0 (ProbeCount (br_policy b)) \<and>
     0 \<le> br_probesPassed b \<and>
     (br_state b = StateHalfOpen \<longrightarrow>
        br_probesPassed b = 0 \<or> br_probesPassed b < ProbeCount (br_policy b))"

named_theorems breaker_defs "the breaker's operations, unfolded together"

lemmas [breaker_defs] = Breaker_New_def Breaker_setState_def Breaker_probe_def Breaker_Allow_def
  Breaker_RecordSuccess_def Breaker_RecordFailure_def Let_def

lemma cb_inv_New: "cb_inv (Breaker_New now p)"
  by (simp add: cb_inv_def breaker_defs)

lemma cb_inv_setState: "cb_inv (Breaker_setState now s (Breaker_New now p))"
  by (simp add: cb_inv_def breaker_defs)

lemma cb_inv_Allow: "cb_inv b \<Longrightarrow> cb_inv (snd (Breaker_Allow now b))"
  by (cases "br_state b") (auto simp: cb_inv_def breaker_defs)

lemma cb_inv_RecordSuccess: "cb_inv b \<Longrightarrow> cb_inv (Breaker_RecordSuccess now b)"
  by (cases "br_state b") (auto simp: cb_inv_def breaker_defs)

lemma cb_inv_RecordFailure: "cb_inv b \<Longrightarrow> cb_inv (Breaker_RecordFailure now b)"
  by (cases "br_state b") (auto simp: cb_inv_def breaker_defs)

lemmas cb_inv_ops = cb_inv_Allow cb_inv_RecordSuccess cb_inv_RecordFailure

lemma cb_inv_op: "cb_inv b \<Longrightarrow> cb_inv (Breaker_op b op)"
  by (cases "(b, op)" rule: Breaker_op.cases) (auto intro: cb_inv_ops)

interpretation cb_run: invariant_run Breaker_op cb_inv
  by unfold_locales (rule cb_inv_op)

lemma policy_op [simp]: "br_policy (Breaker_op b op) = br_policy b"
  by (cases "(b, op)" rule: Breaker_op.cases) (auto simp: breaker_defs split: State.splits)

lemma reachable_policy: "cb_reachable p b \<Longrightarrow> br_policy b = p"
  by (induction rule: cb_reachable.induct) (auto simp: breaker_defs)

lemma reachable_inv: "cb_reachable p b \<Longrightarrow> cb_inv b"
  by (induction rule: cb_reachable.induct) (auto intro: cb_inv_op cb_inv_New cb_inv_setState)

section \<open>Tripping\<close>

lemma record_Open: "br_state b = StateOpen \<Longrightarrow> Breaker_record b o' = b"
  by (simp add: Breaker_record_def breaker_defs)

text \<open>While no prefix has tripped, the counters are the outcome counts of the window.\<close>

lemma trips_snoc:
  "trips p (outs @ [ok]) \<longleftrightarrow> trips p outs \<or>
     (\<not> ok \<and> MinRequests p \<le> int (Suc (length outs)) \<and>
      real (length (filter id outs)) / real (Suc (length outs)) < SuccessRateThreshold p)"
proof -
  let ?Q = "\<lambda>outs k. \<not> outs ! k \<and> MinRequests p \<le> int (Suc k) \<and>
     real (length (filter id (take (Suc k) outs))) / real (Suc k) < SuccessRateThreshold p"
  have eq: "?Q (outs @ [ok]) k = ?Q outs k" if "k < length outs" for k
    using that by (simp add: nth_append)
  have "(\<exists>k < Suc (length outs). ?Q (outs @ [ok]) k) \<longleftrightarrow>
      (\<exists>k < length outs. ?Q outs k) \<or> ?Q (outs @ [ok]) (length outs)"
    using eq by (metis less_Suc_eq)
  then show ?thesis
    unfolding trips_def by (cases ok) simp_all
qed

lemma record_window:
  fixes p :: Policy and now :: time
  defines "run \<equiv> foldl Breaker_record (Breaker_New now p)"
  shows "if trips p (map snd outs) then br_state (run outs) = StateOpen
     else br_state (run outs) = StateClosed \<and> br_policy (run outs) = p \<and>
       br_total (run outs) = int (length outs) \<and>
       br_total (run outs) - br_failures (run outs) = int (length (filter snd outs))"
proof (induction outs rule: rev_induct)
  case Nil
  then show ?case by (simp add: run_def trips_def breaker_defs)
next
  case (snoc o' outs)
  have run: "run (outs @ [o']) = Breaker_record (run outs) o'" by (simp add: run_def)
  have len: "length (filter id (map snd outs)) = length (filter snd outs)"
    by (simp add: filter_map comp_def)
  show ?case
  proof (cases "trips p (map snd outs)")
    case True
    with snoc show ?thesis by (simp add: run trips_snoc record_Open)
  next
    case False
    with snoc have st: "br_state (run outs) = StateClosed" "br_policy (run outs) = p"
      "br_total (run outs) = int (length outs)"
      "br_failures (run outs) = int (length outs) - int (length (filter snd outs))"
      by auto
    show ?thesis
      using False st by (auto simp: run trips_snoc len Breaker_record_def breaker_defs add.commute)
  qed
qed

text \<open>
  C1. Within one window a breaker trips exactly when some failure finds at least
  \<^verbatim>\<open>MinRequests\<close> recorded outcomes with a success rate below \<^verbatim>\<open>SuccessRateThreshold\<close>: recording any
  sequence of outcomes on a new breaker leaves it open iff the reference condition holds, and
  closed otherwise.
\<close>

theorem breaker_trip_spec:
  "br_state (foldl Breaker_record (Breaker_New now p) outs) =
     (if trips p (map snd outs) then StateOpen else StateClosed)"
  using record_window [of p outs now] by (auto split: if_splits)

section \<open>Probing\<close>

definition probes_left :: "Breaker \<Rightarrow> int" where
  "probes_left b = (case br_state b of
      StateOpen \<Rightarrow> max 0 (ProbeCount (br_policy b))
    | StateHalfOpen \<Rightarrow> max 0 (ProbeCount (br_policy b) - br_probesSent b)
    | _ \<Rightarrow> 0)"

lemma Allow_probes_left:
  assumes "br_state b \<noteq> StateClosed"
  shows "br_state (snd (Breaker_Allow now b)) \<noteq> StateClosed"
    and "(if fst (Breaker_Allow now b) then 1 else 0) + probes_left (snd (Breaker_Allow now b))
      \<le> probes_left b"
  using assms by (auto simp: probes_left_def breaker_defs split: State.splits)

lemma Allow_run_probes_left:
  "br_state b \<noteq> StateClosed \<Longrightarrow>
   int (length (filter id (fst (Breaker_Allow_run ts b)))) \<le> probes_left b"
proof (induction ts arbitrary: b)
  case Nil
  then show ?case by (auto simp: probes_left_def split: State.splits)
next
  case (Cons t ts)
  obtain ok b' where al: "Breaker_Allow t b = (ok, b')" by fastforce
  with Allow_probes_left [OF Cons.prems, of t] Cons.IH [of b'] show ?case
    by (auto simp: case_prod_beta Let_def split: if_splits)
qed

text \<open>
  C9. A tripped breaker lets at most \<^verbatim>\<open>ProbeCount\<close> requests through, however many ask and
  whenever they ask, as long as no outcome is recorded; and none at all before
  \<^verbatim>\<open>HalfOpenAfter\<close> has passed since it opened.
\<close>

theorem breaker_probe_bound:
  assumes "br_state b = StateOpen"
  shows "int (length (filter id (fst (Breaker_Allow_run ts b)))) \<le> max 0 (ProbeCount (br_policy b))
    \<and> (now - br_openedAt b < HalfOpenAfter (br_policy b) \<longrightarrow> Breaker_Allow now b = (False, b))"
  using Allow_run_probes_left [of b ts] assms by (simp add: probes_left_def Breaker_Allow_def)

theorem breaker_probe_bound_witness:
  defines "b \<equiv> Breaker_setState 0 StateOpen (Breaker_New 0 DefaultPolicy)"
  shows "fst (Breaker_Allow_run [1, 30 * Second, 40 * Second] b) = [False, True, True]
    \<and> int (length (filter id (fst (Breaker_Allow_run (replicate 9 (31 * Second)) b)))) \<le> 3"
proof -
  have b: "br_state b = StateOpen" "max 0 (ProbeCount (br_policy b)) = 3"
    by (simp_all add: b_def breaker_defs DefaultPolicy_def)
  have "fst (Breaker_Allow_run [1, 30 * Second, 40 * Second] b) = [False, True, True]"
    unfolding b_def by code_simp
  with breaker_probe_bound [OF b(1), of "replicate 9 (31 * Second)" 0] show ?thesis
    unfolding b(2) by blast
qed

text \<open>Recovery: the probes all pass, and their successes close the breaker.\<close>

lemma HalfOpen_Allow_run:
  "br_state b = StateHalfOpen \<Longrightarrow> br_probesSent b + int (length ts) \<le> ProbeCount (br_policy b) \<Longrightarrow>
   Breaker_Allow_run ts b =
     (replicate (length ts) True, b\<lparr>br_probesSent := br_probesSent b + int (length ts)\<rparr>)"
  by (induction ts arbitrary: b) (auto simp: breaker_defs)

lemma HalfOpen_successes:
  "br_state b = StateHalfOpen \<Longrightarrow> br_probesPassed b + int (length ts) < ProbeCount (br_policy b) \<Longrightarrow>
   foldl (\<lambda>b t. Breaker_RecordSuccess t b) b ts =
     b\<lparr>br_probesPassed := br_probesPassed b + int (length ts)\<rparr>"
  by (induction ts arbitrary: b) (auto simp: breaker_defs)

text \<open>
  C27. A tripped breaker recovers: once \<^verbatim>\<open>HalfOpenAfter\<close> has passed, the next \<^verbatim>\<open>ProbeCount\<close> requests
  are all admitted, and when they all succeed the breaker is closed again with an empty window
  that starts at the last success.
\<close>

theorem breaker_recovers:
  assumes tripped: "br_state b = StateOpen"
    and cool: "HalfOpenAfter (br_policy b) \<le> t - br_openedAt b"
    and probes: "int (Suc (length ts)) = ProbeCount (br_policy b)"
    and dones: "int (Suc (length ds)) = ProbeCount (br_policy b)"
  shows "\<exists>b'. Breaker_Allow_run (t # ts) b = (replicate (Suc (length ts)) True, b') \<and>
    foldl (\<lambda>b t. Breaker_RecordSuccess t b) b' (ds @ [d]) =
      b'\<lparr>br_state := StateClosed, br_failures := 0, br_total := 0, br_windowStart := d,
         br_probesPassed := ProbeCount (br_policy b)\<rparr>"
proof -
  let ?h = "b\<lparr>br_state := StateHalfOpen, br_probesSent := 1, br_probesPassed := 0\<rparr>"
  let ?b' = "?h\<lparr>br_probesSent := 1 + int (length ts)\<rparr>"
  have "Breaker_Allow t b = (True, ?h)"
    using tripped cool probes by (simp add: breaker_defs)
  then have 1: "Breaker_Allow_run (t # ts) b = (replicate (Suc (length ts)) True, ?b')"
    using HalfOpen_Allow_run [of ?h ts] probes by simp
  have "foldl (\<lambda>b t. Breaker_RecordSuccess t b) ?b' ds = ?b'\<lparr>br_probesPassed := int (length ds)\<rparr>"
    using HalfOpen_successes [of ?b' ds] dones by simp
  then have "foldl (\<lambda>b t. Breaker_RecordSuccess t b) ?b' (ds @ [d]) =
      ?b'\<lparr>br_state := StateClosed, br_failures := 0, br_total := 0, br_windowStart := d,
         br_probesPassed := ProbeCount (br_policy b)\<rparr>"
    using dones by (simp add: breaker_defs)
  with 1 show ?thesis by blast
qed

theorem breaker_recovers_witness:
  defines "b \<equiv> Breaker_setState 0 StateOpen (Breaker_New 0 DefaultPolicy)"
  shows "\<exists>b'. Breaker_Allow_run [30 * Second, 31 * Second, 32 * Second] b = ([True, True, True], b') \<and>
    br_state (foldl (\<lambda>b t. Breaker_RecordSuccess t b) b' [33, 34, 35]) = StateClosed"
proof -
  have "br_state b = StateOpen" "HalfOpenAfter (br_policy b) \<le> 30 * Second - br_openedAt b"
    "int (Suc (length [31 * Second, 32 * Second])) = ProbeCount (br_policy b)"
    "int (Suc (length [33, 34 :: time])) = ProbeCount (br_policy b)"
    by (simp_all add: b_def breaker_defs DefaultPolicy_def)
  from breaker_recovers [OF this, of 35] obtain b' where
    "Breaker_Allow_run [30 * Second, 31 * Second, 32 * Second] b =
       (replicate (Suc (length [31 * Second, 32 * Second])) True, b')"
    "br_state (foldl (\<lambda>b t. Breaker_RecordSuccess t b) b' ([33, 34] @ [35])) = StateClosed"
    by fastforce
  then show ?thesis by auto
qed

section \<open>Invariant and graph\<close>

lemma op_edge:
  "br_state (Breaker_op b (now, op)) = br_state b \<or>
   cb_edge (br_state b) op (br_state (Breaker_op b (now, op)))"
  by (cases op; cases "br_state b") (auto simp: breaker_defs)

text \<open>
  C11. Every breaker a registry can hold, after any operations at any times, has consistent
  counters (failures within the total, probes sent within \<^verbatim>\<open>ProbeCount\<close>, fewer successful probes
  than would close it while half-open), keeps its policy, and the next operation changes the
  state only along the documented graph: a failure trips a closed breaker, \<^verbatim>\<open>Allow\<close> moves an open
  one to half-open, a success may close a half-open one and a failure reopens it.
\<close>

theorem breaker_reachable_ok:
  assumes "cb_reachable p b"
  shows "br_policy b = p \<and> 0 \<le> br_failures b \<and> br_failures b \<le> br_total b \<and>
    0 \<le> br_probesSent b \<and> br_probesSent b \<le> max 0 (ProbeCount p) \<and>
    (br_state b = StateHalfOpen \<and> 0 < ProbeCount p \<longrightarrow> br_probesPassed b < ProbeCount p) \<and>
    (br_state (Breaker_op b (now, op)) = br_state b \<or>
     cb_edge (br_state b) op (br_state (Breaker_op b (now, op))))"
  using reachable_policy [OF assms] reachable_inv [OF assms] op_edge [of b now op]
  by (auto simp: cb_inv_def)

theorem breaker_reachable_ok_witness:
  "\<exists>b. cb_reachable DefaultPolicy b \<and> br_state b = StateHalfOpen \<and> br_probesPassed b < 3"
proof -
  let ?b = "Breaker_op (Breaker_setState 0 StateOpen (Breaker_New 0 DefaultPolicy)) (30 * Second, OpAllow)"
  have r: "cb_reachable DefaultPolicy ?b" by (intro cb_reachable.intros)
  moreover have "br_state ?b = StateHalfOpen"
    by (simp add: breaker_defs DefaultPolicy_def)
  ultimately show ?thesis
    using breaker_reachable_ok [OF r, of 0 OpAllow] by (auto simp: DefaultPolicy_def)
qed

text \<open>
  A half-open breaker whose \<^verbatim>\<open>ProbeCount\<close> probes were admitted and never reported rejects
  every later request, at any time, and stays as it is: no clock leads out of the half-open
  state, only a recorded outcome does.
\<close>

theorem half_open_rejects_until_reported:
  assumes "br_state b = StateHalfOpen" "ProbeCount (br_policy b) \<le> br_probesSent b"
  shows "Breaker_Allow_run ts b = (replicate (length ts) False, b)"
  using assms by (induction ts) (auto simp: breaker_defs)

theorem half_open_rejects_until_reported_witness:
  defines "b \<equiv> snd (Breaker_Allow_run (replicate 3 (30 * Second))
      (Breaker_setState 0 StateOpen (Breaker_New 0 DefaultPolicy)))"
  shows "Breaker_Allow_run [60 * Minute, 6000 * Minute] b = ([False, False], b)"
proof -
  have "br_state b = StateHalfOpen" "ProbeCount (br_policy b) \<le> br_probesSent b"
    unfolding b_def by code_simp+
  from half_open_rejects_until_reported [OF this, of "[60 * Minute, 6000 * Minute]"]
  show ?thesis by simp
qed

section \<open>Registry\<close>

text \<open>
  The abstract registry is a total function from models to breakers: a model not seen yet has
  the breaker \<^verbatim>\<open>get\<close> would create for it.
\<close>

definition Registry_view :: "time \<Rightarrow> Registry \<Rightarrow> string \<Rightarrow> Breaker" where
  "Registry_view now r model = fst (Registry_get now model r)"

lemma Registry_view_upd:
  "Registry_view now (r\<lparr>rg_breakers := (rg_breakers r)(m \<mapsto> b)\<rparr>) = (Registry_view now r)(m := b)"
  by (auto simp: Registry_view_def Registry_get_def Registry_seed_def fun_eq_iff Let_def
      split: option.splits)

lemma Registry_get_upd:
  "(snd (Registry_get now m r))\<lparr>rg_breakers := (rg_breakers (snd (Registry_get now m r)))(m \<mapsto> b)\<rparr> =
     r\<lparr>rg_breakers := (rg_breakers r)(m \<mapsto> b)\<rparr>"
  by (auto simp: Registry_get_def Let_def split: option.splits)

lemma IsAllowed_eq:
  "Registry_IsAllowed now m r =
     (fst (Breaker_Allow now (Registry_view now r m)),
      r\<lparr>rg_breakers := (rg_breakers r)(m \<mapsto> snd (Breaker_Allow now (Registry_view now r m)))\<rparr>)"
  using Registry_get_upd [of now m r]
  by (simp add: Registry_IsAllowed_def Registry_view_def case_prod_beta Let_def)

lemma rg_store_get [simp]: "rg_store (snd (Registry_get now m r)) = rg_store r"
  by (simp add: Registry_get_def Let_def split: option.splits)

lemma rg_store_act [simp]: "rg_store (registry_act r mc) = rg_store r"
  by (simp add: registry_act_def case_prod_beta)

lemma rg_store_acts [simp]: "rg_store (foldl registry_act r cs) = rg_store r"
  by (induction cs arbitrary: r) simp_all

lemma registry_act_eq:
  "registry_act r (m, c) = r\<lparr>rg_breakers := (rg_breakers r)(m \<mapsto> breaker_act c (Registry_view (call_time c) r m))\<rparr>"
  using Registry_get_upd [of "call_time c" m r]
  by (simp add: registry_act_def Registry_view_def case_prod_beta)

lemma view_seen: "rg_breakers r m = Some b \<Longrightarrow> Registry_view now r m = b"
  by (simp add: Registry_view_def Registry_get_def)

text \<open>The state a breaker is created in does not depend on when it is created.\<close>

lemma view_state: "br_state (Registry_view t r m) = br_state (Registry_view t' r m)"
  by (simp add: Registry_view_def Registry_get_def Registry_seed_def breaker_defs Let_def split: option.splits)

text \<open>The sections that concern one model, in order.\<close>

definition calls_on :: "string \<Rightarrow> (string \<times> breaker_call) list \<Rightarrow> breaker_call list" where
  "calls_on m cs = map snd (filter (\<lambda>mc. fst mc = m) cs)"

lemma acts_on_seen:
  "rg_breakers r m = Some b \<Longrightarrow>
     rg_breakers (foldl registry_act r cs) m = Some (fold breaker_act (calls_on m cs) b)"
proof (induction cs arbitrary: r b)
  case (Cons mc cs)
  obtain m' c where mc: "mc = (m', c)" by fastforce
  have "rg_breakers (registry_act r mc) m = Some (if m' = m then breaker_act c b else b)"
    using Cons.prems view_seen [OF Cons.prems] by (auto simp: mc registry_act_eq)
  from Cons.IH [OF this] show ?case by (simp add: mc calls_on_def)
qed (simp add: calls_on_def)

lemma acts_elsewhere: "m \<notin> fst ` set cs \<Longrightarrow> rg_breakers (foldl registry_act r cs) m = rg_breakers r m"
  by (induction cs arbitrary: r) (auto simp: registry_act_eq)

lemma get_seen: "rg_breakers (snd (Registry_get now m r)) m = Some (Registry_view now r m)"
  by (simp add: Registry_view_def Registry_get_def Let_def split: option.splits)

lemma get_elsewhere: "m' \<noteq> m \<Longrightarrow> rg_breakers (snd (Registry_get now m r)) m' = rg_breakers r m'"
  by (simp add: Registry_get_def Let_def split: option.splits)

lemma RecordOutcome_eq:
  "Registry_RecordOutcome now m ok r =
     (let b = Registry_view now r m; b' = Breaker_record b (now, ok) in
      (if rg_store r = None \<or> br_state b' = br_state b then [] else [(m, br_state b')],
       r\<lparr>rg_breakers := (rg_breakers r)(m \<mapsto> b')\<rparr>))"
  using Registry_get_upd [of now m r] view_seen [OF get_seen, of now now m r]
  by (simp add: Registry_RecordOutcome_def RecordOutcome_among_def Breaker_record_def registry_act_eq case_prod_beta Let_def
      Registry_view_upd flip: Registry_view_def)

text \<open>
  What \<^verbatim>\<open>RecordOutcome\<close> does among the critical sections of other goroutines: the model's breaker has
  gone through the sections on it in their order, the recording at its place.
\<close>

lemma among_run:
  "snd (RecordOutcome_among cs cs' now m ok r) =
     foldl registry_act (registry_act (foldl registry_act (snd (Registry_get now m r)) cs) (m, Recorded now ok)) cs'"
  by (simp add: RecordOutcome_among_def case_prod_beta Let_def)

lemma among_breaker:
  "rg_breakers (snd (RecordOutcome_among cs cs' now m ok r)) m =
     Some (fold breaker_act (calls_on m cs @ Recorded now ok # calls_on m cs') (Registry_view now r m))"
proof -
  let ?r = "registry_act (foldl registry_act (snd (Registry_get now m r)) cs) (m, Recorded now ok)"
  have "rg_breakers (foldl registry_act (snd (Registry_get now m r)) cs) m =
      Some (fold breaker_act (calls_on m cs) (Registry_view now r m))"
    by (rule acts_on_seen [OF get_seen])
  then have "rg_breakers ?r m = Some (fold breaker_act (calls_on m cs @ [Recorded now ok]) (Registry_view now r m))"
    by (simp add: registry_act_eq view_seen)
  from acts_on_seen [OF this, of cs'] show ?thesis unfolding among_run by simp
qed

lemma among_saves:
  "fst (RecordOutcome_among cs cs' now m ok r) =
     (let after = br_state (fold breaker_act (calls_on m cs @ Recorded now ok # calls_on m cs') (Registry_view now r m)) in
      if rg_store r = None \<or> after = br_state (Registry_view now r m) then [] else [(m, after)])"
proof -
  let ?r = "snd (RecordOutcome_among cs cs' now m ok r)"
  have "fst (RecordOutcome_among cs cs' now m ok r) =
      (if rg_store r = None \<or> br_state (fst (Registry_get now m ?r)) = br_state (Registry_view now r m) then []
       else [(m, br_state (fst (Registry_get now m ?r)))])"
    unfolding among_run by (simp add: RecordOutcome_among_def Registry_view_def case_prod_beta Let_def)
  moreover have "fst (Registry_get now m ?r) =
      fold breaker_act (calls_on m cs @ Recorded now ok # calls_on m cs') (Registry_view now r m)"
    using view_seen [OF among_breaker, of now cs cs' now m ok r] by (simp add: Registry_view_def)
  ultimately show ?thesis by (simp add: Let_def)
qed

lemma among_elsewhere:
  assumes "m' \<noteq> m" "m' \<notin> fst ` set (cs @ cs')"
  shows "rg_breakers (snd (RecordOutcome_among cs cs' now m ok r)) m' = rg_breakers r m'"
proof -
  have "m' \<notin> fst ` set cs" "m' \<notin> fst ` set cs'" using assms(2) by auto
  then show ?thesis
    unfolding among_run using assms(1) by (simp add: acts_elsewhere registry_act_eq get_elsewhere del: breaker_act.simps)
qed

text \<open>
  C33. The registry implements one independent breaker per model. Asking for, or recording the
  outcome of, a model acts on that model's breaker alone. When other goroutines run between the
  three critical sections of \<^verbatim>\<open>RecordOutcome\<close>, the breaker is the one that went through their sections
  on the model and the recording, in that order, and breakers of models nobody touched keep their
  value. What is published to a shared store is the state the breaker has at the second read,
  exactly when a store is configured and that state differs from the one at the first read; when
  nothing runs in between, it is only ever open or closed.
\<close>

theorem registry_refines_breakers:
  fixes cs cs' :: "(string \<times> breaker_call) list" and now :: time and m :: string and ok :: bool and r :: Registry
  defines "b \<equiv> Registry_view now r m"
  defines "b' \<equiv> fold breaker_act (calls_on m cs @ Recorded now ok # calls_on m cs') b"
  defines "run \<equiv> RecordOutcome_among cs cs' now m ok r"
  shows "fst (Registry_IsAllowed now m r) = fst (Breaker_Allow now b) \<and>
   Registry_view now (snd (Registry_IsAllowed now m r)) = (Registry_view now r)(m := snd (Breaker_Allow now b)) \<and>
   Registry_view now (snd (Registry_RecordOutcome now m ok r)) = (Registry_view now r)(m := Breaker_record b (now, ok)) \<and>
   set (fst (Registry_RecordOutcome now m ok r)) \<subseteq> {(m, StateOpen), (m, StateClosed)} \<and>
   rg_breakers (snd run) m = Some b' \<and>
   {m'. rg_breakers (snd run) m' \<noteq> rg_breakers r m'} \<subseteq> insert m (fst ` set (cs @ cs')) \<and>
   fst run = (if rg_store r = None \<or> br_state b' = br_state b then [] else [(m, br_state b')])"
proof -
  have "set (fst (Registry_RecordOutcome now m ok r)) \<subseteq> {(m, StateOpen), (m, StateClosed)}"
    by (auto simp: RecordOutcome_eq Let_def Breaker_record_def breaker_defs split: State.splits)
  moreover have "Registry_view now (snd (Registry_RecordOutcome now m ok r)) = (Registry_view now r)(m := Breaker_record b (now, ok))"
    by (simp add: RecordOutcome_eq Registry_view_upd Let_def b_def)
  moreover have "{m'. rg_breakers (snd run) m' \<noteq> rg_breakers r m'} \<subseteq> insert m (fst ` set (cs @ cs'))"
    using among_elsewhere unfolding run_def by blast
  ultimately show ?thesis
    by (simp add: IsAllowed_eq Registry_view_upd b_def b'_def run_def among_breaker among_saves Let_def)
qed

text \<open>
  Two consequences of not holding the lock. A request that asks for the model between the
  recording of a failed probe and the second read may move the breaker on to half-open: if that is
  where the first read found it, the trip is not published. And if the first read found it closed,
  half-open is published, which no recording on its own ever gives.
\<close>

lemma concurrent_probe_hides_trip:
  assumes "br_state (Registry_view now r m) = StateHalfOpen" "HalfOpenAfter (br_policy (Registry_view now r m)) \<le> t - now"
  shows "fst (RecordOutcome_among [] [(m, Allowed t)] now m False r) = []"
  using assms by (simp add: among_saves calls_on_def Let_def breaker_defs)

lemma concurrent_probe_published:
  "fst (RecordOutcome_among [] [(''gpt-4o'', Allowed (30 * Second))] 0 ''gpt-4o'' False
      (WithStateStore (cbstate_Load Map.empty) (NewRegistry (DefaultPolicy\<lparr>MinRequests := 1\<rparr>)))) = [(''gpt-4o'', StateHalfOpen)]"
  by (simp add: among_saves calls_on_def Registry_view_def Registry_get_def Registry_seed_def WithStateStore_def NewRegistry_def
      cbstate_Load_def DefaultPolicy_def breaker_defs Let_def)

section \<open>Sharing state between replicas\<close>

definition publish_saves :: "('st \<Rightarrow> string \<Rightarrow> State \<Rightarrow> 'st) \<Rightarrow> 'st \<Rightarrow> (string \<times> State) list \<Rightarrow> 'st" where
  "publish_saves save st saves = foldl (\<lambda>st (m, s). save st m s) st saves"

text \<open>
  What a registry expects of a \<^verbatim>\<open>StateStore\<close>: a load of a saved model returns the saved state, and
  saves of other models do not disturb it.
\<close>

locale state_store =
  fixes save :: "'st \<Rightarrow> string \<Rightarrow> State \<Rightarrow> 'st"
    and load :: "'st \<Rightarrow> string \<Rightarrow> State option"
  assumes load_save: "s \<in> {StateClosed, StateOpen, StateHalfOpen} \<Longrightarrow> load (save st m s) m = Some s"
    and load_save_other: "m' \<noteq> m \<Longrightarrow> load (save st m' s) m = load st m"
begin

lemma publish_other: "m \<notin> fst ` set saves \<Longrightarrow> load (publish_saves save st saves) m = load st m"
  unfolding publish_saves_def
  by (induction saves arbitrary: st) (auto simp: load_save_other)

lemma publish_trip:
  assumes "br_state (Breaker_record (Registry_view now r m) (now, ok)) = StateOpen"
    and "br_state (Registry_view now r m) \<noteq> StateOpen" "rg_store r \<noteq> None"
  shows "load (publish_saves save st (fst (Registry_RecordOutcome now m ok r))) m = Some StateOpen"
  using assms by (auto simp: RecordOutcome_eq Let_def publish_saves_def load_save)

lemma seeded_open_rejects:
  assumes "rg_store r = Some (load st)" "rg_breakers r m = None" "load st m = Some StateOpen"
    and "0 < HalfOpenAfter (rg_policy r)"
  shows "\<not> fst (Registry_IsAllowed now m r)"
  using assms
  by (simp add: IsAllowed_eq Registry_view_def Registry_get_def Registry_seed_def breaker_defs)

end

definition redis_save :: "(string, string) gomap \<Rightarrow> string \<Rightarrow> State \<Rightarrow> (string, string) gomap" where
  "redis_save st m s = (case cbstate_Save 0 m s of (k, v, _) \<Rightarrow> st(k \<mapsto> v))"

lemma State_of_int_of_State:
  "s \<in> {StateClosed, StateOpen, StateHalfOpen} \<Longrightarrow> State_of_int (int_of_State s) = s"
  by (auto simp: State_of_int_def)

lemma Atoi_State:
  "s \<in> {StateClosed, StateOpen, StateHalfOpen} \<Longrightarrow> Atoi (Itoa (int_of_State s)) = Some (int_of_State s)"
  by (auto intro!: Atoi_Itoa)

interpretation cb_redis: state_store redis_save cbstate_Load
  by unfold_locales
    (auto simp: redis_save_def cbstate_Save_def cbstate_Load_def Atoi_State State_of_int_of_State)

text \<open>
  A trip is shared: when recording an outcome trips a model on one instance that has a
  shared Redis store, every other instance reading that store that has not seen the model
  yet refuses its first request for it.
\<close>

theorem trip_seen_by_other_replica:
  assumes "rg_store r1 = Some (cbstate_Load st)"
    and "br_state (Registry_view t1 r1 m) \<noteq> StateOpen"
    and "br_state (Breaker_record (Registry_view t1 r1 m) (t1, ok)) = StateOpen"
    and "rg_store r2 = Some (cbstate_Load (publish_saves redis_save st
           (fst (Registry_RecordOutcome t1 m ok r1))))"
    and "rg_breakers r2 m = None" "0 < HalfOpenAfter (rg_policy r2)"
  shows "\<not> fst (Registry_IsAllowed t2 m r2)"
  using cb_redis.seeded_open_rejects [OF assms(4,5) _ assms(6)]
    cb_redis.publish_trip [OF assms(3,2), of st] assms(1)
  by simp

theorem trip_seen_by_other_replica_witness:
  defines "r1 \<equiv> (WithStateStore (cbstate_Load Map.empty) (NewRegistry (DefaultPolicy\<lparr>MinRequests := 1\<rparr>)))"
  defines "r2 \<equiv> (WithStateStore (cbstate_Load (publish_saves redis_save Map.empty
           (fst (Registry_RecordOutcome 5 ''gpt-4o'' False r1)))) (NewRegistry DefaultPolicy))"
  shows "\<not> fst (Registry_IsAllowed 7 ''gpt-4o'' r2)"
proof (rule trip_seen_by_other_replica [where st = Map.empty and ?t1.0 = 5 and ?r1.0 = r1 and ok = False])
  show "br_state (Breaker_record (Registry_view 5 r1 ''gpt-4o'') (5, False)) = StateOpen"
    "br_state (Registry_view 5 r1 ''gpt-4o'') \<noteq> StateOpen"
    by (simp_all add: r1_def WithStateStore_def NewRegistry_def Registry_view_def Registry_get_def
        Registry_seed_def cbstate_Load_def DefaultPolicy_def Breaker_record_def breaker_defs)
qed (simp_all add: r1_def r2_def WithStateStore_def NewRegistry_def DefaultPolicy_def Second_def)

end
