(* ===== verification/Catalog.thy ===== *)
theory Catalog
  imports Schema SliceSort CircuitBreaker
begin

text \<open>
  Model selection (\<^verbatim>\<open>internal/domain/routing\<close>: \<^verbatim>\<open>router.go\<close>, \<^verbatim>\<open>pricing.go\<close>, \<^verbatim>\<open>scorer.go\<close>, \<^verbatim>\<open>filter.go\<close>,
  \<^verbatim>\<open>fallback.go\<close>) and call pricing (\<^verbatim>\<open>internal/domain/cost\<close>). The catalog and the price table are
  the source's data, entry by entry.
\<close>

section \<open>Cards and tables\<close>

record ModelCard =
  card_ID :: string
  card_InputUSDPer1M :: float64
  card_OutputUSDPer1M :: float64
  card_CachedInputUSDPer1M :: float64
  card_CacheWriteUSDPer1M :: float64
  card_LatencySec :: float64
  card_FailureRate :: float64
  card_Reasoning :: float64
  card_Coding :: float64
  card_Math :: float64
  card_Multilingual :: float64
  card_ContextWindow :: int

record TaskHint =
  hint_PromptChars :: int
  hint_ReasoningScore :: float64
  hint_CodingScore :: float64
  hint_MathScore :: float64
  hint_MultilingualScore :: float64
  hint_LatencySensitive :: bool
  hint_MaxCostUSDPer1M :: float64
  hint_Tenant :: string

record Candidate =
  cand_Provider :: string
  cand_Model :: string
  cand_Score :: float64

record RoutingDecision =
  rd_Provider :: string
  rd_Model :: string
  rd_FallbackChain :: "Candidate list"

record PriceCard =
  pc_InputUSDPer1M :: float64
  pc_OutputUSDPer1M :: float64

record ModelStats =
  ms_Model :: string
  ms_Intent :: string
  ms_SuccessRate :: float64
  ms_P50LatencyMS :: float64
  ms_P95LatencyMS :: float64
  ms_MedianCostUSD :: float64
  ms_SampleCount :: int
  ms_UpdatedAt :: int

definition catalog :: "ModelCard list" where
  "catalog = [
    \<lparr>card_ID = ''claude-opus-4.7'', card_InputUSDPer1M = 5, card_OutputUSDPer1M = 25,
      card_CachedInputUSDPer1M = 5 * (1 / 10), card_CacheWriteUSDPer1M = 5 * (5 / 4),
      card_LatencySec = 9 / 5, card_FailureRate = 1 / 50, card_Reasoning = 49 / 50,
      card_Coding = 9 / 10, card_Math = 99 / 100, card_Multilingual = 22 / 25,
      card_ContextWindow = 200000\<rparr>,
    \<lparr>card_ID = ''claude-sonnet-4-6'', card_InputUSDPer1M = 3, card_OutputUSDPer1M = 15,
      card_CachedInputUSDPer1M = 3 * (1 / 10), card_CacheWriteUSDPer1M = 3 * (5 / 4),
      card_LatencySec = 11 / 10, card_FailureRate = 1 / 50, card_Reasoning = 23 / 25,
      card_Coding = 91 / 100, card_Math = 9 / 10, card_Multilingual = 17 / 20,
      card_ContextWindow = 200000\<rparr>,
    \<lparr>card_ID = ''gpt-5.2'', card_InputUSDPer1M = 3 / 2, card_OutputUSDPer1M = 14,
      card_CachedInputUSDPer1M = 0, card_CacheWriteUSDPer1M = 0, card_LatencySec = 3 / 5,
      card_FailureRate = 1 / 40, card_Reasoning = 47 / 50, card_Coding = 93 / 100,
      card_Math = 19 / 20, card_Multilingual = 43 / 50, card_ContextWindow = 128000\<rparr>,
    \<lparr>card_ID = ''gpt-5.3-codex'', card_InputUSDPer1M = 7 / 4, card_OutputUSDPer1M = 14,
      card_CachedInputUSDPer1M = 0, card_CacheWriteUSDPer1M = 0, card_LatencySec = 3 / 1000,
      card_FailureRate = 3 / 100, card_Reasoning = 21 / 25, card_Coding = 49 / 50,
      card_Math = 22 / 25, card_Multilingual = 39 / 50, card_ContextWindow = 128000\<rparr>,
    \<lparr>card_ID = ''gemini-3.1-pro'', card_InputUSDPer1M = 2, card_OutputUSDPer1M = 12,
      card_CachedInputUSDPer1M = 2 * (1 / 4), card_CacheWriteUSDPer1M = 0,
      card_LatencySec = 303 / 10, card_FailureRate = 11 / 500, card_Reasoning = 24 / 25,
      card_Coding = 22 / 25, card_Math = 1, card_Multilingual = 47 / 50,
      card_ContextWindow = 1000000\<rparr>,
    \<lparr>card_ID = ''deepseek-v3-0324'', card_InputUSDPer1M = 27 / 100,
      card_OutputUSDPer1M = 11 / 10, card_CachedInputUSDPer1M = (27 / 100) * (1 / 10),
      card_CacheWriteUSDPer1M = 0, card_LatencySec = 4, card_FailureRate = 7 / 200,
      card_Reasoning = 21 / 25, card_Coding = 39 / 50, card_Math = 22 / 25,
      card_Multilingual = 19 / 25, card_ContextWindow = 128000\<rparr>,
    \<lparr>card_ID = ''llama-4-scout'', card_InputUSDPer1M = 11 / 100,
      card_OutputUSDPer1M = 17 / 50, card_CachedInputUSDPer1M = 0, card_CacheWriteUSDPer1M = 0,
      card_LatencySec = 33 / 100, card_FailureRate = 1 / 25, card_Reasoning = 19 / 25,
      card_Coding = 7 / 10, card_Math = 39 / 50, card_Multilingual = 37 / 50,
      card_ContextWindow = 10000000\<rparr>,
    \<lparr>card_ID = ''gemma-3-27b'', card_InputUSDPer1M = 7 / 100,
      card_OutputUSDPer1M = 7 / 100, card_CachedInputUSDPer1M = 0, card_CacheWriteUSDPer1M = 0,
      card_LatencySec = 18 / 25, card_FailureRate = 9 / 200, card_Reasoning = 17 / 25,
      card_Coding = 31 / 50, card_Math = 7 / 10, card_Multilingual = 18 / 25,
      card_ContextWindow = 128000\<rparr>,
    \<lparr>card_ID = ''gpt-oss-120b'', card_InputUSDPer1M = 7 / 20, card_OutputUSDPer1M = 3 / 4,
      card_CachedInputUSDPer1M = 0, card_CacheWriteUSDPer1M = 0, card_LatencySec = 1 / 4,
      card_FailureRate = 3 / 100, card_Reasoning = 17 / 20, card_Coding = 4 / 5,
      card_Math = 17 / 20, card_Multilingual = 3 / 4, card_ContextWindow = 128000\<rparr>,
    \<lparr>card_ID = ''llama-3.1-8b-instant'', card_InputUSDPer1M = 1 / 20,
      card_OutputUSDPer1M = 2 / 25, card_CachedInputUSDPer1M = 0, card_CacheWriteUSDPer1M = 0,
      card_LatencySec = 3 / 20, card_FailureRate = 7 / 200, card_Reasoning = 11 / 20,
      card_Coding = 1 / 2, card_Math = 11 / 20, card_Multilingual = 11 / 20,
      card_ContextWindow = 128000\<rparr>,
    \<lparr>card_ID = ''mistral-small-latest'', card_InputUSDPer1M = 3 / 20,
      card_OutputUSDPer1M = 3 / 5, card_CachedInputUSDPer1M = 0, card_CacheWriteUSDPer1M = 0,
      card_LatencySec = 9 / 10, card_FailureRate = 3 / 100, card_Reasoning = 3 / 4,
      card_Coding = 18 / 25, card_Math = 37 / 50, card_Multilingual = 39 / 50,
      card_ContextWindow = 128000\<rparr>]"

definition knownContextWindows :: "(string, int) gomap" where
  "knownContextWindows = map_of [
    (''gpt-4o'', 128000), (''gpt-4o-mini'', 128000), (''gpt-4-turbo'', 128000),
    (''gpt-4'', 8192), (''gpt-3.5-turbo'', 16385), (''o1'', 200000), (''o1-mini'', 128000),
    (''o3'', 200000), (''o3-mini'', 200000), (''claude-3-5-sonnet-20241022'', 200000),
    (''claude-3-5-haiku-20241022'', 200000), (''claude-3-opus-20240229'', 200000),
    (''claude-opus-4-5'', 200000), (''claude-sonnet-4-5'', 200000),
    (''claude-haiku-4-5'', 200000), (''gemini-1.5-pro'', 1000000),
    (''gemini-1.5-flash'', 1000000), (''gemini-2.0-flash'', 1000000),
    (''llama-4-maverick'', 1000000), (''mistral-large-latest'', 128000),
    (''mistral-small-latest'', 128000), (''deepseek-chat'', 64000), (''deepseek-coder'', 128000)]"

definition pricingTable :: "(string, PriceCard) gomap" where
  "pricingTable = map_of [
    (''gpt-4o'', \<lparr>pc_InputUSDPer1M = 5 / 2, pc_OutputUSDPer1M = 10\<rparr>),
    (''gpt-4o-mini'', \<lparr>pc_InputUSDPer1M = 3 / 20, pc_OutputUSDPer1M = 3 / 10\<rparr>),
    (''gpt-4-turbo'', \<lparr>pc_InputUSDPer1M = 10, pc_OutputUSDPer1M = 30\<rparr>),
    (''gpt-4'', \<lparr>pc_InputUSDPer1M = 30, pc_OutputUSDPer1M = 60\<rparr>),
    (''gpt-3.5-turbo'', \<lparr>pc_InputUSDPer1M = 1 / 2, pc_OutputUSDPer1M = 3 / 2\<rparr>),
    (''o1'', \<lparr>pc_InputUSDPer1M = 15, pc_OutputUSDPer1M = 60\<rparr>),
    (''o1-mini'', \<lparr>pc_InputUSDPer1M = 11 / 10, pc_OutputUSDPer1M = 22 / 5\<rparr>),
    (''o3'', \<lparr>pc_InputUSDPer1M = 2, pc_OutputUSDPer1M = 8\<rparr>),
    (''o3-mini'', \<lparr>pc_InputUSDPer1M = 11 / 10, pc_OutputUSDPer1M = 22 / 5\<rparr>),
    (''claude-3-5-sonnet-20241022'', \<lparr>pc_InputUSDPer1M = 3, pc_OutputUSDPer1M = 15\<rparr>),
    (''claude-3-5-haiku-20241022'', \<lparr>pc_InputUSDPer1M = 4 / 5, pc_OutputUSDPer1M = 4\<rparr>),
    (''claude-3-opus-20240229'', \<lparr>pc_InputUSDPer1M = 15, pc_OutputUSDPer1M = 75\<rparr>),
    (''claude-opus-4-5'', \<lparr>pc_InputUSDPer1M = 5, pc_OutputUSDPer1M = 25\<rparr>),
    (''claude-sonnet-4-5'', \<lparr>pc_InputUSDPer1M = 3, pc_OutputUSDPer1M = 15\<rparr>),
    (''claude-haiku-4-5'', \<lparr>pc_InputUSDPer1M = 1, pc_OutputUSDPer1M = 5\<rparr>),
    (''claude-haiku-4-5-20251001'', \<lparr>pc_InputUSDPer1M = 1, pc_OutputUSDPer1M = 5\<rparr>),
    (''gemini-1.5-pro'', \<lparr>pc_InputUSDPer1M = 5 / 4, pc_OutputUSDPer1M = 5\<rparr>),
    (''gemini-1.5-flash'', \<lparr>pc_InputUSDPer1M = 3 / 40, pc_OutputUSDPer1M = 3 / 10\<rparr>),
    (''gemini-2.0-flash'', \<lparr>pc_InputUSDPer1M = 1 / 10, pc_OutputUSDPer1M = 2 / 5\<rparr>),
    (''gemini-3.5-flash'', \<lparr>pc_InputUSDPer1M = 3 / 2, pc_OutputUSDPer1M = 9\<rparr>),
    (''gemini-3-flash'', \<lparr>pc_InputUSDPer1M = 1 / 2, pc_OutputUSDPer1M = 3\<rparr>),
    (''gemini-3.1-flash-lite'', \<lparr>pc_InputUSDPer1M = 1 / 4, pc_OutputUSDPer1M = 3 / 2\<rparr>),
    (''gemini-2.5-flash-lite'', \<lparr>pc_InputUSDPer1M = 1 / 10, pc_OutputUSDPer1M = 2 / 5\<rparr>),
    (''llama-3.3-70b-versatile'', \<lparr>pc_InputUSDPer1M = 59 / 100, pc_OutputUSDPer1M = 79 / 100\<rparr>),
    (''llama-3.1-8b-instant'', \<lparr>pc_InputUSDPer1M = 1 / 20, pc_OutputUSDPer1M = 2 / 25\<rparr>),
    (''mistral-large-latest'', \<lparr>pc_InputUSDPer1M = 2, pc_OutputUSDPer1M = 6\<rparr>),
    (''mistral-small-latest'', \<lparr>pc_InputUSDPer1M = 1 / 10, pc_OutputUSDPer1M = 3 / 10\<rparr>),
    (''deepseek-chat'', \<lparr>pc_InputUSDPer1M = 7 / 50, pc_OutputUSDPer1M = 7 / 25\<rparr>),
    (''deepseek-coder'', \<lparr>pc_InputUSDPer1M = 7 / 50, pc_OutputUSDPer1M = 7 / 25\<rparr>),
    (''deepseek-v4-flash'', \<lparr>pc_InputUSDPer1M = 7 / 50, pc_OutputUSDPer1M = 7 / 25\<rparr>),
    (''deepseek-v4-pro'', \<lparr>pc_InputUSDPer1M = 87 / 200, pc_OutputUSDPer1M = 87 / 100\<rparr>),
    (''gpt-oss-120b'', \<lparr>pc_InputUSDPer1M = 7 / 20, pc_OutputUSDPer1M = 3 / 4\<rparr>)]"

definition defaultContextWindow :: int where
  "defaultContextWindow = 128000"

fun find_card :: "string \<Rightarrow> ModelCard list \<Rightarrow> ModelCard option" where
  "find_card model [] = None"
| "find_card model (c # cs) = (if card_ID c = model then Some c else find_card model cs)"

definition ContextWindowFor :: "string \<Rightarrow> int" where
  "ContextWindowFor model =
     (case find_card model catalog of
        Some c \<Rightarrow> card_ContextWindow c
      | None \<Rightarrow> (case knownContextWindows model of
          Some w \<Rightarrow> w
        | None \<Rightarrow> defaultContextWindow))"

definition lookupPricingTable :: "string \<Rightarrow> ModelCard option" where
  "lookupPricingTable model =
     (case pricingTable model of
        None \<Rightarrow> None
      | Some p \<Rightarrow> Some \<lparr>card_ID = model, card_InputUSDPer1M = pc_InputUSDPer1M p,
          card_OutputUSDPer1M = pc_OutputUSDPer1M p, card_CachedInputUSDPer1M = 0,
          card_CacheWriteUSDPer1M = 0, card_LatencySec = 0, card_FailureRate = 0, card_Reasoning = 0,
          card_Coding = 0, card_Math = 0, card_Multilingual = 0, card_ContextWindow = 0\<rparr>)"

definition Lookup :: "string \<Rightarrow> ModelCard option" where
  "Lookup model = (case find_card model catalog of
      Some m \<Rightarrow> Some m
    | None \<Rightarrow> lookupPricingTable model)"

section \<open>Scoring\<close>

definition wCapability :: float64 where "wCapability = 1"
definition wCost :: float64 where "wCost = 18 / 100"
definition wLatency :: float64 where "wLatency = 12 / 100"
definition wFailure :: float64 where "wFailure = 10 / 100"

definition clamp01 :: "float64 \<Rightarrow> float64" where
  "clamp01 x = (if x < 0 then 0 else if x > 1 then 1 else x)"

text \<open>\<^verbatim>\<open>minMax\<close> starts at plus and minus infinity, here \<open>None\<close>, which it returns for no values.\<close>

definition minMax :: "float64 list \<Rightarrow> float64 option \<times> float64 option" where
  "minMax values = foldl (\<lambda>(mn, mx) v.
     ((case mn of None \<Rightarrow> Some v | Some m \<Rightarrow> if v < m then Some v else mn),
      (case mx of None \<Rightarrow> Some v | Some m \<Rightarrow> if v > m then Some v else mx))) (None, None) values"

definition normalizeMinMax :: "float64 \<Rightarrow> float64 \<Rightarrow> float64 \<Rightarrow> float64" where
  "normalizeMinMax v mn mx =
     (if \<bar>mx - mn\<bar> < 1 / 1000000000 then 0 else clamp01 ((v - mn) / (mx - mn)))"

definition estimateInputShare :: "int \<Rightarrow> float64" where
  "estimateInputShare promptChars =
     (if promptChars \<le> 0 then 45 / 100
      else let x = real_of_int promptChars / 8000 in clamp01 (1 / 4 + 1 / 2 * x / (x + 1)))"

definition blendedCost :: "ModelCard \<Rightarrow> float64 \<Rightarrow> float64" where
  "blendedCost m inputShare =
     inputShare * card_InputUSDPer1M m + (1 - inputShare) * card_OutputUSDPer1M m"

definition capabilityMatch :: "ModelCard \<Rightarrow> TaskHint \<Rightarrow> float64" where
  "capabilityMatch m hint =
     (let sum = foldl (+) 0 [hint_ReasoningScore hint, hint_CodingScore hint, hint_MathScore hint,
                             hint_MultilingualScore hint] in
      if sum < 1 / 1000000000 then 75 / 100
      else let score = hint_ReasoningScore hint * card_Reasoning m + hint_CodingScore hint * card_Coding m +
                       hint_MathScore hint * card_Math m + hint_MultilingualScore hint * card_Multilingual m
           in clamp01 (score / sum))"

definition over_cap :: "TaskHint \<Rightarrow> float64 \<Rightarrow> bool" where
  "over_cap hint cost \<longleftrightarrow> hint_MaxCostUSDPer1M hint > 0 \<and> cost > hint_MaxCostUSDPer1M hint"

text \<open>
  The loop of \<^verbatim>\<open>scoreAll\<close> runs only for a non-empty model list, where the extremes exist.
  \<^verbatim>\<open>sort.Slice\<close> on the catalog's eleven entries is an insertion sort.
\<close>

definition utility :: "TaskHint \<Rightarrow> ModelCard list \<Rightarrow> ModelCard \<Rightarrow> float64" where
  "utility hint models m =
     (let inputShare = estimateInputShare (hint_PromptChars hint);
          (minCost, maxCost) = minMax (map (\<lambda>m. blendedCost m inputShare) models);
          (minLat, maxLat) = minMax (map card_LatencySec models);
          latencyWeight = (if hint_LatencySensitive hint then wLatency * (3 / 2) else wLatency);
          norm = (\<lambda>v mn mx. case (mn, mx) of (Some a, Some b) \<Rightarrow> normalizeMinMax v a b | _ \<Rightarrow> 0);
          normCost = norm (blendedCost m inputShare) minCost maxCost;
          normLat = norm (card_LatencySec m) minLat maxLat
      in wCapability * capabilityMatch m hint - wCost * normCost - latencyWeight * normLat -
         wFailure * card_FailureRate m)"

definition scoreAll :: "TaskHint \<Rightarrow> ModelCard list \<Rightarrow> Candidate list" where
  "scoreAll hint models =
     (let inputShare = estimateInputShare (hint_PromptChars hint);
          kept = filter (\<lambda>m. \<not> over_cap hint (blendedCost m inputShare)) models;
          picks = map (\<lambda>m. \<lparr>cand_Provider = [], cand_Model = card_ID m,
                             cand_Score = utility hint models m\<rparr>) kept
      in insertion_sort (\<lambda>a b. cand_Score a > cand_Score b) picks)"

definition Route :: "TaskHint \<Rightarrow> string" where
  "Route hint = (case scoreAll hint catalog of [] \<Rightarrow> [] | c # _ \<Rightarrow> cand_Model c)"

text \<open>\<^verbatim>\<open>Score\<close>: live statistics once there are ten samples, the card's priors before.\<close>

definition Score :: "ModelCard \<Rightarrow> TaskHint \<Rightarrow> ModelStats \<Rightarrow> float64 \<times> float64 \<times> float64 \<Rightarrow> float64 \<Rightarrow> float64" where
  "Score m hint stats weights inputShare =
     (let (w0, w1, w2) = weights;
          (successRate, latencySec) =
            (if ms_SampleCount stats \<ge> 10 then (ms_SuccessRate stats, ms_P50LatencyMS stats / 1000)
             else (1 - card_FailureRate m, card_LatencySec m))
      in wCapability * capabilityMatch m hint - w0 * blendedCost m inputShare - w1 * latencySec -
         w2 * (1 - successRate))"

text \<open>\<^verbatim>\<open>Filter\<close> asks the breaker registry, when there is one, for every model within the cap.\<close>

fun Filter_loop :: "time \<Rightarrow> TaskHint \<Rightarrow> float64 \<Rightarrow> ModelCard list \<Rightarrow> Registry option \<Rightarrow>
    ModelCard list \<times> Registry option" where
  "Filter_loop now hint inputShare [] cb = ([], cb)"
| "Filter_loop now hint inputShare (m # ms) cb =
     (if over_cap hint (blendedCost m inputShare) then Filter_loop now hint inputShare ms cb
      else case cb of
        None \<Rightarrow> (let (out, cb) = Filter_loop now hint inputShare ms None in (m # out, cb))
      | Some r \<Rightarrow>
          (let (ok, r) = Registry_IsAllowed now (card_ID m) r;
               (out, cb) = Filter_loop now hint inputShare ms (Some r)
           in (if ok then m # out else out, cb)))"

definition Filter :: "time \<Rightarrow> ModelCard list \<Rightarrow> TaskHint \<Rightarrow> Registry option \<Rightarrow> ModelCard list \<times> Registry option" where
  "Filter now models hint cb =
     Filter_loop now hint (estimateInputShare (hint_PromptChars hint)) models cb"

section \<open>Fallback chains\<close>

fun chain_loop :: "string \<Rightarrow> int \<Rightarrow> Candidate list \<Rightarrow> Candidate list \<Rightarrow> Candidate list" where
  "chain_loop primary n chain [] = chain"
| "chain_loop primary n chain (c # cs) =
     (if cand_Model c = primary then chain_loop primary n chain cs
      else let chain = chain @ [c] in
           if int (length chain) \<ge> n then chain else chain_loop primary n chain cs)"

definition BuildFallbackChain :: "Candidate list \<Rightarrow> string \<Rightarrow> int \<Rightarrow> Candidate list" where
  "BuildFallbackChain candidates primary n = chain_loop primary n [] candidates"

definition FallbackChainFor :: "string \<Rightarrow> TaskHint \<Rightarrow> int \<Rightarrow> Candidate list" where
  "FallbackChainFor primaryModel hint n = BuildFallbackChain (scoreAll hint catalog) primaryModel n"

definition RouteWithDecision :: "TaskHint \<Rightarrow> RoutingDecision" where
  "RouteWithDecision hint = (case scoreAll hint catalog of
      [] \<Rightarrow> \<lparr>rd_Provider = [], rd_Model = [], rd_FallbackChain = []\<rparr>
    | c # cs \<Rightarrow> \<lparr>rd_Provider = [], rd_Model = cand_Model c,
        rd_FallbackChain = BuildFallbackChain (c # cs) (cand_Model c) 2\<rparr>)"

section \<open>Pricing a call\<close>

definition ForUsage :: "string \<Rightarrow> Usage \<Rightarrow> CostBreakdown" where
  "ForUsage model usage = (case Lookup model of
      None \<Rightarrow> zero_cost
    | Some c \<Rightarrow>
       (let regular = PromptTokens usage - CacheReadInputTokens usage - CacheCreationInputTokens usage;
            (regular, cacheRead, cacheCreation) =
              (if regular < 0 then (PromptTokens usage, 0, 0)
               else (regular, CacheReadInputTokens usage, CacheCreationInputTokens usage));
            cachedRate = (if card_CachedInputUSDPer1M c = 0 then card_InputUSDPer1M c
                          else card_CachedInputUSDPer1M c);
            writeRate = (if card_CacheWriteUSDPer1M c = 0 then card_InputUSDPer1M c
                         else card_CacheWriteUSDPer1M c);
            inp = real_of_int regular / 1000000 * card_InputUSDPer1M c +
                  real_of_int cacheCreation / 1000000 * writeRate +
                  real_of_int cacheRead / 1000000 * cachedRate;
            out = real_of_int (CompletionTokens usage) / 1000000 * card_OutputUSDPer1M c
        in \<lparr>InputUSD = inp, OutputUSD = out, TotalUSD = inp + out\<rparr>))"

section \<open>Facts about the data\<close>

lemma catalog_IDs: "distinct (map card_ID catalog)" "[] \<notin> card_ID ` set catalog"
  by (simp_all add: catalog_def)

lemma catalog_rates:
  "c \<in> set catalog \<Longrightarrow> 0 < card_InputUSDPer1M c \<and> 0 < card_OutputUSDPer1M c \<and>
     0 \<le> card_CachedInputUSDPer1M c \<and> card_CachedInputUSDPer1M c \<le> card_InputUSDPer1M c \<and>
     0 \<le> card_CacheWriteUSDPer1M c"
  by (auto simp: catalog_def)

lemma catalog_windows: "c \<in> set catalog \<Longrightarrow> 128000 \<le> card_ContextWindow c"
  by (auto simp: catalog_def)

lemma find_card_Some: "find_card model cs = Some c \<Longrightarrow> c \<in> set cs \<and> card_ID c = model"
  by (induction cs) (auto split: if_splits)

lemma find_card_None: "find_card model cs = None \<longleftrightarrow> model \<notin> card_ID ` set cs"
  by (induction cs) auto

lemma find_card_distinct:
  "distinct (map card_ID cs) \<Longrightarrow> c \<in> set cs \<Longrightarrow> find_card (card_ID c) cs = Some c"
  by (induction cs) auto

lemma map_of_all: "map_of xs k = Some v \<Longrightarrow> list_all (\<lambda>x. P (snd x)) xs \<Longrightarrow> P v"
  by (induction xs) (auto split: if_splits)

lemma pricingTable_rates:
  "pricingTable model = Some p \<Longrightarrow> 0 < pc_InputUSDPer1M p \<and> 0 < pc_OutputUSDPer1M p"
  unfolding pricingTable_def by (erule map_of_all) simp

lemma knownContextWindows_bounds: "knownContextWindows model = Some w \<Longrightarrow> 8192 \<le> w"
  unfolding knownContextWindows_def by (erule map_of_all) simp

lemma find_card_window: "find_card model catalog = Some c \<Longrightarrow> 8192 \<le> card_ContextWindow c"
  using find_card_Some [of model catalog c] catalog_windows [of c] by simp

lemma find_card_rates: "find_card model catalog = Some c \<Longrightarrow> 0 < card_InputUSDPer1M c \<and>
    0 < card_OutputUSDPer1M c \<and> 0 \<le> card_CachedInputUSDPer1M c \<and>
    card_CachedInputUSDPer1M c \<le> card_InputUSDPer1M c \<and> 0 \<le> card_CacheWriteUSDPer1M c"
  using find_card_Some [of model catalog c] catalog_rates [of c] by simp

lemma ContextWindowFor_ge: "8192 \<le> ContextWindowFor model"
  by (auto simp: ContextWindowFor_def defaultContextWindow_def split: option.splits
      dest: knownContextWindows_bounds find_card_window)

lemma Lookup_rates:
  assumes "Lookup model = Some c"
  shows "0 < card_InputUSDPer1M c" "0 < card_OutputUSDPer1M c" "0 \<le> card_CachedInputUSDPer1M c"
    "card_CachedInputUSDPer1M c \<le> card_InputUSDPer1M c" "0 \<le> card_CacheWriteUSDPer1M c"
  using assms
  by (auto simp: Lookup_def lookupPricingTable_def less_imp_le split: option.splits
      dest!: find_card_rates pricingTable_rates)

section \<open>Pricing\<close>

lemma ForUsage_None: "Lookup model = None \<Longrightarrow> ForUsage model u = zero_cost"
  by (simp add: ForUsage_def)

text \<open>
  Pricing is sound: with non-negative token counts the input and output costs are
  non-negative and add up to the total; an unknown model costs nothing and a known one always
  something once a prompt or completion token was used; and cache hits never make a call dearer
  than the same tokens without caching.
\<close>

theorem ForUsage_sound:
  assumes "0 \<le> PromptTokens u" "0 \<le> CompletionTokens u" "0 \<le> CacheReadInputTokens u"
    "0 \<le> CacheCreationInputTokens u"
  shows "0 \<le> InputUSD (ForUsage model u) \<and> 0 \<le> OutputUSD (ForUsage model u) \<and>
    TotalUSD (ForUsage model u) = InputUSD (ForUsage model u) + OutputUSD (ForUsage model u) \<and>
    (Lookup model = None \<longrightarrow> TotalUSD (ForUsage model u) = 0) \<and>
    (Lookup model \<noteq> None \<and> 0 < CompletionTokens u \<longrightarrow> 0 < TotalUSD (ForUsage model u)) \<and>
    (CacheCreationInputTokens u = 0 \<longrightarrow>
       TotalUSD (ForUsage model u) \<le> TotalUSD (ForUsage model (u\<lparr>CacheReadInputTokens := 0\<rparr>)))"
proof (cases "Lookup model")
  case None
  then show ?thesis by (simp add: ForUsage_None zero_cost_def)
next
  case (Some c)
  note r = Lookup_rates [OF Some]
  have nonneg: "0 \<le> InputUSD (ForUsage model u)" "0 \<le> OutputUSD (ForUsage model u)"
    using assms r Some by (auto simp: ForUsage_def Let_def intro!: add_nonneg_nonneg)
  have sum: "TotalUSD (ForUsage model u) = InputUSD (ForUsage model u) + OutputUSD (ForUsage model u)"
    using Some by (simp add: ForUsage_def Let_def case_prod_beta)
  have pos: "0 < TotalUSD (ForUsage model u)" if "0 < CompletionTokens u"
  proof -
    have "0 < OutputUSD (ForUsage model u)"
      using that r Some by (simp add: ForUsage_def Let_def case_prod_beta)
    with nonneg sum show ?thesis by linarith
  qed
  have cache: "TotalUSD (ForUsage model u) \<le> TotalUSD (ForUsage model (u\<lparr>CacheReadInputTokens := 0\<rparr>))"
    if "CacheCreationInputTokens u = 0"
  proof -
    let ?rate = "if card_CachedInputUSDPer1M c = 0 then card_InputUSDPer1M c else card_CachedInputUSDPer1M c"
    have "real_of_int (CacheReadInputTokens u) / 1000000 * ?rate \<le>
        real_of_int (CacheReadInputTokens u) / 1000000 * card_InputUSDPer1M c"
      using r assms by (intro mult_left_mono) auto
    then show ?thesis
      using that Some assms by (auto simp: ForUsage_def Let_def field_simps)
  qed
  show ?thesis using nonneg sum pos cache Some by auto
qed

theorem ForUsage_sound_witness:
  defines "u \<equiv> \<lparr>PromptTokens = 1000000, CompletionTokens = 0, TotalTokens = 1000000,
      CacheReadInputTokens = 1000000, CacheCreationInputTokens = 0\<rparr>"
  shows "TotalUSD (ForUsage ''claude-sonnet-4-6'' u) = 3 / 10 \<and>
    0 \<le> InputUSD (ForUsage ''claude-sonnet-4-6'' u)"
  using ForUsage_sound [of u "''claude-sonnet-4-6''"]
  by (simp add: u_def ForUsage_def Lookup_def catalog_def Let_def)

section \<open>Selection\<close>

lemma clamp01_bounds: "0 \<le> clamp01 x" "clamp01 x \<le> 1"
  by (simp_all add: clamp01_def)

lemma estimateInputShare_bounds: "1 / 4 \<le> estimateInputShare n \<and> estimateInputShare n < 3 / 4"
proof (cases "n \<le> 0")
  case True
  then show ?thesis by (simp add: estimateInputShare_def)
next
  case False
  define x where "x = real_of_int n / 8000"
  have x: "0 < x" using False by (simp add: x_def)
  define y where "y = 1 / 2 * x / (x + 1)"
  from x have "0 < y" "y < 1 / 2" by (simp_all add: y_def field_simps)
  moreover have "estimateInputShare n = clamp01 (1 / 4 + y)"
    using False by (simp add: estimateInputShare_def Let_def x_def y_def)
  ultimately show ?thesis by (simp add: clamp01_def)
qed

definition in_cap :: "TaskHint \<Rightarrow> ModelCard \<Rightarrow> bool" where
  "in_cap hint m \<longleftrightarrow> \<not> over_cap hint (blendedCost m (estimateInputShare (hint_PromptChars hint)))"

definition pick_of :: "TaskHint \<Rightarrow> ModelCard list \<Rightarrow> ModelCard \<Rightarrow> Candidate" where
  "pick_of hint models m = \<lparr>cand_Provider = [], cand_Model = card_ID m, cand_Score = utility hint models m\<rparr>"

lemma scoreAll_eq:
  "scoreAll hint models = sort_key (\<lambda>c. - cand_Score c) (map (pick_of hint models) (filter (in_cap hint) models))"
  using insertion_sort_eq_sort_key [of "\<lambda>c. - cand_Score c"]
  by (simp add: scoreAll_def Let_def in_cap_def [abs_def] pick_of_def [abs_def])

lemma set_scoreAll: "set (scoreAll hint models) = pick_of hint models ` {m \<in> set models. in_cap hint m}"
  by (auto simp: scoreAll_eq)

lemma scoreAll_sorted: "sorted_wrt (\<lambda>a b. cand_Score a \<ge> cand_Score b) (scoreAll hint models)"
  using sorted_sort_key [of "\<lambda>c. - cand_Score c" "map (pick_of hint models) (filter (in_cap hint) models)"]
  by (simp add: scoreAll_eq sorted_wrt_map)

lemma distinct_scoreAll_models:
  assumes "distinct (map card_ID models)"
  shows "distinct (map cand_Model (scoreAll hint models))"
proof -
  have "mset (map cand_Model (scoreAll hint models)) = mset (map card_ID (filter (in_cap hint) models))"
    by (simp add: scoreAll_eq multiset.map_comp comp_def pick_of_def)
  moreover have "distinct (map card_ID (filter (in_cap hint) models))"
    using assms by (simp add: distinct_map_filter)
  ultimately show ?thesis using mset_eq_imp_distinct_iff by blast
qed

text \<open>
  C15. Automatic routing picks the best model the caller can afford: the result is empty exactly
  when every catalog model exceeds a positive cost cap; otherwise it names a catalog model
  within the cap whose utility no other model within the cap exceeds.
\<close>

theorem Route_best:
  "(Route hint = [] \<longleftrightarrow> \<not> (\<exists>m \<in> set catalog. in_cap hint m)) \<and>
   (Route hint \<noteq> [] \<longrightarrow> (\<exists>m \<in> set catalog. card_ID m = Route hint \<and> in_cap hint m \<and>
      (\<forall>m' \<in> set catalog. in_cap hint m' \<longrightarrow> utility hint catalog m' \<le> utility hint catalog m)))"
proof (cases "scoreAll hint catalog")
  case Nil
  then show ?thesis using set_scoreAll [of hint catalog] by (auto simp: Route_def)
next
  case (Cons c cs)
  have "c \<in> pick_of hint catalog ` {m \<in> set catalog. in_cap hint m}"
    using Cons set_scoreAll [of hint catalog] by (metis list.set_intros(1))
  then obtain m where m: "m \<in> set catalog" "in_cap hint m" "c = pick_of hint catalog m" by blast
  have "utility hint catalog m' \<le> utility hint catalog m" if "m' \<in> set catalog" "in_cap hint m'" for m'
  proof -
    have "pick_of hint catalog m' \<in> set (c # cs)"
      using that set_scoreAll [of hint catalog] Cons by auto
    then show ?thesis
      using scoreAll_sorted [of hint catalog] Cons m(3) by (auto simp: pick_of_def)
  qed
  moreover have "Route hint = card_ID m" using Cons m(3) by (simp add: Route_def pick_of_def)
  moreover have "card_ID m \<noteq> []" using catalog_IDs(2) m(1) by force
  ultimately show ?thesis using m by auto
qed

theorem Route_best_witness:
  defines "h \<equiv> \<lparr>hint_PromptChars = 0, hint_ReasoningScore = 0, hint_CodingScore = 0, hint_MathScore = 0,
      hint_MultilingualScore = 0, hint_LatencySensitive = False, hint_MaxCostUSDPer1M = 8 / 100, hint_Tenant = []\<rparr>"
  shows "Route h \<noteq> [] \<and> (\<exists>m \<in> set catalog. card_ID m = Route h \<and> in_cap h m)"
proof -
  have "\<exists>m \<in> set catalog. in_cap h m"
    by (simp add: catalog_def h_def in_cap_def over_cap_def blendedCost_def estimateInputShare_def)
  with Route_best [of h] show ?thesis by blast
qed

lemma chain_loop_spec:
  "length chain < max 1 (nat n) \<Longrightarrow> chain_loop primary n chain cs =
     chain @ take (max 1 (nat n) - length chain) (filter (\<lambda>c. cand_Model c \<noteq> primary) cs)"
proof (induction cs arbitrary: chain)
  case (Cons c cs)
  show ?case
  proof (cases "cand_Model c = primary")
    case True
    then show ?thesis using Cons by simp
  next
    case False
    show ?thesis
    proof (cases "n \<le> int (Suc (length chain))")
      case True
      with Cons.prems have "max 1 (nat n) - length chain = 1" by linarith
      then show ?thesis using False True by simp
    next
      case less: False
      then have "length (chain @ [c]) < max 1 (nat n)"
        "max 1 (nat n) - length chain = Suc (max 1 (nat n) - length (chain @ [c]))" by auto
      then show ?thesis using False less Cons.IH [of "chain @ [c]"] by simp
    qed
  qed
qed simp

lemma BuildFallbackChain_eq:
  "BuildFallbackChain cs primary n =
     take (max 1 (nat n)) (filter (\<lambda>c. cand_Model c \<noteq> primary) cs)"
  by (simp add: BuildFallbackChain_def chain_loop_spec)

text \<open>
  A routing decision is a primary with the next best alternatives: the chain holds at most
  two further candidates, none of them the primary and no model twice, all within the cost cap
  and none scoring above the primary; it is shorter than two only when the catalog has fewer
  models left within the cap.
\<close>

theorem RouteWithDecision_chain:
  defines "d hint \<equiv> RouteWithDecision hint"
  shows "rd_Model (d hint) = Route hint \<and>
    rd_FallbackChain (d hint) = take 2 (tl (scoreAll hint catalog)) \<and>
    distinct (rd_Model (d hint) # map cand_Model (rd_FallbackChain (d hint))) \<and>
    set (map cand_Model (rd_FallbackChain (d hint))) \<subseteq> {card_ID m |m. m \<in> set catalog \<and> in_cap hint m} \<and>
    sorted_wrt (\<lambda>a b. cand_Score a \<ge> cand_Score b) (rd_FallbackChain (d hint))"
proof (cases "scoreAll hint catalog")
  case Nil
  then show ?thesis by (simp add: d_def RouteWithDecision_def Route_def)
next
  case (Cons c cs)
  have dist: "distinct (map cand_Model (c # cs))"
    using distinct_scoreAll_models [OF catalog_IDs(1), of hint] Cons by simp
  then have "filter (\<lambda>c'. cand_Model c' \<noteq> cand_Model c) cs = cs"
    by (auto simp: filter_id_conv image_iff)
  then have d: "d hint = \<lparr>rd_Provider = [], rd_Model = cand_Model c, rd_FallbackChain = take 2 cs\<rparr>"
    using Cons by (simp add: d_def RouteWithDecision_def BuildFallbackChain_eq numeral_2_eq_2)
  have "set cs \<subseteq> pick_of hint catalog ` {m \<in> set catalog. in_cap hint m}"
    using Cons set_scoreAll [of hint catalog] by (metis set_subset_Cons)
  then have "cand_Model ` set (take 2 cs) \<subseteq> {card_ID m |m. m \<in> set catalog \<and> in_cap hint m}"
    using set_take_subset [of 2 cs] by (fastforce simp: pick_of_def)
  moreover have "sorted_wrt (\<lambda>a b. cand_Score a \<ge> cand_Score b) (take 2 cs)"
    using scoreAll_sorted [of hint catalog] Cons by (simp add: sorted_wrt_take)
  moreover have "distinct (cand_Model c # map cand_Model (take 2 cs))"
    using dist by (auto simp: take_map [symmetric] dest: in_set_takeD)
  ultimately show ?thesis using Cons by (simp add: d Route_def)
qed

end
