(* ===== verification/RateLimit.thy ===== *)
theory RateLimit
  imports Schema
begin

text \<open>
  The sliding-window rate limiter of \<^verbatim>\<open>internal/domain/policy/ratelimit.go\<close>, the caller identity
  it is keyed by (\<^verbatim>\<open>internal/domain/identity\<close>), the tenant store (\<^verbatim>\<open>internal/domain/tenant\<close>) and the
  HTTP middleware that calls the limiter (\<^verbatim>\<open>internal/ingress/ratelimit.go\<close>). A window is the list of
  its entries, oldest first. Reading an element of an empty slice panics: \<open>None\<close>.
\<close>

section \<open>Caller identity and tenants\<close>

fun firstNonEmpty :: "string list \<Rightarrow> string" where
  "firstNonEmpty [] = []"
| "firstNonEmpty (v # vs) = (if v \<noteq> [] then v else firstNonEmpty vs)"

text \<open>\<^verbatim>\<open>Header.Get\<close> of a missing header is the empty string.\<close>

definition Resolver_Resolve :: "(string \<Rightarrow> string) \<Rightarrow> Identity" where
  "Resolver_Resolve header =
     \<lparr>TenantID = firstNonEmpty [header ''X-IXR-TenantID'', ''default''],
      TeamID = header ''X-IXR-TeamID'', UserID = header ''X-IXR-UserID'',
      UseCaseID = header ''X-IXR-UseCase''\<rparr>"

definition FromContext :: "Identity option \<Rightarrow> Identity" where
  "FromContext ctx = (case ctx of
      None \<Rightarrow> \<lparr>TenantID = ''default'', TeamID = [], UserID = [], UseCaseID = []\<rparr>
    | Some i \<Rightarrow> i)"

record RateLimit =
  WindowSec :: int
  MaxRequests :: int
  MaxTokens :: int

record Credentials =
  cred_Provider :: string
  cred_APIKey :: string
  cred_BaseURL :: string

record TenantConfig =
  ten_ID :: string
  ten_Limits :: RateLimit
  ten_Credentials :: "(string, Credentials) gomap"

definition NewMemoryStore :: "TenantConfig list \<Rightarrow> (string, TenantConfig) gomap" where
  "NewMemoryStore tenants = foldl (\<lambda>m t. m(ten_ID t \<mapsto> t)) Map.empty tenants"

definition TenantStore_Get :: "(string, TenantConfig) gomap option \<Rightarrow> string \<Rightarrow> TenantConfig option" where
  "TenantStore_Get s tid = (case s of None \<Rightarrow> None | Some tenants \<Rightarrow> tenants tid)"

section \<open>Limiter\<close>

record Decision =
  Allowed :: bool
  RetryAfter :: duration
  Remaining :: int

record windowEntry =
  we_at :: time
  we_tokens :: int

type_synonym slidingWindow = "windowEntry list"

record MemoryRateLimiter =
  rl_windows :: "(string, slidingWindow) gomap"
  rl_maxReq :: int
  rl_maxTok :: int
  rl_windowDur :: duration

definition NewMemoryRateLimiter :: "int \<Rightarrow> int \<Rightarrow> duration \<Rightarrow> MemoryRateLimiter" where
  "NewMemoryRateLimiter maxRequests maxTokens windowDur =
     \<lparr>rl_windows = Map.empty, rl_maxReq = maxRequests, rl_maxTok = maxTokens,
      rl_windowDur = (if windowDur \<le> 0 then 60 * Second else windowDur)\<rparr>"

definition MemoryRateLimiter_Reload :: "RateLimit \<Rightarrow> MemoryRateLimiter \<Rightarrow> MemoryRateLimiter" where
  "MemoryRateLimiter_Reload cfg m =
     (let m = m\<lparr>rl_maxReq := MaxRequests cfg, rl_maxTok := MaxTokens cfg\<rparr> in
      if WindowSec cfg > 0 then m\<lparr>rl_windowDur := WindowSec cfg * Second\<rparr> else m)"

definition windowKey :: "Identity \<Rightarrow> string" where
  "windowKey ident = TenantID ident @ '':'' @ UserID ident @ '':'' @ UseCaseID ident"

definition getOrCreate :: "string \<Rightarrow> MemoryRateLimiter \<Rightarrow> slidingWindow" where
  "getOrCreate key m = gomap_get [] (rl_windows m) key"

definition purge :: "slidingWindow \<Rightarrow> time \<Rightarrow> slidingWindow" where
  "purge w cutoff = dropWhile (\<lambda>e. we_at e < cutoff) w"

definition sumTokens :: "slidingWindow \<Rightarrow> int" where
  "sumTokens w = foldl (\<lambda>n e. n + we_tokens e) 0 w"

definition MemoryRateLimiter_Check ::
    "time \<Rightarrow> Identity \<Rightarrow> int \<Rightarrow> MemoryRateLimiter \<Rightarrow> Decision option \<times> MemoryRateLimiter" where
  "MemoryRateLimiter_Check now ident tokenCost m =
     (if rl_maxReq m = 0 \<and> rl_maxTok m = 0
      then (Some \<lparr>Allowed = True, RetryAfter = 0, Remaining = 0\<rparr>, m)
      else
        let key = windowKey ident;
            w = purge (getOrCreate key m) (now - rl_windowDur m);
            m = m\<lparr>rl_windows := (rl_windows m)(key \<mapsto> w)\<rparr>;
            reqCount = int (length w);
            reject = (case w of [] \<Rightarrow> None
              | oldest # _ \<Rightarrow> Some \<lparr>Allowed = False,
                  RetryAfter = rl_windowDur m - (now - we_at oldest), Remaining = 0\<rparr>)
        in if rl_maxReq m > 0 \<and> reqCount \<ge> rl_maxReq m then (reject, m)
           else if rl_maxTok m > 0 \<and> sumTokens w + tokenCost > rl_maxTok m then (reject, m)
           else (Some \<lparr>Allowed = True, RetryAfter = 0,
                   Remaining = (if rl_maxReq m > 0 then rl_maxReq m - reqCount - 1 else 0)\<rparr>, m))"

definition MemoryRateLimiter_Record ::
    "time \<Rightarrow> Identity \<Rightarrow> int \<Rightarrow> MemoryRateLimiter \<Rightarrow> MemoryRateLimiter" where
  "MemoryRateLimiter_Record now ident tokensUsed m =
     (let key = windowKey ident; w = purge (getOrCreate key m) (now - rl_windowDur m) in
      m\<lparr>rl_windows := (rl_windows m)(key \<mapsto> w @ [\<lparr>we_at = now, we_tokens = tokensUsed\<rparr>])\<rparr>)"

section \<open>Middleware\<close>

text \<open>
  The two halves of the HTTP handler, before and after the wrapped handler runs: what the
  client is sent when the request stops here (the status and \<^verbatim>\<open>RetryAfter\<close> when positive), or
  that it is passed on. \<^verbatim>\<open>ContentLength\<close> is -1 when unknown.
\<close>

datatype admission = PassOn | TooManyRequests "duration option" | HandlerPanic

definition RateLimit_before ::
    "time \<Rightarrow> Identity option \<Rightarrow> int \<Rightarrow> MemoryRateLimiter \<Rightarrow> admission \<times> MemoryRateLimiter" where
  "RateLimit_before now ctx contentLength m =
     (case MemoryRateLimiter_Check now (FromContext ctx) (go_div contentLength 4) m of
        (None, m) \<Rightarrow> (HandlerPanic, m)
      | (Some d, m) \<Rightarrow>
          (if Allowed d then PassOn
           else TooManyRequests (if RetryAfter d > 0 then Some (RetryAfter d) else None), m))"

definition RateLimit_after ::
    "time \<Rightarrow> Identity option \<Rightarrow> int \<Rightarrow> MemoryRateLimiter \<Rightarrow> MemoryRateLimiter" where
  "RateLimit_after now ctx bytesWritten m =
     MemoryRateLimiter_Record now (FromContext ctx) (go_div bytesWritten 4) m"

section \<open>Runs of a limiter\<close>

text \<open>
  A server makes \<^verbatim>\<open>Check\<close> and \<^verbatim>\<open>Record\<close> calls of many requests in any interleaving. For one window
  key, \<open>rl_run c key m0 m n lg now\<close> says that a limiter started as \<open>m0\<close> has reached \<open>m\<close> at time \<open>now\<close>
  with \<open>n\<close> admitted requests of that key still running, of which there were never more than \<open>c\<close>
  at once, and \<open>lg\<close> the times at which its finished requests were recorded.
\<close>

inductive rl_run :: "nat \<Rightarrow> string \<Rightarrow> MemoryRateLimiter \<Rightarrow> MemoryRateLimiter \<Rightarrow> nat \<Rightarrow> time list \<Rightarrow> time \<Rightarrow> bool"
  for c key m0 where
  start: "getOrCreate key m0 = [] \<Longrightarrow> rl_run c key m0 m0 0 [] now"
| admit: "rl_run c key m0 m n lg now \<Longrightarrow> now \<le> now' \<Longrightarrow> windowKey i = key \<Longrightarrow> n < c \<Longrightarrow>
    MemoryRateLimiter_Check now' i tok m = (Some d, m') \<Longrightarrow> Allowed d \<Longrightarrow>
    rl_run c key m0 m' (Suc n) lg now'"
| turn_away: "rl_run c key m0 m n lg now \<Longrightarrow> now \<le> now' \<Longrightarrow>
    rl_run c key m0 (snd (MemoryRateLimiter_Check now' i tok m)) n lg now'"
| finish: "rl_run c key m0 m (Suc n) lg now \<Longrightarrow> now \<le> now' \<Longrightarrow> windowKey i = key \<Longrightarrow>
    rl_run c key m0 (MemoryRateLimiter_Record now' i tok m) n (lg @ [now']) now'"
| other: "rl_run c key m0 m n lg now \<Longrightarrow> now \<le> now' \<Longrightarrow> windowKey i \<noteq> key \<Longrightarrow>
    rl_run c key m0 (MemoryRateLimiter_Record now' i tok m) n lg now'"

named_theorems limiter_simps "what the limiter's operations do to its fields"

lemma Check_fields [limiter_simps]:
  "rl_maxReq (snd (MemoryRateLimiter_Check now i tok m)) = rl_maxReq m"
  "rl_windowDur (snd (MemoryRateLimiter_Check now i tok m)) = rl_windowDur m"
  by (simp_all add: MemoryRateLimiter_Check_def Let_def)

lemma Record_fields [limiter_simps]:
  "rl_maxReq (MemoryRateLimiter_Record now i tok m) = rl_maxReq m"
  "rl_windowDur (MemoryRateLimiter_Record now i tok m) = rl_windowDur m"
  by (simp_all add: MemoryRateLimiter_Record_def Let_def)

lemma Check_window [limiter_simps]:
  "0 < rl_maxReq m \<Longrightarrow> getOrCreate key (snd (MemoryRateLimiter_Check now i tok m)) =
     (if windowKey i = key then purge (getOrCreate key m) (now - rl_windowDur m) else getOrCreate key m)"
  by (simp add: MemoryRateLimiter_Check_def getOrCreate_def Let_def)

lemma Record_window [limiter_simps]:
  "getOrCreate key (MemoryRateLimiter_Record now i tok m) =
     (if windowKey i = key
      then purge (getOrCreate key m) (now - rl_windowDur m) @ [\<lparr>we_at = now, we_tokens = tok\<rparr>]
      else getOrCreate key m)"
  by (simp add: MemoryRateLimiter_Record_def getOrCreate_def Let_def)

lemma Check_allowed_room:
  "MemoryRateLimiter_Check now i tok m = (Some d, m') \<Longrightarrow> Allowed d \<Longrightarrow> 0 < rl_maxReq m \<Longrightarrow>
   int (length (purge (getOrCreate (windowKey i) m) (now - rl_windowDur m))) < rl_maxReq m"
  by (auto simp: MemoryRateLimiter_Check_def Let_def split: if_splits list.splits)

text \<open>\<^verbatim>\<open>purge\<close> only drops entries older than the cutoff, from the front.\<close>

lemma purge_splits: "\<exists>dropped. w = dropped @ purge w cutoff \<and> (\<forall>e \<in> set dropped. we_at e < cutoff)"
  by (intro exI [of _ "takeWhile (\<lambda>e. we_at e < cutoff) w"]) (auto simp: purge_def dest: set_takeWhileD)

text \<open>The log is what was purged, all of it older than the window, and what the window holds.\<close>

definition rl_log_ok :: "duration \<Rightarrow> slidingWindow \<Rightarrow> time list \<Rightarrow> time \<Rightarrow> bool" where
  "rl_log_ok dur w lg now \<longleftrightarrow>
     (\<exists>old. lg = old @ map we_at w \<and> (\<forall>t \<in> set old. t < now - dur))"

lemma rl_log_ok_later: "rl_log_ok dur w lg now \<Longrightarrow> now \<le> now' \<Longrightarrow> rl_log_ok dur w lg now'"
  unfolding rl_log_ok_def by (elim exE) (rule exI, auto)

lemma rl_log_ok_purge:
  assumes "rl_log_ok dur w lg now" "now \<le> now'"
  shows "rl_log_ok dur (purge w (now' - dur)) lg now'"
proof -
  from assms obtain old where old: "lg = old @ map we_at w" "\<forall>t \<in> set old. t < now' - dur"
    using rl_log_ok_later [OF assms] by (auto simp: rl_log_ok_def)
  from purge_splits [of w "now' - dur"] obtain dropped where
    dropped: "w = dropped @ purge w (now' - dur)" "\<forall>e \<in> set dropped. we_at e < now' - dur" by blast
  have "lg = (old @ map we_at dropped) @ map we_at (purge w (now' - dur))"
    using old(1) dropped(1) by (metis append_assoc map_append)
  moreover have "\<forall>t \<in> set (old @ map we_at dropped). t < now' - dur"
    using old(2) dropped(2) by auto
  ultimately show ?thesis unfolding rl_log_ok_def by blast
qed

lemma rl_log_ok_snoc: "rl_log_ok dur w lg now \<Longrightarrow> rl_log_ok dur (w @ [\<lparr>we_at = t, we_tokens = k\<rparr>]) (lg @ [t]) now"
  by (auto simp: rl_log_ok_def)

lemma rl_log_ok_count:
  assumes "rl_log_ok dur w lg now"
  shows "length (filter (\<lambda>t. now - dur \<le> t) lg) \<le> length w"
proof -
  from assms obtain old where old: "lg = old @ map we_at w" "\<forall>t \<in> set old. t < now - dur"
    by (auto simp: rl_log_ok_def)
  from old(2) have "filter (\<lambda>t. now - dur \<le> t) old = []"
    by (auto intro!: filter_False simp: not_le)
  with old(1) show ?thesis
    using length_filter_le [of "\<lambda>t. now - dur \<le> t" "map we_at w"] by simp
qed

lemma purge_length: "length (purge w cutoff) \<le> length w"
  by (simp add: purge_def length_dropWhile_le)

lemma rl_run_inv:
  assumes "rl_run c key m0 m n lg now" "0 < rl_maxReq m0"
  shows "rl_maxReq m = rl_maxReq m0 \<and> rl_windowDur m = rl_windowDur m0 \<and> n \<le> c \<and>
    rl_log_ok (rl_windowDur m0) (getOrCreate key m) lg now \<and>
    int (length (getOrCreate key m)) + int n \<le> rl_maxReq m0 - 1 + int c"
  using assms
proof (induction rule: rl_run.induct)
  case (start now)
  then show ?case by (simp add: rl_log_ok_def)
next
  case (admit m n lg now now' i tok d m')
  then have m': "snd (MemoryRateLimiter_Check now' i tok m) = m'" by simp
  with admit Check_fields [of now' i tok m] Check_window [of m key now' i tok]
  have "rl_maxReq m' = rl_maxReq m0" "rl_windowDur m' = rl_windowDur m0"
    "getOrCreate key m' = purge (getOrCreate key m) (now' - rl_windowDur m0)" by auto
  with Check_allowed_room [of now' i tok m d m'] admit show ?case
    by (auto simp: rl_log_ok_purge)
next
  case (turn_away m n lg now now' i tok)
  with purge_length [of "getOrCreate key m" "now' - rl_windowDur m0"]
  show ?case by (auto simp: limiter_simps rl_log_ok_purge rl_log_ok_later)
next
  case (finish m n lg now now' i tok)
  with purge_length [of "getOrCreate key m" "now' - rl_windowDur m0"]
  show ?case by (auto simp: limiter_simps intro!: rl_log_ok_snoc rl_log_ok_purge)
next
  case (other m n lg now now' i tok)
  then show ?case by (auto simp: limiter_simps rl_log_ok_later)
qed

text \<open>
  C2. The request limit holds over every sliding window, for any interleaving of callers: with
  at most \<open>c\<close> requests of an identity in flight at once, the requests recorded within the last
  \<^verbatim>\<open>windowDur\<close> together with those still running number at most \<^verbatim>\<open>maxReq - 1 + c\<close>. A caller that
  sends one request at a time never exceeds \<^verbatim>\<open>maxReq\<close>; concurrent callers overshoot by at most
  their concurrency minus one, because a request counts only once it is finished.
\<close>

theorem rate_limit_window_bound:
  assumes "rl_run c key m0 m n lg now" "0 < rl_maxReq m0"
  shows "int (length (filter (\<lambda>t. now - rl_windowDur m0 \<le> t) lg)) + int n \<le> rl_maxReq m0 - 1 + int c"
  using rl_run_inv [OF assms] rl_log_ok_count [of "rl_windowDur m0" "getOrCreate key m" lg now]
  by linarith

theorem rate_limit_window_bound_witness:
  defines "i \<equiv> \<lparr>TenantID = ''acme'', TeamID = [], UserID = ''u1'', UseCaseID = []\<rparr>"
  defines "m0 \<equiv> NewMemoryRateLimiter 2 0 Second"
  defines "m1 \<equiv> snd (MemoryRateLimiter_Check 5 i 0 m0)"
  shows "rl_run 1 (windowKey i) m0 (MemoryRateLimiter_Record 10 i 0 m1) 0 [10] 10 \<and>
    int (length (filter (\<lambda>t. 10 - rl_windowDur m0 \<le> t) [10])) + int 0 \<le> rl_maxReq m0 - 1 + int 1"
proof -
  have "rl_run 1 (windowKey i) m0 m0 0 [] 5"
    by (rule rl_run.start) (simp add: m0_def NewMemoryRateLimiter_def getOrCreate_def)
  moreover have "MemoryRateLimiter_Check 5 i 0 m0 = (Some \<lparr>Allowed = True, RetryAfter = 0, Remaining = 1\<rparr>, m1)"
    by (simp add: m1_def m0_def MemoryRateLimiter_Check_def NewMemoryRateLimiter_def getOrCreate_def purge_def Let_def)
  ultimately have "rl_run 1 (windowKey i) m0 m1 (Suc 0) [] 5"
    by (intro rl_run.admit [where i = i and now = 5 and now' = 5
        and d = "\<lparr>Allowed = True, RetryAfter = 0, Remaining = 1\<rparr>"]) simp_all
  then have r: "rl_run 1 (windowKey i) m0 (MemoryRateLimiter_Record 10 i 0 m1) 0 ([] @ [10]) 10"
    by (rule rl_run.finish) simp_all
  have "0 < rl_maxReq m0" by (simp add: m0_def NewMemoryRateLimiter_def)
  from r rate_limit_window_bound [OF r this] show ?thesis by simp
qed

section \<open>Rejections\<close>

definition reject_of :: "time \<Rightarrow> duration \<Rightarrow> slidingWindow \<Rightarrow> Decision option" where
  "reject_of now dur w = (case w of [] \<Rightarrow> None
     | oldest # _ \<Rightarrow> Some \<lparr>Allowed = False, RetryAfter = dur - (now - we_at oldest), Remaining = 0\<rparr>)"

definition over_limit :: "int \<Rightarrow> MemoryRateLimiter \<Rightarrow> slidingWindow \<Rightarrow> bool" where
  "over_limit tok m w \<longleftrightarrow> (0 < rl_maxReq m \<and> rl_maxReq m \<le> int (length w)) \<or>
     (0 < rl_maxTok m \<and> rl_maxTok m < sumTokens w + tok)"

lemma Check_decision:
  assumes "\<not> (rl_maxReq m = 0 \<and> rl_maxTok m = 0)"
    and "w = purge (getOrCreate (windowKey i) m) (now - rl_windowDur m)"
  shows "over_limit tok m w \<Longrightarrow> fst (MemoryRateLimiter_Check now i tok m) = reject_of now (rl_windowDur m) w"
    and "\<not> over_limit tok m w \<Longrightarrow> fst (MemoryRateLimiter_Check now i tok m) =
      Some \<lparr>Allowed = True, RetryAfter = 0,
            Remaining = (if rl_maxReq m > 0 then rl_maxReq m - int (length w) - 1 else 0)\<rparr>"
  using assms by (auto simp: MemoryRateLimiter_Check_def Let_def over_limit_def reject_of_def cong: list.case_cong)

text \<open>
  \<^verbatim>\<open>Check\<close> panics exactly when the identity's window is empty and the token estimate of the
  request alone exceeds \<^verbatim>\<open>maxTok\<close>: the token branch reads the oldest entry of a window that has
  none. In every other case it returns a decision.
\<close>

theorem rate_limit_panic_iff:
  "fst (MemoryRateLimiter_Check now i tok m) = None \<longleftrightarrow>
     0 < rl_maxTok m \<and> rl_maxTok m < tok \<and>
     purge (getOrCreate (windowKey i) m) (now - rl_windowDur m) = []"
proof (cases "rl_maxReq m = 0 \<and> rl_maxTok m = 0")
  case True
  then show ?thesis by (simp add: MemoryRateLimiter_Check_def)
next
  case False
  let ?w = "purge (getOrCreate (windowKey i) m) (now - rl_windowDur m)"
  show ?thesis
  proof (cases "over_limit tok m ?w")
    case True
    then show ?thesis
      using Check_decision(1) [OF False refl True]
      by (cases ?w) (auto simp: reject_of_def over_limit_def sumTokens_def)
  next
    case nover: False
    then show ?thesis
      using Check_decision(2) [OF False refl nover] by (auto simp: over_limit_def sumTokens_def)
  qed
qed

lemma purge_Cons_keep: "cutoff \<le> we_at e \<Longrightarrow> purge (e # w) cutoff = e # w"
  by (simp add: purge_def)

lemma purge_idem_later: "purge w c = e # v \<Longrightarrow> purge (purge w c) (we_at e) = purge w c"
  by (simp add: purge_Cons_keep)

lemma Check_reject_window:
  assumes "MemoryRateLimiter_Check now i tok m = (Some d, m')" "\<not> Allowed d"
  obtains e v where "getOrCreate (windowKey i) m' = e # v" "over_limit tok m' (e # v)"
    "RetryAfter d = rl_windowDur m' - (now - we_at e)"
    "rl_maxReq m' = rl_maxReq m" "rl_maxTok m' = rl_maxTok m" "rl_windowDur m' = rl_windowDur m"
    "purge (getOrCreate (windowKey i) m) (now - rl_windowDur m) = e # v"
  using assms
  by (auto simp: MemoryRateLimiter_Check_def Let_def over_limit_def getOrCreate_def
      split: if_splits list.splits)

text \<open>
  The delay a rejected caller is told is one tick short: a caller that comes back after
  exactly \<^verbatim>\<open>RetryAfter\<close>, with nothing recorded in between, is rejected again with a delay of 0;
  one nanosecond later the oldest entry has left the window, and when the request limit alone
  was reached the caller is admitted.
\<close>

theorem rate_limit_retry_after:
  assumes rej: "MemoryRateLimiter_Check now i tok m = (Some d, m')" "\<not> Allowed d"
  shows "fst (MemoryRateLimiter_Check (now + RetryAfter d) i tok m') =
      Some \<lparr>Allowed = False, RetryAfter = 0, Remaining = 0\<rparr> \<and>
    (rl_maxTok m = 0 \<and> int (length (getOrCreate (windowKey i) m')) = rl_maxReq m \<longrightarrow>
      (\<exists>d'. fst (MemoryRateLimiter_Check (now + RetryAfter d + 1) i tok m') = Some d' \<and> Allowed d'))"
proof (intro conjI impI)
  from rej obtain e v where w: "getOrCreate (windowKey i) m' = e # v" "over_limit tok m' (e # v)"
    and ra: "RetryAfter d = rl_windowDur m' - (now - we_at e)"
    and lim: "rl_maxReq m' = rl_maxReq m" "rl_maxTok m' = rl_maxTok m"
    by (rule Check_reject_window)
  have nz: "\<not> (rl_maxReq m' = 0 \<and> rl_maxTok m' = 0)"
    using w(2) by (auto simp: over_limit_def)
  have "purge (e # v) (now + RetryAfter d - rl_windowDur m') = e # v"
    by (rule purge_Cons_keep) (simp add: ra)
  then show "fst (MemoryRateLimiter_Check (now + RetryAfter d) i tok m') =
      Some \<lparr>Allowed = False, RetryAfter = 0, Remaining = 0\<rparr>"
    using Check_decision(1) [OF nz refl, of tok i "now + RetryAfter d"] w
    by (simp add: reject_of_def ra)
  assume "rl_maxTok m = 0 \<and> int (length (getOrCreate (windowKey i) m')) = rl_maxReq m"
  then have maxTok: "rl_maxTok m = 0" and len: "int (length (getOrCreate (windowKey i) m')) = rl_maxReq m"
    by simp_all
  let ?w = "purge (e # v) (now + RetryAfter d + 1 - rl_windowDur m')"
  have "?w = purge v (now + RetryAfter d + 1 - rl_windowDur m')"
    by (simp add: purge_def ra)
  then have "length ?w < length (e # v)"
    using purge_length [of v] by (simp add: le_imp_less_Suc)
  then have "\<not> over_limit tok m' ?w"
    using len maxTok lim w(1) by (simp add: over_limit_def)
  then show "\<exists>d'. fst (MemoryRateLimiter_Check (now + RetryAfter d + 1) i tok m') = Some d' \<and> Allowed d'"
    using Check_decision(2) [OF nz refl, of tok i "now + RetryAfter d + 1"] w(1) by simp
qed

theorem rate_limit_retry_after_witness:
  defines "i \<equiv> \<lparr>TenantID = ''acme'', TeamID = [], UserID = ''u1'', UseCaseID = []\<rparr>"
  defines "m \<equiv> MemoryRateLimiter_Record 10 i 0 (NewMemoryRateLimiter 1 0 Second)"
  shows "fst (MemoryRateLimiter_Check 15 i 0 m) =
      Some \<lparr>Allowed = False, RetryAfter = Second - 5, Remaining = 0\<rparr> \<and>
    fst (MemoryRateLimiter_Check (Second + 10) i 0 m) =
      Some \<lparr>Allowed = False, RetryAfter = 0, Remaining = 0\<rparr> \<and>
    (\<exists>d. fst (MemoryRateLimiter_Check (Second + 11) i 0 m) = Some d \<and> Allowed d)"
proof -
  have "windowKey i = ''acme:u1:''" by (simp add: i_def windowKey_def)
  then have rej: "MemoryRateLimiter_Check 15 i 0 m =
      (Some \<lparr>Allowed = False, RetryAfter = Second - 5, Remaining = 0\<rparr>, m)"
    by (simp add: m_def MemoryRateLimiter_Check_def MemoryRateLimiter_Record_def
        NewMemoryRateLimiter_def getOrCreate_def purge_def Let_def Second_def)
  have "rl_maxTok m = 0 \<and> int (length (getOrCreate (windowKey i) m)) = rl_maxReq m"
    by (simp add: m_def MemoryRateLimiter_Record_def NewMemoryRateLimiter_def getOrCreate_def
        purge_def Let_def)
  with rate_limit_retry_after [OF rej] rej show ?thesis
    by (simp add: add.commute)
qed

section \<open>Window keys\<close>

text \<open>
  The key joins tenant, user and use case with colons and does not escape them: it tells
  identities apart when tenant and user contain no colon, and not otherwise.
\<close>

lemma windowKey_eq_iff:
  assumes "CHR '':'' \<notin> set (TenantID i)" "CHR '':'' \<notin> set (TenantID j)"
    "CHR '':'' \<notin> set (UserID i)" "CHR '':'' \<notin> set (UserID j)"
  shows "windowKey i = windowKey j \<longleftrightarrow>
    TenantID i = TenantID j \<and> UserID i = UserID j \<and> UseCaseID i = UseCaseID j"
  using assms by (simp add: windowKey_def append_sep_cancel)

lemma Check_cong_window:
  assumes "getOrCreate (windowKey i) m = getOrCreate (windowKey i) m'" "rl_maxReq m = rl_maxReq m'"
    "rl_maxTok m = rl_maxTok m'" "rl_windowDur m = rl_windowDur m'"
  shows "fst (MemoryRateLimiter_Check now i tok m) = fst (MemoryRateLimiter_Check now i tok m')"
  using assms by (simp add: MemoryRateLimiter_Check_def Let_def cong: list.case_cong)

text \<open>
  Callers do not spend each other's quota: with no colon in tenant and user names, a call
  recorded for one caller changes no decision about a caller with another tenant, user or use
  case, at any time and for any cost.
\<close>

theorem rate_limit_isolated:
  assumes "CHR '':'' \<notin> set (TenantID i)" "CHR '':'' \<notin> set (TenantID j)"
    "CHR '':'' \<notin> set (UserID i)" "CHR '':'' \<notin> set (UserID j)"
    and "(TenantID i, UserID i, UseCaseID i) \<noteq> (TenantID j, UserID j, UseCaseID j)"
  shows "fst (MemoryRateLimiter_Check now j tok (MemoryRateLimiter_Record t i k m)) =
    fst (MemoryRateLimiter_Check now j tok m)"
proof (rule Check_cong_window)
  have "windowKey i \<noteq> windowKey j" using windowKey_eq_iff [OF assms(1-4)] assms(5) by simp
  then show "getOrCreate (windowKey j) (MemoryRateLimiter_Record t i k m) = getOrCreate (windowKey j) m"
    by (simp add: limiter_simps)
qed (simp_all add: limiter_simps MemoryRateLimiter_Record_def Let_def)

theorem rate_limit_isolated_witness:
  "fst (MemoryRateLimiter_Check 9 \<lparr>TenantID = ''b'', TeamID = [], UserID = [], UseCaseID = []\<rparr> 0
      (MemoryRateLimiter_Record 5 \<lparr>TenantID = ''a'', TeamID = [], UserID = [], UseCaseID = []\<rparr> 7
        (NewMemoryRateLimiter 1 0 Second))) =
    Some \<lparr>Allowed = True, RetryAfter = 0, Remaining = 0\<rparr>"
  by (subst rate_limit_isolated)
    (simp_all add: MemoryRateLimiter_Check_def NewMemoryRateLimiter_def getOrCreate_def purge_def Let_def)

lemma windowKey_collision:
  "windowKey \<lparr>TenantID = ''a'', TeamID = t, UserID = ''b:c'', UseCaseID = u\<rparr> =
   windowKey \<lparr>TenantID = ''a:b'', TeamID = t', UserID = ''c'', UseCaseID = u\<rparr>"
  by (simp add: windowKey_def)

end
