(* ===== verification/Session.thy ===== *)
theory Session
  imports Catalog RateLimit ResponseCache
begin

text \<open>
  Conversation sessions: the store and its journal (\<^verbatim>\<open>internal/domain/session\<close>) and the HTTP
  middleware that injects history and records turns (\<^verbatim>\<open>internal/ingress/session_middleware.go\<close>,
  \<^verbatim>\<open>session_stream_capture.go\<close>). A captured event stream is the list of its lines, each already
  classified the way the capture's parser does.
\<close>

section \<open>Store\<close>

record sessionEntry =
  se_messages :: "Message list"
  se_expiresAt :: "time option"

record MemorySessionStore =
  ss_sessions :: "(string, sessionEntry) gomap"
  ss_ttl :: duration
  ss_maxTurns :: int

definition NewMemorySessionStore :: "duration \<Rightarrow> int \<Rightarrow> MemorySessionStore" where
  "NewMemorySessionStore ttl maxTurns = \<lparr>ss_sessions = Map.empty, ss_ttl = ttl, ss_maxTurns = maxTurns\<rparr>"

definition Session_Get :: "time \<Rightarrow> string \<Rightarrow> MemorySessionStore \<Rightarrow> Message list option \<times> MemorySessionStore" where
  "Session_Get now key s = (case ss_sessions s key of
      None \<Rightarrow> (None, s)
    | Some e \<Rightarrow>
        if expired (se_expiresAt e) now then (None, s\<lparr>ss_sessions := gomap_delete key (ss_sessions s)\<rparr>)
        else (Some (se_messages e), s))"

definition keep_last_turns :: "int \<Rightarrow> Message list \<Rightarrow> Message list" where
  "keep_last_turns maxTurns msgs =
     (if maxTurns > 0 then
        let mx = maxTurns * 2 in
        if int (length msgs) > mx then drop (length msgs - nat mx) msgs else msgs
      else msgs)"

definition Session_Append :: "time \<Rightarrow> string \<Rightarrow> Message \<Rightarrow> Message \<Rightarrow> MemorySessionStore \<Rightarrow> MemorySessionStore" where
  "Session_Append now key user assistant s =
     (let e = (case ss_sessions s key of None \<Rightarrow> \<lparr>se_messages = [], se_expiresAt = None\<rparr> | Some e \<Rightarrow> e);
          e = e\<lparr>se_messages := keep_last_turns (ss_maxTurns s) (se_messages e @ [user, assistant])\<rparr>;
          e = (if ss_ttl s > 0 then e\<lparr>se_expiresAt := Some (now + ss_ttl s)\<rparr> else e)
      in s\<lparr>ss_sessions := (ss_sessions s)(key \<mapsto> e)\<rparr>)"

definition Session_Delete :: "string \<Rightarrow> MemorySessionStore \<Rightarrow> MemorySessionStore" where
  "Session_Delete key s = s\<lparr>ss_sessions := gomap_delete key (ss_sessions s)\<rparr>"

text \<open>One tick of the collector goroutine: deleting during the iteration removes every expired entry.\<close>

definition Session_gc :: "time \<Rightarrow> MemorySessionStore \<Rightarrow> MemorySessionStore" where
  "Session_gc now s = s\<lparr>ss_sessions := (\<lambda>k. case ss_sessions s k of
      None \<Rightarrow> None
    | Some e \<Rightarrow> if expired (se_expiresAt e) now then None else Some e)\<rparr>"

section \<open>Journal\<close>

record session_delta =
  sd_Key :: string
  sd_Msgs :: "Message list"
  sd_ExpiresAt :: "time option"

record liveSession =
  ls_msgs :: "Message list"
  ls_expiresAt :: "time option"

record PersistentSessionStore =
  pss_memory :: MemorySessionStore
  pss_file :: bool

definition accumulate_delta :: "(string, liveSession) gomap \<Rightarrow> session_delta option \<Rightarrow> (string, liveSession) gomap" where
  "accumulate_delta acc l = (case l of
      None \<Rightarrow> acc
    | Some e \<Rightarrow>
        (let a = (case acc (sd_Key e) of None \<Rightarrow> \<lparr>ls_msgs = [], ls_expiresAt = None\<rparr> | Some a \<Rightarrow> a)
         in acc(sd_Key e \<mapsto> \<lparr>ls_msgs = ls_msgs a @ sd_Msgs e, ls_expiresAt = sd_ExpiresAt e\<rparr>)))"

definition live_sessions :: "time \<Rightarrow> int \<Rightarrow> (string, liveSession) gomap \<Rightarrow> (string, liveSession) gomap" where
  "live_sessions now maxTurns acc = (\<lambda>k. case acc k of
      None \<Rightarrow> None
    | Some a \<Rightarrow> if expired (ls_expiresAt a) now then None
                else Some (a\<lparr>ls_msgs := keep_last_turns maxTurns (ls_msgs a)\<rparr>))"

definition compact_lines :: "string list \<Rightarrow> (string, liveSession) gomap \<Rightarrow> session_delta option list" where
  "compact_lines ord live = map (\<lambda>k. case live k of
      None \<Rightarrow> None
    | Some a \<Rightarrow> Some \<lparr>sd_Key = k, sd_Msgs = ls_msgs a, sd_ExpiresAt = ls_expiresAt a\<rparr>) ord"

text \<open>Replay loads the surviving sessions and rewrites the file when it has more lines than them.\<close>

definition Session_replayJournal :: "time \<Rightarrow> string list \<Rightarrow> session_delta option list \<Rightarrow> MemorySessionStore \<Rightarrow>
    MemorySessionStore \<times> session_delta option list" where
  "Session_replayJournal now ord lines s =
     (let acc = foldl accumulate_delta Map.empty lines;
          live = live_sessions now (ss_maxTurns s) acc
      in (s\<lparr>ss_sessions := (\<lambda>k. case live k of
               None \<Rightarrow> ss_sessions s k
             | Some a \<Rightarrow> Some \<lparr>se_messages = ls_msgs a, se_expiresAt = ls_expiresAt a\<rparr>)\<rparr>,
          if length lines > gomap_len live then compact_lines ord live else lines))"

definition PersistentSession_Append :: "time \<Rightarrow> time \<Rightarrow> string \<Rightarrow> Message \<Rightarrow> Message \<Rightarrow> PersistentSessionStore \<Rightarrow>
    session_delta list \<times> PersistentSessionStore" where
  "PersistentSession_Append now now' key user assistant ps =
     (if pss_file ps then [\<lparr>sd_Key = key, sd_Msgs = [user, assistant],
        sd_ExpiresAt = (if ss_ttl (pss_memory ps) > 0 then Some (now' + ss_ttl (pss_memory ps)) else None)\<rparr>] else [],
      ps\<lparr>pss_memory := Session_Append now key user assistant (pss_memory ps)\<rparr>)"

section \<open>Middleware\<close>

definition contextHeadroom :: float64 where
  "contextHeadroom = 80 / 100"

definition estimateTokens :: "Message list \<Rightarrow> int" where
  "estimateTokens messages = foldl (\<lambda>total m. total + (int (length (msg_Content m)) div 4 + 4)) 0 messages"

fun trim_loop :: "int \<Rightarrow> Message list \<Rightarrow> Message list" where
  "trim_loop available history =
     (if estimateTokens history > available then
        (case history of _ # _ # rest \<Rightarrow> trim_loop available rest | _ \<Rightarrow> [])
      else history)"

declare trim_loop.simps [simp del]

definition trimToContextWindow :: "Message list \<Rightarrow> Message list \<Rightarrow> string \<Rightarrow> Message list" where
  "trimToContextWindow history incoming model =
     (if history = [] then history
      else let window = ContextWindowFor model;
               budget = go_trunc (real_of_int window * contextHeadroom);
               available = budget - estimateTokens incoming
           in if available \<le> 0 then [] else trim_loop available history)"

definition lastUserMessage :: "Message list \<Rightarrow> nat \<Rightarrow> Message" where
  "lastUserMessage messages historyLen =
     (case find (\<lambda>m. msg_Role m = ''user'') (rev (drop historyLen messages)) of
        Some m \<Rightarrow> m
      | None \<Rightarrow> text_message ''user'' [])"

text \<open>A captured line: not a data line, the end marker, unparsable, or a chunk with its first choice.\<close>

datatype sse_line = OtherLine | DoneLine | BadChunk | ChunkLine "(string \<times> ToolCall list) option"

definition sse_step :: "Message \<times> bool \<Rightarrow> sse_line \<Rightarrow> Message \<times> bool" where
  "sse_step st l = (case l of
      ChunkLine (Some (content, tcs)) \<Rightarrow>
        (let (m, found) = st;
             (m, found) = (if content \<noteq> [] then (m\<lparr>msg_Content := msg_Content m @ content\<rparr>, True) else (m, found))
         in if tcs \<noteq> [] then (m\<lparr>msg_ToolCalls := tcs\<rparr>, True) else (m, found))
    | _ \<Rightarrow> st)"

definition parseSSEAssistantTurn :: "sse_line list \<Rightarrow> Message \<times> bool" where
  "parseSSEAssistantTurn ls = foldl sse_step (text_message ''assistant'' [], False) ls"

definition sessionKey :: "Identity \<Rightarrow> string \<Rightarrow> string" where
  "sessionKey i sessionID = TenantID i @ '':'' @ sessionID"

text \<open>
  The request as the middleware passes it on: the history that fits, then the caller's messages,
  and how many of them are history.
\<close>

definition Session_inject :: "time \<Rightarrow> string \<Rightarrow> RequestEnvelope \<Rightarrow> MemorySessionStore \<Rightarrow>
    RequestEnvelope \<times> nat \<times> MemorySessionStore" where
  "Session_inject now key req s =
     (case Session_Get now key s of (h, s) \<Rightarrow>
        let history = trimToContextWindow (case h of None \<Rightarrow> [] | Some h \<Rightarrow> h) (req_Messages req) (req_Model req)
        in (req\<lparr>req_Messages := history @ req_Messages req\<rparr>, length history, s))"

text \<open>What the handler wrote, read as the SSE lines of a stream and as a recorded status and body.\<close>

record session_outcome =
  out_lines :: "sse_line list"
  out_recorded :: recorded

definition Session_persist :: "time \<Rightarrow> string \<Rightarrow> RequestEnvelope \<Rightarrow> nat \<Rightarrow> session_outcome \<Rightarrow> MemorySessionStore \<Rightarrow> MemorySessionStore" where
  "Session_persist now key req historyLen out s =
     (if req_Stream req then
        (case parseSSEAssistantTurn (out_lines out) of
           (turn, True) \<Rightarrow> Session_Append now key (lastUserMessage (req_Messages req) historyLen) turn s
         | (_, False) \<Rightarrow> s)
      else if rec_status (out_recorded out) = 200 then
        (case rec_body (out_recorded out) of
           JsonBody resp \<Rightarrow>
             (case resp_Choices resp of
                [] \<Rightarrow> s
              | c # _ \<Rightarrow>
                  let turn = ch_Message c;
                      turn = (if msg_Role turn = [] then turn\<lparr>msg_Role := ''assistant''\<rparr> else turn)
                  in Session_Append now key (lastUserMessage (req_Messages req) historyLen) turn s)
         | _ \<Rightarrow> s)
      else s)"

definition SessionMiddleware_ServeHTTP ::
    "time \<Rightarrow> time \<Rightarrow> string \<Rightarrow> string \<Rightarrow> bool \<Rightarrow> Identity \<Rightarrow> RequestEnvelope option \<Rightarrow>
     (RequestEnvelope option \<Rightarrow> nat \<Rightarrow> 'w \<Rightarrow> session_outcome \<times> 'w) \<Rightarrow> MemorySessionStore \<Rightarrow> 'w \<Rightarrow>
     string option \<times> session_outcome \<times> MemorySessionStore \<times> 'w" where
  "SessionMiddleware_ServeHTTP now now' freshID headerID reset ident decoded handler s w =
     (let sessionID = (if headerID = [] then freshID else headerID);
          key = sessionKey ident sessionID;
          s = (if reset then Session_Delete key s else s)
      in case decoded of
           None \<Rightarrow> (case handler None 0 w of (out, w) \<Rightarrow> (None, out, s, w))
         | Some req \<Rightarrow>
             (case Session_inject now key req s of (req', historyLen, s) \<Rightarrow>
               (case handler (Some req') historyLen w of (out, w) \<Rightarrow>
                 (Some sessionID, out, Session_persist now' key req' historyLen out s, w))))"

section \<open>Keeping the last turns\<close>

lemma keep_last_eq: "0 < n \<Longrightarrow> keep_last_turns n xs = drop (length xs - nat (n * 2)) xs"
  by (auto simp: keep_last_turns_def Let_def)

lemma keep_last_length: "0 < n \<Longrightarrow> int (length (keep_last_turns n xs)) \<le> n * 2"
  by (simp add: keep_last_eq)

lemma keep_last_short: "int (length xs) \<le> n * 2 \<Longrightarrow> keep_last_turns n xs = xs"
  by (simp add: keep_last_turns_def)

lemma keep_last_even: "even (length xs) \<Longrightarrow> even (length (keep_last_turns n xs))"
  by (simp add: keep_last_turns_def Let_def nat_mult_distrib)

lemma keep_last_keep: "keep_last_turns n (keep_last_turns n xs @ ys) = keep_last_turns n (xs @ ys)"
proof (cases "0 < n")
  case True
  let ?N = "nat (n * 2)"
  show ?thesis
  proof (cases "length xs \<le> ?N")
    case False
    then have "length xs - ?N \<le> length xs" by simp
    then have "drop (length xs - ?N) xs @ ys = drop (length xs - ?N) (xs @ ys)" by simp
    with False True show ?thesis by (simp add: keep_last_eq add.commute)
  qed (simp add: keep_last_eq True)
qed (simp add: keep_last_turns_def)

lemma keep_last_idem: "keep_last_turns n (keep_last_turns n xs) = keep_last_turns n xs"
  using keep_last_keep [of n xs "[]"] by simp

section \<open>Invariant\<close>

datatype session_op = SGet time string | SAppend time string Message Message | SDelete string | SGc time

fun session_step :: "MemorySessionStore \<Rightarrow> session_op \<Rightarrow> MemorySessionStore" where
  "session_step s (SGet now k) = snd (Session_Get now k s)"
| "session_step s (SAppend now k u a) = Session_Append now k u a s"
| "session_step s (SDelete k) = Session_Delete k s"
| "session_step s (SGc now) = Session_gc now s"

lemma Append_entry:
  "ss_sessions (Session_Append now k u a s) k = Some
     \<lparr>se_messages = keep_last_turns (ss_maxTurns s)
        ((case ss_sessions s k of None \<Rightarrow> [] | Some e \<Rightarrow> se_messages e) @ [u, a]),
      se_expiresAt = (if ss_ttl s > 0 then Some (now + ss_ttl s)
        else (case ss_sessions s k of None \<Rightarrow> None | Some e \<Rightarrow> se_expiresAt e))\<rparr>"
  by (auto simp: Session_Append_def Let_def split: option.splits)

lemma Append_other: "j \<noteq> k \<Longrightarrow> ss_sessions (Session_Append now k u a s) j = ss_sessions s j"
  by (simp add: Session_Append_def Let_def)

definition session_entry_ok :: "duration \<Rightarrow> int \<Rightarrow> sessionEntry \<Rightarrow> bool" where
  "session_entry_ok ttl n e \<longleftrightarrow> even (length (se_messages e)) \<and>
     (0 < n \<longrightarrow> int (length (se_messages e)) \<le> n * 2) \<and> (0 < ttl \<longleftrightarrow> se_expiresAt e \<noteq> None)"

definition session_inv :: "duration \<Rightarrow> int \<Rightarrow> MemorySessionStore \<Rightarrow> bool" where
  "session_inv ttl n s \<longleftrightarrow> ss_ttl s = ttl \<and> ss_maxTurns s = n \<and>
     (\<forall>k e. ss_sessions s k = Some e \<longrightarrow> session_entry_ok ttl n e)"

lemma session_inv_Append:
  assumes "session_inv ttl n s"
  shows "session_inv ttl n (Session_Append now k u a s)"
proof -
  have "session_entry_ok ttl n e" if "ss_sessions (Session_Append now k u a s) j = Some e" for j e
  proof (cases "j = k")
    case True
    with that assms show ?thesis
      by (auto simp: Append_entry session_inv_def session_entry_ok_def keep_last_length
          intro!: keep_last_even split: option.splits if_splits)
  next
    case False
    with that assms show ?thesis by (simp add: Append_other session_inv_def)
  qed
  moreover have "ss_ttl (Session_Append now k u a s) = ss_ttl s" "ss_maxTurns (Session_Append now k u a s) = ss_maxTurns s"
    by (simp_all add: Session_Append_def Let_def)
  ultimately show ?thesis using assms by (simp add: session_inv_def)
qed

lemma session_inv_shrink:
  "session_inv ttl n s \<Longrightarrow> (\<And>k. m k = ss_sessions s k \<or> m k = None) \<Longrightarrow> session_inv ttl n (s\<lparr>ss_sessions := m\<rparr>)"
  unfolding session_inv_def by simp (metis option.distinct(1))

lemma session_inv_step: "session_inv ttl n s \<Longrightarrow> session_inv ttl n (session_step s op)"
proof (cases op)
  case (SGet now k)
  assume "session_inv ttl n s"
  then show ?thesis using SGet by (auto simp: Session_Get_def split: option.splits if_splits intro!: session_inv_shrink)
qed (auto simp: session_inv_Append Session_Delete_def Session_gc_def split: option.splits if_splits intro!: session_inv_shrink)

interpretation session_run: invariant_run session_step "session_inv ttl n" for ttl n
  by unfold_locales (rule session_inv_step)

lemma session_inv_new: "session_inv ttl n (NewMemorySessionStore ttl n)"
  by (simp add: session_inv_def NewMemorySessionStore_def)

text \<open>
  Sessions stay whole and bounded: after any operations every session holds complete
  user and assistant pairs, at most \<^verbatim>\<open>maxTurns\<close> of them when a limit is set, and the turn appended
  next is served, at the end of the history it extends, for as long as it is fresh.
\<close>

theorem session_history_ok:
  defines "st ttl n ops \<equiv> foldl session_step (NewMemorySessionStore ttl n) ops"
  shows "(case fst (Session_Get now k (st ttl n ops)) of None \<Rightarrow> True
      | Some h \<Rightarrow> even (length h) \<and> (n \<le> 0 \<or> int (length h) \<le> n * 2)) \<and>
    fst (Session_Get now' k (Session_Append now k u a (st ttl n ops))) =
      (if 0 < ttl \<and> now + ttl < now' then None
       else Some (keep_last_turns n ((case ss_sessions (st ttl n ops) k of None \<Rightarrow> [] | Some e \<Rightarrow> se_messages e) @ [u, a])))"
proof -
  have inv: "session_inv ttl n (st ttl n ops)"
    unfolding st_def by (rule session_run.run_inv [OF session_inv_new])
  then have ok: "ss_sessions (st ttl n ops) k = Some e \<Longrightarrow> session_entry_ok ttl n e" for e
    by (simp add: session_inv_def)
  from inv have "ss_ttl (st ttl n ops) = ttl" "ss_maxTurns (st ttl n ops) = n"
    by (simp_all add: session_inv_def)
  then show ?thesis
    by (cases "ss_sessions (st ttl n ops) k")
      (auto simp: Session_Get_def Append_entry session_entry_ok_def dest!: ok)
qed

text \<open>
  Appending to an expired session revives it: its old messages are not dropped but served
  again, in front of the new turn, with a fresh expiry.
\<close>

theorem session_append_revives_expired:
  assumes "ss_sessions s k = Some e" "expired (se_expiresAt e) now" "0 < ss_ttl s"
  shows "fst (Session_Get now k (Session_Append now k u a s)) =
    Some (keep_last_turns (ss_maxTurns s) (se_messages e @ [u, a]))"
  using assms by (simp add: Session_Get_def Append_entry)

theorem session_append_revives_expired_witness:
  defines "u \<equiv> text_message ''user'' ''hi''" and "a \<equiv> text_message ''assistant'' ''yo''"
  defines "s \<equiv> Session_Append 0 ''t:1'' u a (NewMemorySessionStore 10 5)"
  shows "fst (Session_Get 100 ''t:1'' (Session_Append 100 ''t:1'' u a s)) = Some [u, a, u, a]"
  using session_append_revives_expired [of s "''t:1''" "\<lparr>se_messages = [u, a], se_expiresAt = Some 10\<rparr>" 100 u a]
  by (simp add: s_def NewMemorySessionStore_def Session_Append_def keep_last_turns_def Let_def)

section \<open>Restart\<close>

text \<open>Applying a journal line to the store, trimming as the store does.\<close>

definition session_apply :: "int \<Rightarrow> (string, sessionEntry) gomap \<Rightarrow> session_delta \<Rightarrow> (string, sessionEntry) gomap" where
  "session_apply n m d = m(sd_Key d \<mapsto>
     \<lparr>se_messages = keep_last_turns n ((case m (sd_Key d) of None \<Rightarrow> [] | Some e \<Rightarrow> se_messages e) @ sd_Msgs d),
      se_expiresAt = sd_ExpiresAt d\<rparr>)"

text \<open>The replay accumulates whole histories and trims once, with the same result.\<close>

definition trimmed :: "int \<Rightarrow> liveSession \<Rightarrow> sessionEntry" where
  "trimmed n a = \<lparr>se_messages = keep_last_turns n (ls_msgs a), se_expiresAt = ls_expiresAt a\<rparr>"

definition trim_map :: "int \<Rightarrow> (string, liveSession) gomap \<Rightarrow> (string, sessionEntry) gomap" where
  "trim_map n acc = (\<lambda>k. map_option (trimmed n) (acc k))"

lemma accumulate_apply: "trim_map n (accumulate_delta acc (Some d)) = session_apply n (trim_map n acc) d"
  by (auto simp: trim_map_def accumulate_delta_def session_apply_def trimmed_def fun_eq_iff keep_last_keep Let_def
      split: option.splits)

lemma accumulate_all_apply:
  "trim_map n (foldl accumulate_delta acc (map Some ds)) = foldl (session_apply n) (trim_map n acc) ds"
  by (induction ds arbitrary: acc) (simp_all add: accumulate_apply)

lemma replay_sessions:
  "ss_sessions (fst (Session_replayJournal now ord lines (NewMemorySessionStore ttl n))) k =
     (case foldl accumulate_delta Map.empty lines k of None \<Rightarrow> None
      | Some a \<Rightarrow> if expired (ls_expiresAt a) now then None else Some (trimmed n a))"
  by (simp add: Session_replayJournal_def NewMemorySessionStore_def live_sessions_def trimmed_def Let_def split: option.splits)

text \<open>Appends through the persistent store, each with one clock reading.\<close>

definition pappend :: "PersistentSessionStore \<Rightarrow> time \<times> string \<times> Message \<times> Message \<Rightarrow> PersistentSessionStore" where
  "pappend ps op = (case op of (now, k, u, a) \<Rightarrow> snd (PersistentSession_Append now now k u a ps))"

definition pappend_emits :: "PersistentSessionStore \<Rightarrow> time \<times> string \<times> Message \<times> Message \<Rightarrow> session_delta list" where
  "pappend_emits ps op = (case op of (now, k, u, a) \<Rightarrow> fst (PersistentSession_Append now now k u a ps))"

definition pss_ok :: "duration \<Rightarrow> int \<Rightarrow> PersistentSessionStore \<Rightarrow> bool" where
  "pss_ok ttl n ps \<longleftrightarrow> pss_file ps \<and> session_inv ttl n (pss_memory ps)"

interpretation session_journal: journaled pappend pappend_emits "session_apply n"
    "\<lambda>ps. ss_sessions (pss_memory ps)" "pss_ok ttl n" for n ttl
proof unfold_locales
  fix ps op assume ok: "pss_ok ttl n ps"
  then show "pss_ok ttl n (pappend ps op)"
    by (auto simp: pss_ok_def pappend_def PersistentSession_Append_def session_inv_Append split: prod.splits)
  obtain now k u a where op: "op = (now, k, u, a)" by (metis prod.exhaust)
  from ok have "session_inv ttl n (pss_memory ps)" "pss_file ps" by (simp_all add: pss_ok_def)
  then show "ss_sessions (pss_memory (pappend ps op)) =
      foldl (session_apply n) (ss_sessions (pss_memory ps)) (pappend_emits ps op)"
    by (auto simp: op pappend_def pappend_emits_def PersistentSession_Append_def session_apply_def
        fun_eq_iff Append_entry Append_other session_inv_def session_entry_ok_def split: option.splits)
qed

text \<open>
  Appended turns survive a restart: replaying the journal written by any sequence of appends
  gives every session that has not expired exactly the messages and expiry the running store
  had, although the store trims at every append and the replay only once at the end.
\<close>

theorem session_restart:
  fixes ttl :: duration and n :: int
  defines "ps \<equiv> \<lparr>pss_memory = NewMemorySessionStore ttl n, pss_file = True\<rparr>"
  shows "ss_sessions (fst (Session_replayJournal now ord (map Some (run_journal pappend pappend_emits ps ops))
      (NewMemorySessionStore ttl n))) k =
    (case ss_sessions (pss_memory (foldl pappend ps ops)) k of
       None \<Rightarrow> None
     | Some e \<Rightarrow> if expired (se_expiresAt e) now then None else Some e)"
proof -
  let ?J = "run_journal pappend pappend_emits ps ops"
  have "pss_ok ttl n ps" by (simp add: ps_def pss_ok_def session_inv_new)
  from session_journal.replay_run [OF this, of ops]
  have run: "foldl (session_apply n) Map.empty ?J = ss_sessions (pss_memory (foldl pappend ps ops))"
    by (simp add: ps_def NewMemorySessionStore_def)
  have "trim_map n Map.empty = Map.empty" by (simp add: trim_map_def)
  then have "trim_map n (foldl accumulate_delta Map.empty (map Some ?J)) = ss_sessions (pss_memory (foldl pappend ps ops))"
    using accumulate_all_apply [of n Map.empty ?J] run by simp
  then have eq: "ss_sessions (pss_memory (foldl pappend ps ops)) k =
      map_option (trimmed n) (foldl accumulate_delta Map.empty (map Some ?J) k)"
    by (metis trim_map_def)
  show ?thesis
    by (cases "foldl accumulate_delta Map.empty (map Some ?J) k") (simp_all add: eq replay_sessions trimmed_def)
qed

lemma accumulate_compact:
  "distinct ord \<Longrightarrow> set ord \<subseteq> dom live \<Longrightarrow> (\<forall>k \<in> set ord. acc k = None) \<Longrightarrow>
   foldl accumulate_delta acc (compact_lines ord live) k = (if k \<in> set ord then live k else acc k)"
proof (induction ord arbitrary: acc)
  case (Cons j ord)
  from Cons.prems(2) obtain a where a: "live j = Some a" by auto
  have "foldl accumulate_delta acc (compact_lines (j # ord) live) k =
      foldl accumulate_delta (acc(j \<mapsto> a)) (compact_lines ord live) k"
    using Cons.prems(3) a by (cases a) (simp add: compact_lines_def accumulate_delta_def)
  also have "\<dots> = (if k \<in> set ord then live k else (acc(j \<mapsto> a)) k)"
    by (rule Cons.IH) (use Cons.prems in auto)
  finally show ?case using Cons.prems(1) a by auto
qed (simp add: compact_lines_def)

lemma live_sessions_later:
  "now \<le> now' \<Longrightarrow> live_sessions now' n (live_sessions now n acc) k = live_sessions now' n acc k"
  by (auto simp: live_sessions_def keep_last_idem split: option.splits dest: expired_mono)

text \<open>
  Compaction changes nothing: a start-up that rewrites the journal leaves a file from which
  every later start-up loads the same sessions as it would have from the original file, in
  whatever order the rewrite visited them.
\<close>

theorem session_compaction_transparent:
  assumes "iteration_order ord (live_sessions now n (foldl accumulate_delta Map.empty lines))" "now \<le> now'"
  shows "ss_sessions (fst (Session_replayJournal now' ord' (snd (Session_replayJournal now ord lines (NewMemorySessionStore ttl n)))
      (NewMemorySessionStore ttl n))) =
    ss_sessions (fst (Session_replayJournal now' ord' lines (NewMemorySessionStore ttl n)))"
proof (cases "length lines > gomap_len (live_sessions now n (foldl accumulate_delta Map.empty lines))")
  case True
  let ?live = "live_sessions now n (foldl accumulate_delta Map.empty lines)"
  have comp: "snd (Session_replayJournal now ord lines (NewMemorySessionStore ttl n)) = compact_lines ord ?live"
    using True by (simp add: Session_replayJournal_def NewMemorySessionStore_def Let_def)
  have "foldl accumulate_delta Map.empty (compact_lines ord ?live) k = ?live k" for k
    using accumulate_compact [of ord ?live Map.empty k] assms(1) by (auto simp: iteration_order_def)
  then have "foldl accumulate_delta Map.empty (compact_lines ord ?live) = ?live" by (rule ext)
  then show ?thesis
    using live_sessions_later [OF assms(2), of n "foldl accumulate_delta Map.empty lines"]
    by (simp add: comp Session_replayJournal_def NewMemorySessionStore_def Let_def)
qed (simp add: Session_replayJournal_def NewMemorySessionStore_def Let_def)

theorem session_compaction_transparent_witness:
  defines "d t \<equiv> Some \<lparr>sd_Key = ''a:1'', sd_Msgs = [text_message ''user'' ''x''], sd_ExpiresAt = Some t\<rparr>"
  shows "ss_sessions (fst (Session_replayJournal 6 [] (snd (Session_replayJournal 5 [''a:1''] [d 10, d 20]
      (NewMemorySessionStore 10 3))) (NewMemorySessionStore 10 3))) =
    ss_sessions (fst (Session_replayJournal 6 [] [d 10, d 20] (NewMemorySessionStore 10 3)))"
  by (rule session_compaction_transparent)
    (auto simp: d_def iteration_order_def live_sessions_def accumulate_delta_def split: if_splits)

text \<open>
  A reset does not survive a restart: deleting a session writes nothing to the journal, so a
  start-up while its last turn would still be fresh serves the deleted conversation again.
\<close>

theorem session_reset_undone_by_restart:
  assumes "pss_file ps" "ss_ttl (pss_memory ps) = ttl" "ttl \<le> 0 \<or> now \<le> t + ttl"
  shows "case PersistentSession_Append t t k u a ps of (J, ps') \<Rightarrow>
    fst (Session_Get now k (Session_Delete k (pss_memory ps'))) = None \<and>
    fst (Session_Get now k (fst (Session_replayJournal now ord (map Some J) (NewMemorySessionStore ttl n)))) = Some [u, a]"
  using assms
  by (auto simp: PersistentSession_Append_def Session_Get_def Session_Delete_def Session_replayJournal_def
      NewMemorySessionStore_def live_sessions_def accumulate_delta_def keep_last_short keep_last_turns_def Let_def)

theorem session_reset_undone_by_restart_witness:
  defines "u \<equiv> text_message ''user'' ''hi''" and "a \<equiv> text_message ''assistant'' ''yo''"
  shows "fst (Session_Get 6 ''t:1'' (fst (Session_replayJournal 6 [] (map Some (fst (PersistentSession_Append 5 5 ''t:1'' u a
      \<lparr>pss_memory = NewMemorySessionStore 10 3, pss_file = True\<rparr>))) (NewMemorySessionStore 10 3)))) = Some [u, a]"
  using session_reset_undone_by_restart [of "\<lparr>pss_memory = NewMemorySessionStore 10 3, pss_file = True\<rparr>" 10 6 5,
      where k = "''t:1''" and u = u and a = a and ord = "[]" and n = 3]
  by (simp add: NewMemorySessionStore_def split: prod.splits)

section \<open>Middleware\<close>

lemma estimateTokens_acc: "foldl (\<lambda>t m. t + (int (length (msg_Content m)) div 4 + 4)) n ms = n + estimateTokens ms"
proof (induction ms arbitrary: n)
  case (Cons m ms)
  show ?case
    using Cons [of "n + (int (length (msg_Content m)) div 4 + 4)"] Cons [of "int (length (msg_Content m)) div 4 + 4"]
    by (simp add: estimateTokens_def)
qed (simp add: estimateTokens_def)

lemma estimateTokens_simps [simp]:
  "estimateTokens [] = 0"
  "estimateTokens (m # ms) = int (length (msg_Content m)) div 4 + 4 + estimateTokens ms"
  using estimateTokens_acc [of "int (length (msg_Content m)) div 4 + 4" ms] by (simp_all add: estimateTokens_def)

lemma estimateTokens_nonneg: "0 \<le> estimateTokens ms"
  by (induction ms) auto

lemma estimateTokens_pos: "ms \<noteq> [] \<Longrightarrow> 0 < estimateTokens ms"
  by (cases ms) (auto simp: estimateTokens_nonneg add_nonneg_pos add_pos_nonneg)

lemma trim_loop_spec:
  "0 \<le> av \<Longrightarrow> estimateTokens (trim_loop av h) \<le> av \<and>
   (\<exists>k. trim_loop av h = drop (2 * k) h \<and> (\<forall>j < k. av < estimateTokens (drop (2 * j) h)))"
proof (induction av h rule: trim_loop.induct)
  case (1 av h)
  show ?case
  proof (cases "estimateTokens h > av")
    case False
    then show ?thesis by (subst (1 2) trim_loop.simps) (auto intro!: exI [of _ 0])
  next
    case True
    show ?thesis
    proof (cases "length h < 2")
      case short: True
      then have "trim_loop av h = []"
        using True by (subst trim_loop.simps) (auto split: list.splits)
      moreover have "drop (2 * 1) h = []" using short by simp
      ultimately show ?thesis using True 1(2) by (auto intro!: exI [of _ 1])
    next
      case False
      then obtain x y rest where h: "h = x # y # rest" by (cases h rule: remdups_adj.cases) auto
      have step: "trim_loop av h = trim_loop av rest"
        using True by (subst trim_loop.simps) (simp add: h)
      from "1.IH" [OF True h refl 1(2)] obtain k where k: "estimateTokens (trim_loop av rest) \<le> av"
        "trim_loop av rest = drop (2 * k) rest" "\<forall>j < k. av < estimateTokens (drop (2 * j) rest)" by blast
      have "\<forall>j < Suc k. av < estimateTokens (drop (2 * j) h)"
      proof (intro allI impI)
        fix j assume "j < Suc k"
        with k(3) True show "av < estimateTokens (drop (2 * j) h)" by (cases j) (auto simp: h)
      qed
      moreover have "drop (2 * Suc k) h = drop (2 * k) rest" by (simp add: h)
      ultimately show ?thesis using k(1,2) step by metis
    qed
  qed
qed

text \<open>
  History is trimmed to fit and no further: what is injected is the stored history without
  its oldest pairs, together with the incoming messages it fits the model's token budget or it
  is empty, and no shorter cut would have fitted.
\<close>

theorem trimToContextWindow_fits:
  fixes model :: string
  defines "budget \<equiv> go_trunc (real_of_int (ContextWindowFor model) * contextHeadroom)"
  shows "(trimToContextWindow h inc model = [] \<or>
      estimateTokens (trimToContextWindow h inc model) + estimateTokens inc \<le> budget) \<and>
    (\<exists>k. trimToContextWindow h inc model = drop (2 * k) h \<and>
       list_all (\<lambda>j. budget < estimateTokens (drop (2 * j) h) + estimateTokens inc) [0..<k])"
proof (cases "h = [] \<or> budget - estimateTokens inc \<le> 0")
  case True
  then have r: "trimToContextWindow h inc model = []"
    by (auto simp: trimToContextWindow_def Let_def budget_def)
  let ?k = "(length h + 1) div 2"
  have "budget < estimateTokens (drop (2 * j) h) + estimateTokens inc" if "j < ?k" for j
  proof -
    from that have "drop (2 * j) h \<noteq> []" "h \<noteq> []" by auto
    with estimateTokens_pos [of "drop (2 * j) h"] True show ?thesis by auto
  qed
  moreover have "drop (2 * ?k) h = []" by simp
  ultimately show ?thesis unfolding r by (intro conjI disjI1 refl exI [of _ ?k]) (auto simp: list_all_iff)
next
  case False
  then have r: "trimToContextWindow h inc model = trim_loop (budget - estimateTokens inc) h"
    by (simp add: trimToContextWindow_def Let_def budget_def)
  from False trim_loop_spec [of "budget - estimateTokens inc" h] obtain k where
    "estimateTokens (trim_loop (budget - estimateTokens inc) h) \<le> budget - estimateTokens inc"
    "trim_loop (budget - estimateTokens inc) h = drop (2 * k) h"
    "\<forall>j < k. budget - estimateTokens inc < estimateTokens (drop (2 * j) h)" by auto
  then show ?thesis unfolding r
    by (intro conjI disjI2 exI [of _ k]) (auto simp: list_all_iff algebra_simps)
qed

lemma lastUserMessage_new: "lastUserMessage (h @ msgs) (length h) = lastUserMessage msgs 0"
  by (simp add: lastUserMessage_def)

lemma persist_other: "j \<noteq> k \<Longrightarrow> ss_sessions (Session_persist now k req n out s) j = ss_sessions s j"
  by (auto simp: Session_persist_def Append_other Let_def split: prod.splits bool.splits http_body.splits list.splits)

lemma Get_other: "j \<noteq> k \<Longrightarrow> ss_sessions (snd (Session_Get now k s)) j = ss_sessions s j"
  by (auto simp: Session_Get_def split: option.splits)

lemma inject_other: "Session_inject now k req s = (req', n, s') \<Longrightarrow> j \<noteq> k \<Longrightarrow> ss_sessions s' j = ss_sessions s j"
  using Get_other [of j k now s] by (auto simp: Session_inject_def Let_def split: prod.splits)

text \<open>
  Sessions do not cross tenants: with no colon in tenant names, a request of one tenant,
  whatever session id it sends, resets or not, and however it is answered, leaves every session
  of another tenant as it was.
\<close>

theorem session_tenant_isolated:
  assumes "CHR '':'' \<notin> set (TenantID i)" "CHR '':'' \<notin> set (TenantID j)" "TenantID i \<noteq> TenantID j"
    and "SessionMiddleware_ServeHTTP now now' fresh hdr reset i decoded handler s w = (echo, out, s', w')"
  shows "ss_sessions s' (sessionKey j sid) = ss_sessions s (sessionKey j sid)"
proof -
  let ?k = "sessionKey i (if hdr = [] then fresh else hdr)"
  have ne: "sessionKey j sid \<noteq> ?k"
    using assms(1-3) by (auto simp: sessionKey_def append_sep_cancel)
  obtain r1 n1 s1 where inj: "case decoded of Some req \<Rightarrow>
      Session_inject now ?k req (if reset then Session_Delete ?k s else s) = (r1, n1, s1) | None \<Rightarrow> True"
    by (cases decoded) (auto, metis surj_pair)
  have "ss_sessions (if reset then Session_Delete ?k s else s) (sessionKey j sid) = ss_sessions s (sessionKey j sid)"
    using ne by (simp add: Session_Delete_def)
  then show ?thesis
    using assms(4) ne inj
    by (cases decoded)
      (auto simp: SessionMiddleware_ServeHTTP_def Let_def persist_other inject_other split: prod.splits)
qed

theorem session_tenant_isolated_witness:
  defines "i \<equiv> \<lparr>TenantID = ''a'', TeamID = [], UserID = [], UseCaseID = []\<rparr>"
  defines "j \<equiv> \<lparr>TenantID = ''b'', TeamID = [], UserID = [], UseCaseID = []\<rparr>"
  defines "s \<equiv> Session_Append 1 (sessionKey j ''1'') (text_message ''user'' ''x'') (text_message ''assistant'' ''y'') (NewMemorySessionStore 0 0)"
  shows "\<exists>echo out s' w'. SessionMiddleware_ServeHTTP 2 3 ''f'' ''1'' True i None (\<lambda>r n w. (\<lparr>out_lines = [], out_recorded = \<lparr>rec_status = 400, rec_body = EmptyBody\<rparr>\<rparr>, w)) s () = (echo, out, s', w') \<and>
    ss_sessions s' (sessionKey j ''1'') = ss_sessions s (sessionKey j ''1'')"
proof -
  obtain echo out s' w' where run:
    "SessionMiddleware_ServeHTTP 2 3 ''f'' ''1'' True i None (\<lambda>r n w. (\<lparr>out_lines = [], out_recorded = \<lparr>rec_status = 400, rec_body = EmptyBody\<rparr>\<rparr>, w)) s () = (echo, out, s', w')"
    by (metis surj_pair)
  have "ss_sessions s' (sessionKey j ''1'') = ss_sessions s (sessionKey j ''1'')"
    by (rule session_tenant_isolated [OF _ _ _ run]) (simp_all add: i_def j_def)
  with run show ?thesis by blast
qed

text \<open>
  A successful turn is remembered: when the handler answers 200 with a choice, the session
  then holds its unexpired previous messages followed by the caller's own last user message (never one
  of the injected history) and the answer.
\<close>

theorem session_turn_recorded:
  assumes "SessionMiddleware_ServeHTTP now now' fresh hdr False i (Some req) handler s w = (echo, out, s', w')"
    and "hdr \<noteq> []" "\<not> req_Stream req" "rec_status (out_recorded out) = 200"
    and "rec_body (out_recorded out) = JsonBody resp" "resp_Choices resp = c # cs"
  shows "\<exists>old turn. old = (case fst (Session_Get now (sessionKey i hdr) s) of None \<Rightarrow> [] | Some h \<Rightarrow> h) \<and>
    turn = (if msg_Role (ch_Message c) = [] then (ch_Message c)\<lparr>msg_Role := ''assistant''\<rparr> else ch_Message c) \<and>
    map_option se_messages (ss_sessions s' (sessionKey i hdr)) =
      Some (keep_last_turns (ss_maxTurns s) (old @ [lastUserMessage (req_Messages req) 0, turn]))"
proof -
  let ?k = "sessionKey i hdr"
  let ?turn = "if msg_Role (ch_Message c) = [] then (ch_Message c)\<lparr>msg_Role := ''assistant''\<rparr> else ch_Message c"
  obtain h s1 where get: "Session_Get now ?k s = (h, s1)" by fastforce
  have s1: "ss_maxTurns s1 = ss_maxTurns s"
    "(case ss_sessions s1 ?k of None \<Rightarrow> [] | Some e \<Rightarrow> se_messages e) = (case h of None \<Rightarrow> [] | Some h \<Rightarrow> h)"
    using get by (auto simp: Session_Get_def split: option.splits if_splits)
  from assms get have "s' = Session_Append now' ?k (lastUserMessage (req_Messages req) 0) ?turn s1"
    by (auto simp: SessionMiddleware_ServeHTTP_def Session_inject_def Session_persist_def lastUserMessage_new Let_def
        split: prod.splits)
  then show ?thesis using get s1 by (simp add: Append_entry)
qed

theorem session_turn_recorded_witness:
  defines "i \<equiv> \<lparr>TenantID = ''a'', TeamID = [], UserID = [], UseCaseID = []\<rparr>"
  defines "s \<equiv> NewMemorySessionStore 0 10"
  defines "req \<equiv> zero_request\<lparr>req_Model := ''gpt-4o'', req_Messages := [text_message ''user'' ''hi'']\<rparr>"
  defines "c \<equiv> \<lparr>ch_Index = 0, ch_Message = text_message ''assistant'' ''yo'', ch_FinishReason = ''stop''\<rparr>"
  defines "ans \<equiv> \<lparr>out_lines = [], out_recorded = \<lparr>rec_status = 200, rec_body = JsonBody (zero_response\<lparr>resp_Choices := [c]\<rparr>)\<rparr>\<rparr>"
  shows "\<exists>echo out s' w'. SessionMiddleware_ServeHTTP 2 3 ''f'' ''1'' False i (Some req) (\<lambda>r n w. (ans, w)) s () = (echo, out, s', w') \<and>
    map_option se_messages (ss_sessions s' (sessionKey i ''1'')) = Some [text_message ''user'' ''hi'', text_message ''assistant'' ''yo'']"
proof -
  obtain echo out s' w' where run:
    "SessionMiddleware_ServeHTTP 2 3 ''f'' ''1'' False i (Some req) (\<lambda>r n w. (ans, w)) s () = (echo, out, s', w')"
    by (metis surj_pair)
  then have "out = ans"
    by (auto simp: SessionMiddleware_ServeHTTP_def Let_def split: prod.splits)
  from session_turn_recorded [OF run, of "zero_response\<lparr>resp_Choices := [c]\<rparr>" c "[]"] this
  have "map_option se_messages (ss_sessions s' (sessionKey i ''1'')) = Some [text_message ''user'' ''hi'', text_message ''assistant'' ''yo'']"
    by (simp add: ans_def s_def zero_request_def NewMemorySessionStore_def Session_Get_def c_def text_message_def req_def lastUserMessage_def keep_last_turns_def)
  with run show ?thesis by blast
qed

end
