(* ===== verification/UserMemory.thy ===== *)
theory UserMemory
  imports Schema
begin

text \<open>
  User memory: the bounded fact store with its journal (\<^verbatim>\<open>domain/memory/store.go\<close>), the
  extractors (\<^verbatim>\<open>extractor.go\<close>), the plugin that saves facts after a call, and the middleware and
  handler that read and delete them. \<^verbatim>\<open>sort.Slice\<close> on more than twelve elements is not stable, so
  the sort is an argument with its contract. The disk is the list of journal lines, \<open>None\<close> when
  the file does not exist, a line \<open>None\<close> when it does not parse.
\<close>

section \<open>Store\<close>

record Entry =
  me_ID :: string
  me_UserKey :: string
  me_Category :: string
  me_Content :: string
  me_Source :: string
  me_CreatedAt :: time

record MemoryStore =
  mst_entries :: "(string, Entry list) gomap"
  mst_file :: bool
  mst_filePath :: bool
  mst_ttl :: duration
  mst_maxPerUser :: int
  mst_disk :: "Entry option list option"

abbreviation entries_of :: "MemoryStore \<Rightarrow> string \<Rightarrow> Entry list" where
  "entries_of s k \<equiv> gomap_get [] (mst_entries s) k"

definition live_entry :: "duration \<Rightarrow> time \<Rightarrow> Entry \<Rightarrow> bool" where
  "live_entry ttl now e \<longleftrightarrow> now - me_CreatedAt e \<le> ttl"

definition pruneLocked :: "duration \<Rightarrow> int \<Rightarrow> time \<Rightarrow> Entry list \<Rightarrow> Entry list" where
  "pruneLocked ttl maxPerUser now entries =
     (let entries = (if ttl > 0 then filter (live_entry ttl now) entries else entries)
      in if maxPerUser > 0 \<and> int (length entries) > maxPerUser
         then drop (length entries - nat maxPerUser) entries else entries)"

definition mst_prune :: "MemoryStore \<Rightarrow> time \<Rightarrow> Entry list \<Rightarrow> Entry list" where
  "mst_prune s = pruneLocked (mst_ttl s) (mst_maxPerUser s)"

text \<open>
  \<^verbatim>\<open>Save\<close> takes the store lock, releases it, and then appends to the journal under the file lock:
  two steps that other operations can come between. \<open>fmt\<close> prints a time.
\<close>

definition stamp :: "(time \<Rightarrow> string) \<Rightarrow> time \<Rightarrow> Entry \<Rightarrow> Entry" where
  "stamp fmt now e =
     (let e = (if me_CreatedAt e = zero_time then e\<lparr>me_CreatedAt := now\<rparr> else e)
      in if me_ID e = [] then e\<lparr>me_ID := me_UserKey e @ '':'' @ me_Category e @ '':'' @ fmt (me_CreatedAt e)\<rparr> else e)"

definition Save_memory :: "time \<Rightarrow> Entry \<Rightarrow> MemoryStore \<Rightarrow> MemoryStore" where
  "Save_memory now e s =
     s\<lparr>mst_entries := (mst_entries s)(me_UserKey e \<mapsto> mst_prune s now (entries_of s (me_UserKey e) @ [e]))\<rparr>"

definition appendJournal :: "Entry \<Rightarrow> MemoryStore \<Rightarrow> MemoryStore" where
  "appendJournal e s =
     (if mst_file s then s\<lparr>mst_disk := Some ((case mst_disk s of None \<Rightarrow> [] | Some ls \<Rightarrow> ls) @ [Some e])\<rparr> else s)"

definition MemoryStore_Save :: "(time \<Rightarrow> string) \<Rightarrow> time \<Rightarrow> time \<Rightarrow> Entry \<Rightarrow> MemoryStore \<Rightarrow> MemoryStore" where
  "MemoryStore_Save fmt now now' e s = (let e = stamp fmt now e in appendJournal e (Save_memory now' e s))"

definition MemoryStore_All :: "time \<Rightarrow> string \<Rightarrow> MemoryStore \<Rightarrow> Entry list \<times> MemoryStore" where
  "MemoryStore_All now userKey s =
     (let es = mst_prune s now (entries_of s userKey)
      in (es, s\<lparr>mst_entries := (mst_entries s)(userKey \<mapsto> es)\<rparr>))"

text \<open>The loop of \<^verbatim>\<open>Recent\<close>: the first entry of each category, until \<open>n\<close> are collected.\<close>

fun recent_loop :: "int \<Rightarrow> string list \<Rightarrow> Entry list \<Rightarrow> Entry list \<Rightarrow> Entry list" where
  "recent_loop n seen result [] = result"
| "recent_loop n seen result (e # es) =
     (if me_Category e \<in> set seen then recent_loop n seen result es
      else let result = result @ [e] in
           if int (length result) \<ge> n then result
           else recent_loop n (me_Category e # seen) result es)"

definition MemoryStore_Recent :: "(Entry list \<Rightarrow> Entry list) \<Rightarrow> time \<Rightarrow> string \<Rightarrow> int \<Rightarrow> MemoryStore \<Rightarrow> Entry list \<times> MemoryStore" where
  "MemoryStore_Recent sortDesc now userKey n s =
     (case MemoryStore_All now userKey s of (es, s) \<Rightarrow> (recent_loop n [] [] (sortDesc es), s))"

text \<open>
  \<^verbatim>\<open>rewriteJournalLocked\<close>: the rewrite can fail, which leaves the file as it was, and so can
  reopening it.
\<close>

definition rewriteJournalLocked :: "bool \<Rightarrow> bool \<Rightarrow> Entry list \<Rightarrow> MemoryStore \<Rightarrow> MemoryStore" where
  "rewriteJournalLocked wrote opened live s =
     (if \<not> mst_filePath s then s
      else let disk = (if wrote then Some (map Some live) else mst_disk s);
               disk = (if opened \<and> disk = None then Some [] else disk)
           in s\<lparr>mst_disk := disk, mst_file := opened\<rparr>)"

definition compactNow :: "bool \<Rightarrow> bool \<Rightarrow> string list \<Rightarrow> time \<Rightarrow> MemoryStore \<Rightarrow> MemoryStore" where
  "compactNow wrote opened ord now s =
     (let pruned = (\<lambda>k. mst_prune s now (entries_of s k));
          kept = (\<lambda>k. if mst_entries s k = None \<or> pruned k = [] then None else Some (pruned k));
          live = concat (map pruned ord)
      in rewriteJournalLocked wrote opened live (s\<lparr>mst_entries := kept\<rparr>))"

fun remove_id :: "string \<Rightarrow> Entry list \<Rightarrow> Entry list option" where
  "remove_id ident [] = None"
| "remove_id ident (e # es) = (if me_ID e = ident then Some es else map_option (\<lambda>es. e # es) (remove_id ident es))"

definition MemoryStore_Delete :: "bool \<Rightarrow> bool \<Rightarrow> string list \<Rightarrow> string \<Rightarrow> string \<Rightarrow> MemoryStore \<Rightarrow> bool \<times> MemoryStore" where
  "MemoryStore_Delete wrote opened ord userKey entryID s =
     (case remove_id entryID (entries_of s userKey) of
        None \<Rightarrow> (False, s)
      | Some es \<Rightarrow>
          (let s = s\<lparr>mst_entries := (mst_entries s)(userKey \<mapsto> es)\<rparr>;
               live = concat (map (entries_of s) ord)
           in (True, rewriteJournalLocked wrote opened live s)))"

text \<open>
  Start-up: every line read at its own time, then the caps at one time per user, then
  compaction when something was dropped.
\<close>

definition replay_line :: "duration \<Rightarrow> (string, Entry list) gomap \<Rightarrow> time \<times> Entry option \<Rightarrow> (string, Entry list) gomap" where
  "replay_line ttl m line = (case line of
      (t, None) \<Rightarrow> m
    | (t, Some e) \<Rightarrow> if ttl > 0 \<and> t - me_CreatedAt e > ttl then m
        else m(me_UserKey e \<mapsto> gomap_get [] m (me_UserKey e) @ [e]))"

definition Memory_replayJournal :: "bool \<Rightarrow> bool \<Rightarrow> string list \<Rightarrow> time \<Rightarrow> time list \<Rightarrow> MemoryStore \<Rightarrow> MemoryStore" where
  "Memory_replayJournal wrote opened ord now ts s = (case mst_disk s of
      None \<Rightarrow> s\<lparr>mst_disk := (if opened then Some [] else None), mst_file := opened\<rparr>
    | Some ls \<Rightarrow>
        (let m = foldl (replay_line (mst_ttl s)) (mst_entries s) (zip ts ls);
             m' = (\<lambda>k. map_option (mst_prune s now) (m k));
             live = concat (map (gomap_get [] m') ord)
         in s\<lparr>mst_entries := m', mst_disk := (if length live < length ls \<and> wrote then Some (map Some live) else Some ls),
              mst_file := opened\<rparr>))"

definition NewMemoryStoreWithLimits :: "bool \<Rightarrow> bool \<Rightarrow> string list \<Rightarrow> time \<Rightarrow> time list \<Rightarrow> Entry option list option \<Rightarrow> bool \<Rightarrow>
    duration \<Rightarrow> int \<Rightarrow> MemoryStore" where
  "NewMemoryStoreWithLimits wrote opened ord now ts disk dir ttl maxPerUser =
     (let s = \<lparr>mst_entries = Map.empty, mst_file = False, mst_filePath = dir, mst_ttl = ttl,
               mst_maxPerUser = maxPerUser, mst_disk = disk\<rparr>
      in if dir then Memory_replayJournal wrote opened ord now ts s else s)"

section \<open>Extractors\<close>

record ConversationTurn =
  ct_UserMessage :: string
  ct_AssistantMessage :: string

text \<open>
  The rule extractor's categories and templates; what each regular expression captures in a
  text is an argument, by category.
\<close>

definition rulePatterns :: "(string \<times> (string \<Rightarrow> string)) list" where
  "rulePatterns =
     [(''name'', \<lambda>m. ''User's name is '' @ m),
      (''employer'', \<lambda>m. ''User works at '' @ TrimSpace m),
      (''role'', \<lambda>m. ''User's role is '' @ TrimSpace m),
      (''project'', \<lambda>m. ''User is building '' @ TrimSpace m),
      (''location'', \<lambda>m. ''User is based in '' @ TrimSpace m),
      (''preference'', \<lambda>m. ''User said: I '' @ TrimSpace m)]"

definition new_entry :: "string \<Rightarrow> string \<Rightarrow> string \<Rightarrow> string \<Rightarrow> Entry" where
  "new_entry userKey category content source = \<lparr>me_ID = [], me_UserKey = userKey, me_Category = category,
     me_Content = content, me_Source = source, me_CreatedAt = zero_time\<rparr>"

definition RuleExtractor_Extract :: "(string \<Rightarrow> string \<Rightarrow> string option) \<Rightarrow> string \<Rightarrow> ConversationTurn \<Rightarrow> goerror + Entry list" where
  "RuleExtractor_Extract capture userKey turn =
     (let tx = ct_UserMessage turn
      in Inr (if tx = [] then [] else concat (map (\<lambda>(category, template).
           case capture category tx of
             None \<Rightarrow> []
           | Some m \<Rightarrow> (let captured = TrimSpace m in
               if captured = [] then [] else [new_entry userKey category (template captured) ''rule'']))
         rulePatterns)))"

definition llm_line :: "string \<Rightarrow> string \<Rightarrow> Entry list" where
  "llm_line userKey line =
     (let line = TrimSpace line in
      if line = [] \<or> line = ''NONE'' then []
      else case cut_at (CHR '':'') line of
          None \<Rightarrow> []
        | Some (before, after) \<Rightarrow>
            (let cat = ToLower (TrimSpace before); content = TrimSpace after
             in if content = [] then [] else [new_entry userKey cat content ''llm'']))"

definition LLMExtractor_Extract :: "(string \<Rightarrow> goerror + string) \<Rightarrow> string \<Rightarrow> ConversationTurn \<Rightarrow> goerror + Entry list" where
  "LLMExtractor_Extract call userKey turn =
     (if ct_UserMessage turn = [] then Inr []
      else case call (ct_UserMessage turn) of
          Inl err \<Rightarrow> Inl err
        | Inr resp \<Rightarrow> Inr (if TrimSpace resp = ''NONE'' then []
            else concat (map (llm_line userKey) (split_at (CHR ''\<newline>'') resp))))"

definition dedup_step :: "string list \<times> Entry list \<Rightarrow> Entry \<Rightarrow> string list \<times> Entry list" where
  "dedup_step st e =
     (let key = me_Category e @ ''|'' @ me_Content e
      in if key \<in> set (fst st) then st else (key # fst st, snd st @ [e]))"

definition MultiExtractor_Extract :: "(string \<Rightarrow> ConversationTurn \<Rightarrow> goerror + Entry list) list \<Rightarrow> string \<Rightarrow> ConversationTurn \<Rightarrow> goerror + Entry list" where
  "MultiExtractor_Extract extractors userKey turn =
     Inr (snd (foldl (\<lambda>st ex. case ex userKey turn of Inl _ \<Rightarrow> st | Inr es \<Rightarrow> foldl dedup_step st es) ([], []) extractors))"

section \<open>Plugin, middleware, handler\<close>

definition userKeyFromEvent :: "CallEvent \<Rightarrow> string" where
  "userKeyFromEvent ev = (if ev_TenantID ev = [] \<or> ev_UserID ev = [] then [] else ev_TenantID ev @ '':'' @ ev_UserID ev)"

definition memoryUserKey :: "Identity \<Rightarrow> string" where
  "memoryUserKey ident = (if TenantID ident = [] \<or> UserID ident = [] then [] else TenantID ident @ '':'' @ UserID ident)"

definition last_user_content :: "Message list \<Rightarrow> string" where
  "last_user_content msgs = (case find (\<lambda>m. msg_Role m = ''user'') (rev msgs) of None \<Rightarrow> [] | Some m \<Rightarrow> msg_Content m)"

definition firstAssistantContent :: "ResponseEnvelope \<Rightarrow> string" where
  "firstAssistantContent resp = (case resp_Choices resp of [] \<Rightarrow> [] | c # _ \<Rightarrow> msg_Content (ch_Message c))"

definition FormatMemories :: "Entry list \<Rightarrow> string" where
  "FormatMemories entries =
     (if entries = [] then []
      else ''What you know about this user (from prior conversations):'' @ [CHR ''\<newline>''] @
           concat (map (\<lambda>e. ''- '' @ me_Content e @ [CHR ''\<newline>'']) entries))"

text \<open>The plugin saves each entry at the times it reads for it.\<close>

definition memory_OnEvent :: "(string \<Rightarrow> ConversationTurn \<Rightarrow> goerror + Entry list) \<Rightarrow> (time \<Rightarrow> string) \<Rightarrow> (time \<times> time) list \<Rightarrow>
    CallEvent \<Rightarrow> MemoryStore \<Rightarrow> goerror option \<times> MemoryStore" where
  "memory_OnEvent extract fmt clock ev s =
     (if ev_Error ev \<noteq> [] \<or> ev_Streaming ev \<or> ev_Shadow ev \<noteq> None then (None, s)
      else let userKey = userKeyFromEvent ev in
        if userKey = [] then (None, s)
        else let turn = \<lparr>ct_UserMessage = last_user_content (req_Messages (ev_Request ev)),
                         ct_AssistantMessage = firstAssistantContent (ev_Response ev)\<rparr> in
          if ct_UserMessage turn = [] then (None, s)
          else case extract userKey turn of
              Inl err \<Rightarrow> (Some err, s)
            | Inr entries \<Rightarrow> (None, foldl (\<lambda>s ((t, t'), e). MemoryStore_Save fmt t t' e s) s (zip clock entries)))"

text \<open>
  The middleware: the request the wrapped handler gets, \<open>None\<close> the original body passed on as
  it came. \<open>decoded\<close> is the request the body holds, if it parses.
\<close>

definition MemoryMiddleware_request :: "(Entry list \<Rightarrow> Entry list) \<Rightarrow> time \<Rightarrow> int \<Rightarrow> Identity \<Rightarrow> bool \<Rightarrow> RequestEnvelope option \<Rightarrow>
    MemoryStore \<Rightarrow> RequestEnvelope option \<times> MemoryStore" where
  "MemoryMiddleware_request sortDesc now topK ident isPost decoded s =
     (let userKey = memoryUserKey ident in
      if userKey = [] \<or> \<not> isPost then (None, s)
      else case MemoryStore_Recent sortDesc now userKey topK s of (entries, s) \<Rightarrow>
        if entries = [] then (None, s)
        else case decoded of
            None \<Rightarrow> (None, s)
          | Some req \<Rightarrow>
              (let memMsg = FormatMemories entries
               in (Some (if memMsg \<noteq> [] then req\<lparr>req_Messages := text_message ''system'' memMsg # req_Messages req\<rparr> else req), s)))"

definition RetrieveMemoriesForContext :: "(Entry list \<Rightarrow> Entry list) \<Rightarrow> time \<Rightarrow> Identity \<Rightarrow> int \<Rightarrow> MemoryStore \<Rightarrow> string \<times> MemoryStore" where
  "RetrieveMemoriesForContext sortDesc now ident topK s =
     (let key = memoryUserKey ident in
      if key = [] then ([], s)
      else case MemoryStore_Recent sortDesc now key topK s of (entries, s) \<Rightarrow> (FormatMemories entries, s))"

datatype memory_method = MGet | MDelete string | MOther

datatype memory_reply = MemoryError int string | MemoryList "Entry list" | MemoryDeleted

definition MemoryHandler_ServeHTTP :: "bool \<Rightarrow> bool \<Rightarrow> string list \<Rightarrow> time \<Rightarrow> Identity \<Rightarrow> memory_method \<Rightarrow> MemoryStore \<Rightarrow> memory_reply \<times> MemoryStore" where
  "MemoryHandler_ServeHTTP wrote opened ord now ident meth s =
     (let userKey = memoryUserKey ident in
      if userKey = [] then (MemoryError 400 ''missing_user_id'', s)
      else case meth of
          MGet \<Rightarrow> (case MemoryStore_All now userKey s of (es, s) \<Rightarrow> (MemoryList es, s))
        | MDelete entryID \<Rightarrow>
            (if entryID = [] then (MemoryError 400 ''missing_id'', s)
             else case MemoryStore_Delete wrote opened ord userKey entryID s of
                 (True, s) \<Rightarrow> (MemoryDeleted, s)
               | (False, s) \<Rightarrow> (MemoryError 404 ''not_found'', s))
        | MOther \<Rightarrow> (MemoryError 405 ''method_not_allowed'', s))"

section \<open>Pruning\<close>

text \<open>
  Pruning is a filter for age followed by keeping the last entries. On a list in order of
  creation, pruning early and again later is the same as pruning once, which is what makes the
  bounded memory and the unpruned journal agree.
\<close>

definition lastn :: "nat \<Rightarrow> 'a list \<Rightarrow> 'a list" where
  "lastn n xs = drop (length xs - n) xs"

lemma lastn_append_suffix: "n \<le> length us \<Longrightarrow> lastn n ((ws @ us) @ zs) = lastn n (us @ zs)"
  by (simp add: lastn_def)

lemma lastn_length: "length (lastn n xs) = min n (length xs)"
  by (simp add: lastn_def)

lemma set_lastn: "set (lastn n xs) \<subseteq> set xs"
  by (simp add: lastn_def set_drop_subset)

lemma lastn_snoc: "0 < n \<Longrightarrow> e \<in> set (lastn n (xs @ [e]))"
  by (cases n) (auto simp: lastn_def)

lemma filter_drop_cases:
  "sorted_wrt (\<lambda>x y. Q x \<longrightarrow> Q y) xs \<Longrightarrow>
   filter Q (drop m xs) = filter Q xs \<or> filter Q (drop m xs) = drop m xs \<and> (\<exists>ws. filter Q xs = ws @ drop m xs)"
proof (induction xs arbitrary: m)
  case (Cons x xs)
  show ?case
  proof (cases m)
    case (Suc k)
    show ?thesis
    proof (cases "Q x")
      case True
      with Cons.prems have all: "\<forall>y \<in> set (x # xs). Q y" by auto
      then have "filter Q (x # xs) = x # xs" "filter Q (drop m (x # xs)) = drop m (x # xs)"
        using in_set_dropD [of _ m "x # xs"] by (auto simp: filter_id_conv)
      then show ?thesis by (metis append_take_drop_id)
    next
      case False
      with Cons Suc show ?thesis by auto
    qed
  qed simp
qed simp

definition age_filter :: "duration \<Rightarrow> time \<Rightarrow> Entry list \<Rightarrow> Entry list" where
  "age_filter ttl now xs = (if ttl > 0 then filter (live_entry ttl now) xs else xs)"

definition cap_last :: "int \<Rightarrow> 'a list \<Rightarrow> 'a list" where
  "cap_last mx xs = (if mx > 0 then lastn (nat mx) xs else xs)"

lemma prune_eq: "pruneLocked ttl mx now xs = cap_last mx (age_filter ttl now xs)"
  by (auto simp: pruneLocked_def cap_last_def age_filter_def lastn_def Let_def not_less)

lemma age_filter_append [simp]: "age_filter ttl now (xs @ ys) = age_filter ttl now xs @ age_filter ttl now ys"
  by (simp add: age_filter_def)

lemma age_filter_absorb: "now \<le> now' \<Longrightarrow> age_filter ttl now' (age_filter ttl now xs) = age_filter ttl now' xs"
  by (auto simp: age_filter_def live_entry_def intro!: filter_cong)

lemma set_age_filter: "set (age_filter ttl now xs) \<subseteq> set xs"
  by (auto simp: age_filter_def)

lemma set_prune: "set (pruneLocked ttl mx now xs) \<subseteq> set xs"
  using set_lastn [of "nat mx" "age_filter ttl now xs"] set_age_filter [of ttl now xs]
  by (auto simp: prune_eq cap_last_def)

lemma sorted_age_filter: "sorted (map me_CreatedAt xs) \<Longrightarrow> sorted (map me_CreatedAt (age_filter ttl now xs))"
  by (simp add: age_filter_def sorted_filter)

lemma sorted_prune: "sorted (map me_CreatedAt xs) \<Longrightarrow> sorted (map me_CreatedAt (pruneLocked ttl mx now xs))"
  using sorted_age_filter [of xs ttl now]
  by (simp add: prune_eq cap_last_def lastn_def drop_map [symmetric] sorted_wrt_drop)

lemma prune_absorb:
  assumes "sorted (map me_CreatedAt xs)" "now \<le> now'"
  shows "pruneLocked ttl mx now' (pruneLocked ttl mx now xs @ ys) = pruneLocked ttl mx now' (xs @ ys)"
proof (cases "mx > 0 \<and> ttl > 0")
  case False
  consider "mx \<le> 0" | "mx > 0" "ttl \<le> 0" using False by linarith
  then show ?thesis
  proof cases
    case 1
    then show ?thesis using assms(2) by (simp add: prune_eq cap_last_def age_filter_absorb)
  next
    case 2
    let ?n = "nat mx"
    have "lastn ?n (lastn ?n xs @ ys) = lastn ?n (xs @ ys)"
    proof (cases "length xs \<le> ?n")
      case True
      then show ?thesis by (simp add: lastn_def)
    next
      case False
      then show ?thesis using lastn_append_suffix [of ?n "lastn ?n xs" "take (length xs - ?n) xs" ys]
        by (simp add: lastn_def)
    qed
    then show ?thesis using 2 by (simp add: prune_eq cap_last_def age_filter_def)
  qed
next
  case True
  let ?n = "nat mx" and ?Q = "live_entry ttl now'" and ?A = "age_filter ttl now xs"
  let ?m = "length ?A - ?n"
  have "sorted_wrt (\<lambda>x y. ?Q x \<longrightarrow> ?Q y) ?A"
    using sorted_age_filter [OF assms(1), of ttl now]
    by (auto simp: sorted_map live_entry_def elim: sorted_wrt_mono_rel [rotated])
  from filter_drop_cases [OF this, of ?m] consider "filter ?Q (drop ?m ?A) = filter ?Q ?A"
    | ws where "filter ?Q (drop ?m ?A) = drop ?m ?A" "filter ?Q ?A = ws @ drop ?m ?A" by blast
  then have "lastn ?n (filter ?Q (drop ?m ?A) @ filter ?Q ys) = lastn ?n (filter ?Q ?A @ filter ?Q ys)"
  proof cases
    case 2
    show ?thesis
    proof (cases "?m = 0")
      case False
      then have "?n \<le> length (drop ?m ?A)" by simp
      from lastn_append_suffix [OF this, of ws "filter ?Q ys"] show ?thesis unfolding 2 by simp
    qed simp
  qed simp
  moreover have "filter ?Q ?A = filter ?Q xs"
    using age_filter_absorb [OF assms(2), of ttl xs] True by (simp add: age_filter_def)
  ultimately show ?thesis using True
    by (simp add: prune_eq cap_last_def lastn_def [of _ ?A]) (simp add: age_filter_def)
qed

lemmas prune_twice = prune_absorb [of _ _ _ _ _ "[]", simplified]

section \<open>The running store and its journal\<close>

text \<open>
  The states a persistent store reaches when one operation runs after the other, the clock does
  not go back, entries are stamped by \<^verbatim>\<open>Save\<close>, and the disk works. The index is the time of the
  latest operation.
\<close>

inductive memory_reach :: "(time \<Rightarrow> string) \<Rightarrow> duration \<Rightarrow> int \<Rightarrow> time \<Rightarrow> MemoryStore \<Rightarrow> bool"
  for fmt ttl mx where
  start: "memory_reach fmt ttl mx now (NewMemoryStoreWithLimits True True [] now [] (Some []) True ttl mx)"
| save: "memory_reach fmt ttl mx t s \<Longrightarrow> t \<le> now \<Longrightarrow> now \<le> now' \<Longrightarrow> me_CreatedAt e = zero_time \<Longrightarrow>
    memory_reach fmt ttl mx now' (MemoryStore_Save fmt now now' e s)"
| read: "memory_reach fmt ttl mx t s \<Longrightarrow> t \<le> now \<Longrightarrow> memory_reach fmt ttl mx now (snd (MemoryStore_All now k s))"
| compact: "memory_reach fmt ttl mx t s \<Longrightarrow> t \<le> now \<Longrightarrow> iteration_order ord (mst_entries s) \<Longrightarrow>
    memory_reach fmt ttl mx now (compactNow True True ord now s)"
| delete: "memory_reach fmt ttl mx t s \<Longrightarrow> iteration_order ord (mst_entries s) \<Longrightarrow>
    memory_reach fmt ttl mx t (snd (MemoryStore_Delete True True ord k ident s))"

definition disk_for :: "string \<Rightarrow> Entry list \<Rightarrow> Entry list" where
  "disk_for k D = filter (\<lambda>e. me_UserKey e = k) D"

text \<open>
  The invariant: entries are in order of creation, under their own user, not from the future, and
  at every later time the journal and the memory show the same entries.
\<close>

definition memory_inv :: "duration \<Rightarrow> int \<Rightarrow> time \<Rightarrow> MemoryStore \<Rightarrow> Entry list \<Rightarrow> bool" where
  "memory_inv ttl mx t s D \<longleftrightarrow> mst_ttl s = ttl \<and> mst_maxPerUser s = mx \<and> mst_filePath s \<and> mst_file s \<and>
     mst_disk s = Some (map Some D) \<and>
     (\<forall>k. sorted (map me_CreatedAt (entries_of s k)) \<and> sorted (map me_CreatedAt (disk_for k D)) \<and>
        (\<forall>e \<in> set (entries_of s k). me_UserKey e = k \<and> me_CreatedAt e \<le> t) \<and> (\<forall>e \<in> set (disk_for k D). me_CreatedAt e \<le> t) \<and>
        (\<forall>now \<ge> t. pruneLocked ttl mx now (disk_for k D) = pruneLocked ttl mx now (entries_of s k)))"

lemma disk_for_simps [simp]:
  "disk_for k [] = []"
  "disk_for k (xs @ ys) = disk_for k xs @ disk_for k ys"
  "disk_for k [e] = (if me_UserKey e = k then [e] else [])"
  by (simp_all add: disk_for_def)

text \<open>A journal written from the map, in any iteration order, holds each user's list.\<close>

lemma disk_for_concat:
  assumes "distinct ord" "\<And>k. k \<notin> set ord \<Longrightarrow> f k = []" "\<And>k e. e \<in> set (f k) \<Longrightarrow> me_UserKey e = k"
  shows "disk_for k (concat (map f ord)) = f k"
proof -
  have one: "disk_for k (f j) = (if j = k then f k else [])" for j
    using assms(3) by (auto simp: disk_for_def filter_id_conv filter_empty_conv)
  have "distinct os \<Longrightarrow> disk_for k (concat (map f os)) = (if k \<in> set os then f k else [])" for os
    by (induction os) (auto simp: one)
  then show ?thesis using assms(1,2) by auto
qed

lemma set_remove_id: "remove_id ident xs = Some ys \<Longrightarrow> set ys \<subseteq> set xs"
  by (induction xs arbitrary: ys) (auto split: if_splits)

lemma sorted_remove_id: "remove_id ident xs = Some ys \<Longrightarrow> sorted (map me_CreatedAt xs) \<Longrightarrow> sorted (map me_CreatedAt ys)"
proof (induction xs arbitrary: ys)
  case (Cons x xs)
  then show ?case using set_remove_id [of ident xs] by (fastforce split: if_splits)
qed simp

lemma memory_inv_rewrite:
  assumes sub: "\<And>k. set (f k) \<subseteq> set (entries_of s k) \<and> sorted (map me_CreatedAt (f k))"
    and inv: "memory_inv ttl mx t s D" "t \<le> now" and ord: "distinct ord" "\<And>k. k \<notin> set ord \<Longrightarrow> f k = []"
    and ents: "\<And>k. entries_of s' k = f k" and s': "mst_ttl s' = ttl" "mst_maxPerUser s' = mx" "mst_filePath s'" "mst_file s'"
      "mst_disk s' = Some (map Some (concat (map f ord)))"
  shows "memory_inv ttl mx now s' (concat (map f ord))"
proof -
  have user: "me_UserKey e = k \<and> me_CreatedAt e \<le> now" if "e \<in> set (f k)" for e k
    using sub [of k] inv that by (fastforce simp: memory_inv_def)
  then have "disk_for k (concat (map f ord)) = f k" for k
    by (intro disk_for_concat [OF ord]) auto
  then show ?thesis using sub user by (simp add: memory_inv_def ents s')
qed

lemma rewrite_fields [simp]:
  "mst_entries (rewriteJournalLocked True True live s) = mst_entries s"
  "mst_ttl (rewriteJournalLocked w op live s) = mst_ttl s"
  "mst_maxPerUser (rewriteJournalLocked w op live s) = mst_maxPerUser s"
  "mst_filePath (rewriteJournalLocked w op live s) = mst_filePath s"
  "mst_filePath s \<Longrightarrow> mst_file (rewriteJournalLocked True True live s)"
  "mst_filePath s \<Longrightarrow> mst_disk (rewriteJournalLocked True True live s) = Some (map Some live)"
  by (simp_all add: rewriteJournalLocked_def Let_def)

lemma memory_inv_save:
  assumes inv: "memory_inv ttl mx t s D" and t: "t \<le> now" "now \<le> now'" and e: "me_CreatedAt e = zero_time"
  shows "memory_inv ttl mx now' (MemoryStore_Save fmt now now' e s) (D @ [stamp fmt now e])"
proof -
  let ?e = "stamp fmt now e" let ?s = "MemoryStore_Save fmt now now' e s" let ?P = "pruneLocked ttl mx"
  have st: "me_CreatedAt ?e = now" "me_UserKey ?e = me_UserKey e" using e by (simp_all add: stamp_def Let_def)
  have par: "mst_ttl s = ttl" "mst_maxPerUser s = mx" "mst_filePath s" "mst_file s" "mst_disk s = Some (map Some D)"
    using inv by (simp_all add: memory_inv_def)
  have ents: "entries_of ?s k = (if k = me_UserKey e then ?P now' (entries_of s k @ [?e]) else entries_of s k)" for k
    by (simp add: MemoryStore_Save_def Save_memory_def appendJournal_def mst_prune_def par st Let_def)
  have disk: "mst_disk ?s = Some (map Some (D @ [?e]))" "mst_ttl ?s = ttl" "mst_maxPerUser ?s = mx" "mst_filePath ?s" "mst_file ?s"
    by (simp_all add: MemoryStore_Save_def Save_memory_def appendJournal_def par Let_def)
  have old: "sorted (map me_CreatedAt (entries_of s k))" "sorted (map me_CreatedAt (disk_for k D))"
    "\<forall>x \<in> set (entries_of s k). me_UserKey x = k \<and> me_CreatedAt x \<le> t" "\<forall>x \<in> set (disk_for k D). me_CreatedAt x \<le> t"
    "\<And>n. t \<le> n \<Longrightarrow> ?P n (disk_for k D) = ?P n (entries_of s k)" for k
    using inv by (simp_all add: memory_inv_def)
  have srt: "sorted (map me_CreatedAt (entries_of s k @ [?e]))" for k
    using old(1,3) [of k] t by (fastforce simp: sorted_append st)
  have "sorted (map me_CreatedAt (entries_of ?s k))" for k
    using sorted_prune [OF srt] old(1) by (simp add: ents)
  moreover have "sorted (map me_CreatedAt (disk_for k (D @ [?e])))" for k
    using old(2,4) [of k] t(1) by (auto simp: sorted_append st)
  moreover have "me_UserKey x = k \<and> me_CreatedAt x \<le> now'" if "x \<in> set (entries_of ?s k)" for k x
  proof -
    have "x \<in> set (entries_of s k) \<or> k = me_UserKey e \<and> x = ?e"
      using that set_prune [of ttl mx now' "entries_of s k @ [?e]"] by (auto simp: ents split: if_splits)
    then show ?thesis using old(3) [of k] t st by auto
  qed
  moreover have "\<forall>x \<in> set (disk_for k (D @ [?e])). me_CreatedAt x \<le> now'" for k
    using old(4) [of k] t by (auto simp: st)
  moreover have "?P n (disk_for k (D @ [?e])) = ?P n (entries_of ?s k)" if "now' \<le> n" for k n
  proof (cases "me_UserKey e = k")
    case True
    have "t \<le> n" using that t by simp
    have "?P n (disk_for k D @ [?e]) = ?P n (?P n (disk_for k D) @ [?e])"
      using prune_absorb [OF old(2) order_refl] by simp
    also have "\<dots> = ?P n (entries_of s k @ [?e])"
      using old(5) [OF \<open>t \<le> n\<close>, of k] prune_absorb [OF old(1) order_refl] by simp
    also have "\<dots> = ?P n (?P now' (entries_of s k @ [?e]))"
      using prune_twice [OF srt that] by simp
    finally show ?thesis using True by (simp add: ents st)
  next
    case False
    then show ?thesis using old(5) that t by (simp add: ents st)
  qed
  ultimately show ?thesis by (simp add: memory_inv_def disk)
qed

lemma memory_inv_read:
  assumes inv: "memory_inv ttl mx t s D" and t: "t \<le> now"
  shows "memory_inv ttl mx now (snd (MemoryStore_All now k s)) D"
proof -
  let ?P = "pruneLocked ttl mx" and ?s = "snd (MemoryStore_All now k s)"
  have ents: "entries_of ?s j = (if j = k then ?P now (entries_of s k) else entries_of s j)" for j
    using inv by (simp add: MemoryStore_All_def mst_prune_def Let_def memory_inv_def)
  have par: "mst_ttl ?s = ttl" "mst_maxPerUser ?s = mx" "mst_filePath ?s" "mst_file ?s" "mst_disk ?s = Some (map Some D)"
    using inv by (simp_all add: MemoryStore_All_def Let_def memory_inv_def)
  have old: "sorted (map me_CreatedAt (entries_of s j))" "sorted (map me_CreatedAt (disk_for j D))"
    "\<forall>x \<in> set (entries_of s j). me_UserKey x = j \<and> me_CreatedAt x \<le> t" "\<forall>x \<in> set (disk_for j D). me_CreatedAt x \<le> t" for j
    using inv by (simp_all add: memory_inv_def)
  have eq: "?P n (disk_for j D) = ?P n (entries_of s j)" if "t \<le> n" for n j
    using inv that by (simp add: memory_inv_def)
  have "sorted (map me_CreatedAt (entries_of ?s j))" for j
    using sorted_prune [OF old(1)] old(1) by (simp add: ents)
  moreover have "me_UserKey x = j \<and> me_CreatedAt x \<le> now" if "x \<in> set (entries_of ?s j)" for j x
  proof -
    have "x \<in> set (entries_of s j)"
      using that set_prune [of ttl mx now "entries_of s k"] by (auto simp: ents split: if_splits)
    then show ?thesis using old(3) [of j] t by auto
  qed
  moreover have "\<forall>x \<in> set (disk_for j D). me_CreatedAt x \<le> now" for j
    using old(4) [of j] t by auto
  moreover have "?P n (disk_for j D) = ?P n (entries_of ?s j)" if "now \<le> n" for n j
    using eq [of n j] t that prune_twice [OF old(1) that] by (simp add: ents)
  ultimately show ?thesis using par old(2) by (simp add: memory_inv_def)
qed

lemma memory_inv_compact:
  assumes inv: "memory_inv ttl mx t s D" and t: "t \<le> now" and ord: "iteration_order ord (mst_entries s)"
  shows "\<exists>D'. memory_inv ttl mx now (compactNow True True ord now s) D'"
proof -
  let ?f = "\<lambda>k. mst_prune s now (entries_of s k)"
  have par: "mst_ttl s = ttl" "mst_maxPerUser s = mx" "mst_filePath s" using inv by (simp_all add: memory_inv_def)
  have "entries_of (compactNow True True ord now s) k = ?f k" for k
    by (auto simp: compactNow_def Let_def gomap_get_def mst_prune_def pruneLocked_def split: option.splits)
  moreover have "?f k = []" if "k \<notin> set ord" for k
    using that ord by (auto simp: iteration_order_def gomap_get_def mst_prune_def pruneLocked_def domIff)
  moreover have "set (?f k) \<subseteq> set (entries_of s k) \<and> sorted (map me_CreatedAt (?f k))" for k
    using inv by (auto simp: mst_prune_def memory_inv_def sorted_prune dest: set_prune [THEN subsetD])
  ultimately have "memory_inv ttl mx now (compactNow True True ord now s) (concat (map ?f ord))"
    using inv t ord par by (intro memory_inv_rewrite [of ?f s ttl mx t D]) (simp_all add: compactNow_def Let_def iteration_order_def)
  then show ?thesis ..
qed

lemma memory_inv_delete:
  assumes inv: "memory_inv ttl mx t s D" and ord: "iteration_order ord (mst_entries s)"
  shows "\<exists>D'. memory_inv ttl mx t (snd (MemoryStore_Delete True True ord k ident s)) D'"
proof (cases "remove_id ident (entries_of s k)")
  case None
  then show ?thesis using inv by (auto simp: MemoryStore_Delete_def)
next
  case (Some es)
  let ?f = "\<lambda>j. if j = k then es else entries_of s j"
  have par: "mst_ttl s = ttl" "mst_maxPerUser s = mx" "mst_filePath s" using inv by (simp_all add: memory_inv_def)
  have k: "k \<in> set ord" using Some ord by (auto simp: iteration_order_def gomap_get_def domIff split: option.splits)
  have "set (?f j) \<subseteq> set (entries_of s j) \<and> sorted (map me_CreatedAt (?f j))" for j
    using inv set_remove_id [OF Some] sorted_remove_id [OF Some] by (auto simp: memory_inv_def)
  moreover have feq: "gomap_get [] ((mst_entries s)(k \<mapsto> es)) = ?f" by (rule ext) simp
  moreover have "?f j = []" if "j \<notin> set ord" for j
    using that ord k by (auto simp: iteration_order_def gomap_get_def domIff)
  ultimately have "memory_inv ttl mx t (snd (MemoryStore_Delete True True ord k ident s)) (concat (map ?f ord))"
    using inv ord par
    by (intro memory_inv_rewrite [of ?f s ttl mx t D]) (simp_all add: MemoryStore_Delete_def Some Let_def iteration_order_def feq)
  then show ?thesis ..
qed

lemma memory_reach_inv: "memory_reach fmt ttl mx t s \<Longrightarrow> \<exists>D. memory_inv ttl mx t s D"
proof (induction rule: memory_reach.induct)
  case (start now)
  show ?case by (intro exI [of _ "[]"]) (simp add: memory_inv_def NewMemoryStoreWithLimits_def Memory_replayJournal_def)
next
  case (save t s now now' e)
  then obtain D where "memory_inv ttl mx t s D" by blast
  from memory_inv_save [OF this save(2-4)] show ?case ..
next
  case (read t s now k)
  then obtain D where "memory_inv ttl mx t s D" by blast
  from memory_inv_read [OF this read(2)] show ?case ..
next
  case (compact t s now ord)
  then obtain D where "memory_inv ttl mx t s D" by blast
  from memory_inv_compact [OF this compact(2,3)] show ?case .
next
  case (delete t s ord k ident)
  then obtain D where "memory_inv ttl mx t s D" by blast
  from memory_inv_delete [OF this delete(2)] show ?case .
qed

lemma gomap_get_map_option: "f z = z \<Longrightarrow> gomap_get z (\<lambda>k. map_option f (m k)) k = f (gomap_get z m k)"
  by (simp add: gomap_get_def split: option.splits)

lemma replay_line_simps:
  "replay_line ttl m (t, None) = m"
  "replay_line ttl m (t, Some e) = (if ttl > 0 \<and> t - me_CreatedAt e > ttl then m
     else m(me_UserKey e \<mapsto> gomap_get [] m (me_UserKey e) @ [e]))"
  by (simp_all add: replay_line_def)

definition replayed :: "duration \<Rightarrow> string \<Rightarrow> (time \<times> Entry option) list \<Rightarrow> Entry list" where
  "replayed ttl k tls = concat (map (\<lambda>(t, l). case l of None \<Rightarrow> []
     | Some e \<Rightarrow> if me_UserKey e = k \<and> \<not> (ttl > 0 \<and> t - me_CreatedAt e > ttl) then [e] else []) tls)"

lemma replayed_simps:
  "replayed ttl k [] = []"
  "replayed ttl k ((t, None) # tls) = replayed ttl k tls"
  "replayed ttl k ((t, Some e) # tls) =
     (if me_UserKey e = k \<and> \<not> (ttl > 0 \<and> t - me_CreatedAt e > ttl) then [e] else []) @ replayed ttl k tls"
  by (simp_all add: replayed_def)

lemma replay_entries:
  "length ts = length ls \<Longrightarrow> gomap_get [] (foldl (replay_line ttl) m (zip ts ls)) k =
     gomap_get [] m k @ replayed ttl k (zip ts ls)"
proof (induction ts ls arbitrary: m rule: list_induct2)
  case (Cons t ts l ls)
  show ?case by (cases l) (simp_all add: Cons.IH replay_line_simps replayed_simps)
qed (simp add: replayed_simps)

lemma replay_live:
  assumes "length ts = length D" "\<forall>t \<in> set ts. t \<le> now"
  shows "age_filter ttl now (replayed ttl k (zip ts (map Some D))) =
    age_filter ttl now (disk_for k D)"
  using assms
proof (induction ts D rule: list_induct2)
  case (Cons t ts e D)
  then show ?case by (auto simp: age_filter_def disk_for_def live_entry_def replayed_simps)
qed (simp add: replayed_simps)

text \<open>
  C26. A restart remembers what the running process did: whatever facts were saved, read, deleted
  and compacted before, a store started on the journal shows, now and later, the entries the
  old one would have shown, for every user.
\<close>

theorem memory_restart:
  assumes "memory_reach fmt ttl mx t s" "t \<le> now" "now \<le> now'"
    and "mst_disk s = Some ls" "length ts = length ls" "\<forall>x \<in> set ts. t \<le> x \<and> x \<le> now"
  shows "fst (MemoryStore_All now' k (NewMemoryStoreWithLimits wrote opened ord now ts (Some ls) True ttl mx)) =
    fst (MemoryStore_All now' k s)"
proof -
  from memory_reach_inv [OF assms(1)] obtain D where inv: "memory_inv ttl mx t s D" ..
  then have ls: "ls = map Some D" and par: "mst_ttl s = ttl" "mst_maxPerUser s = mx" using assms(4) by (simp_all add: memory_inv_def)
  let ?P = "pruneLocked ttl mx"
  let ?m = "foldl (replay_line ttl) Map.empty (zip ts ls)"
  have "?P now (gomap_get [] ?m k) = ?P now (disk_for k D)"
    using replay_live [of ts D now ttl k] assms(5,6) by (simp add: replay_entries prune_eq ls)
  then have "gomap_get [] (\<lambda>k. map_option (?P now) (?m k)) k = ?P now (disk_for k D)"
    by (simp add: gomap_get_map_option pruneLocked_def)
  then have "fst (MemoryStore_All now' k (NewMemoryStoreWithLimits wrote opened ord now ts (Some ls) True ttl mx)) =
      ?P now' (?P now (disk_for k D))"
    by (simp add: MemoryStore_All_def NewMemoryStoreWithLimits_def Memory_replayJournal_def mst_prune_def [abs_def] Let_def)
  also have "\<dots> = ?P now' (disk_for k D)" using inv assms(3) by (intro prune_twice) (simp_all add: memory_inv_def)
  also have "\<dots> = ?P now' (entries_of s k)" using inv assms(2,3) by (simp add: memory_inv_def)
  finally show ?thesis by (simp add: MemoryStore_All_def mst_prune_def par Let_def)
qed

definition sample_fact :: "string \<Rightarrow> string \<Rightarrow> Entry" where
  "sample_fact k content = new_entry k ''name'' content ''rule''"

lemma sample_reach:
  "memory_reach (\<lambda>t. ''t'') 100 2 7 (MemoryStore_Save (\<lambda>t. ''t'') 6 7 (sample_fact ''a:b'' ''x'')
     (NewMemoryStoreWithLimits True True [] 5 [] (Some []) True 100 2))"
  by (intro memory_reach.save [OF memory_reach.start]) (simp_all add: sample_fact_def new_entry_def)

theorem memory_restart_witness:
  defines "s \<equiv> MemoryStore_Save (\<lambda>t. ''t'') 6 7 (sample_fact ''a:b'' ''x'') (NewMemoryStoreWithLimits True True [] 5 [] (Some []) True 100 2)"
  shows "\<exists>ls. mst_disk s = Some ls \<and> length ls = 1 \<and>
    fst (MemoryStore_All 20 ''a:b'' (NewMemoryStoreWithLimits True True [''a:b''] 9 [8] (Some ls) True 100 2)) = fst (MemoryStore_All 20 ''a:b'' s)"
proof -
  obtain ls where ls: "mst_disk s = Some ls" "length ls = 1"
    by (simp add: s_def MemoryStore_Save_def Save_memory_def appendJournal_def NewMemoryStoreWithLimits_def Memory_replayJournal_def Let_def)
  have "fst (MemoryStore_All 20 ''a:b'' (NewMemoryStoreWithLimits True True [''a:b''] 9 [8] (Some ls) True 100 2)) = fst (MemoryStore_All 20 ''a:b'' s)"
    by (rule memory_restart [OF sample_reach, folded s_def, OF _ _ ls(1)]) (simp_all add: ls(2))
  with ls show ?thesis by blast
qed

text \<open>
  Memory stays bounded: what a user sees at any time is at most \<open>maxPerUser\<close> entries when that
  is positive, none older than a positive time to live, and only that user's own.
\<close>

theorem memory_bounded:
  assumes "memory_reach fmt ttl mx t s" "t \<le> now"
  shows "(0 < mx \<longrightarrow> int (length (fst (MemoryStore_All now k s))) \<le> mx) \<and>
    (\<forall>e \<in> set (fst (MemoryStore_All now k s)). me_UserKey e = k \<and> (0 < ttl \<longrightarrow> now - me_CreatedAt e \<le> ttl))"
proof -
  from memory_reach_inv [OF assms(1)] obtain D where inv: "memory_inv ttl mx t s D" ..
  then have all: "fst (MemoryStore_All now k s) = pruneLocked ttl mx now (entries_of s k)"
    by (simp add: MemoryStore_All_def mst_prune_def memory_inv_def Let_def)
  have "e \<in> set (pruneLocked ttl mx now (entries_of s k)) \<Longrightarrow> 0 < ttl \<Longrightarrow> now - me_CreatedAt e \<le> ttl" for e
    using set_lastn [of "nat mx" "age_filter ttl now (entries_of s k)"]
    by (auto simp: prune_eq cap_last_def age_filter_def live_entry_def split: if_splits)
  moreover have "0 < mx \<Longrightarrow> int (length (pruneLocked ttl mx now (entries_of s k))) \<le> mx"
    by (simp add: prune_eq cap_last_def lastn_length)
  moreover have "\<forall>e \<in> set (entries_of s k). me_UserKey e = k" using inv by (simp add: memory_inv_def)
  ultimately show ?thesis unfolding all using set_prune [of ttl mx now "entries_of s k"] by blast
qed

theorem memory_bounded_witness:
  defines "s \<equiv> MemoryStore_Save (\<lambda>t. ''t'') 6 7 (sample_fact ''a:b'' ''x'') (NewMemoryStoreWithLimits True True [] 5 [] (Some []) True 100 2)"
  shows "int (length (fst (MemoryStore_All 20 ''a:b'' s))) \<le> 2"
  using memory_bounded [OF sample_reach, folded s_def, of 20 "''a:b''"] by simp

section \<open>Recent facts\<close>

definition newest_first :: "Entry list \<Rightarrow> bool" where
  "newest_first xs \<longleftrightarrow> sorted_wrt (\<lambda>x y. me_CreatedAt x \<ge> me_CreatedAt y) xs"

text \<open>What \<^verbatim>\<open>sort.Slice\<close> promises here: the same entries, newest first.\<close>

definition sorts_desc :: "(Entry list \<Rightarrow> Entry list) \<Rightarrow> bool" where
  "sorts_desc f \<longleftrightarrow> (\<forall>xs. set (f xs) = set xs \<and> newest_first (f xs))"

fun firsts :: "string list \<Rightarrow> Entry list \<Rightarrow> Entry list" where
  "firsts seen [] = []"
| "firsts seen (e # es) = (if me_Category e \<in> set seen then firsts seen es else e # firsts (me_Category e # seen) es)"

lemma recent_loop_eq:
  "length result < max 1 (nat n) \<Longrightarrow>
   recent_loop n seen result xs = result @ take (max 1 (nat n) - length result) (firsts seen xs)"
proof (induction xs arbitrary: seen result)
  case (Cons e es)
  show ?case
  proof (cases "me_Category e \<in> set seen")
    case True
    then show ?thesis using Cons by simp
  next
    case False
    show ?thesis
    proof (cases "n \<le> int (Suc (length result))")
      case True
      with Cons.prems have "max 1 (nat n) - length result = 1" by linarith
      then show ?thesis using False True by simp
    next
      case less: False
      then have "length (result @ [e]) < max 1 (nat n)"
        "max 1 (nat n) - length result = Suc (max 1 (nat n) - length (result @ [e]))" by auto
      then show ?thesis using False less Cons.IH [of "result @ [e]" "me_Category e # seen"] by simp
    qed
  qed
qed simp

lemma set_firsts: "set (firsts seen xs) \<subseteq> {e \<in> set xs. me_Category e \<notin> set seen}"
proof (induction xs arbitrary: seen)
  case (Cons e es)
  show ?case using Cons.IH [of seen] Cons.IH [of "me_Category e # seen"] by auto
qed simp

lemma firsts_cover: "x \<in> set xs \<Longrightarrow> me_Category x \<notin> set seen \<Longrightarrow> \<exists>e \<in> set (firsts seen xs). me_Category e = me_Category x"
proof (induction xs arbitrary: seen)
  case (Cons a xs)
  show ?case
  proof (cases "x = a \<or> me_Category x = me_Category a")
    case True
    then show ?thesis using Cons.prems(2) by auto
  next
    case False
    then show ?thesis
      using Cons.prems Cons.IH [of seen] Cons.IH [of "me_Category a # seen"] by (cases "me_Category a \<in> set seen") auto
  qed
qed simp

lemma firsts_distinct: "distinct (map me_Category (firsts seen xs))"
proof (induction xs arbitrary: seen)
  case (Cons e es)
  then show ?case using set_firsts [of "me_Category e # seen" es] by auto
qed simp

lemma firsts_sorted: "newest_first xs \<Longrightarrow> newest_first (firsts seen xs)"
proof (induction xs arbitrary: seen)
  case (Cons e es)
  then show ?case using set_firsts [of "me_Category e # seen" es] by (auto simp: newest_first_def)
qed (simp add: newest_first_def)

lemma firsts_newest:
  "newest_first xs \<Longrightarrow> e \<in> set (firsts seen xs) \<Longrightarrow> x \<in> set xs \<Longrightarrow> me_Category x = me_Category e \<Longrightarrow> me_CreatedAt x \<le> me_CreatedAt e"
proof (induction xs arbitrary: seen)
  case (Cons a xs)
  show ?case
  proof (cases "e = a \<and> me_Category a \<notin> set seen")
    case True
    then show ?thesis using Cons.prems by (auto simp: newest_first_def)
  next
    case False
    then obtain seen' where e: "e \<in> set (firsts seen' xs)" "me_Category a \<in> set seen'"
      using Cons.prems(2) by (auto split: if_splits)
    then have "me_Category e \<noteq> me_Category a" using set_firsts [of seen' xs] by auto
    with Cons.prems e(1) show ?thesis by (intro Cons.IH [of seen']) (auto simp: newest_first_def)
  qed
qed simp

text \<open>
  The facts a request gets are the newest of each kind: at most \<open>n\<close> of the user's live
  entries (one, when \<open>n\<close> is not positive), no category twice, newest first, each the newest of
  its category, and a category is left out only when \<open>n\<close> are taken.
\<close>

theorem memory_recent_newest:
  assumes "sorts_desc sortDesc"
  defines "r s now k n \<equiv> fst (MemoryStore_Recent sortDesc now k n s)"
    and "live s now k \<equiv> set (fst (MemoryStore_All now k s))"
  shows "length (r s now k n) \<le> max 1 (nat n) \<and> set (r s now k n) \<subseteq> live s now k \<and>
    distinct (map me_Category (r s now k n)) \<and> newest_first (r s now k n) \<and>
    (\<forall>e \<in> set (r s now k n). \<forall>x \<in> live s now k. me_Category x = me_Category e \<longrightarrow> me_CreatedAt x \<le> me_CreatedAt e) \<and>
    (length (r s now k n) < max 1 (nat n) \<longrightarrow> me_Category ` live s now k \<subseteq> me_Category ` set (r s now k n))"
proof -
  let ?xs = "sortDesc (fst (MemoryStore_All now k s))"
  have r: "r s now k n = take (max 1 (nat n)) (firsts [] ?xs)"
    by (simp add: r_def MemoryStore_Recent_def recent_loop_eq split: prod.splits)
  have xs: "set ?xs = live s now k" "newest_first ?xs" using assms(1) by (simp_all add: sorts_desc_def live_def)
  have in_r: "set (r s now k n) \<subseteq> set (firsts [] ?xs)" by (simp add: r set_take_subset)
  have "me_Category ` live s now k \<subseteq> me_Category ` set (r s now k n)" if "length (r s now k n) < max 1 (nat n)"
  proof -
    have "r s now k n = firsts [] ?xs" using that by (simp add: r)
    then show ?thesis using firsts_cover [of _ ?xs "[]"] xs(1) by (simp add: subset_iff image_iff) metis
  qed
  moreover have "distinct (map me_Category (r s now k n))" unfolding r take_map [symmetric]
    by (rule distinct_take) (rule firsts_distinct)
  moreover have "newest_first (r s now k n)"
    unfolding r using firsts_sorted [OF xs(2)] by (simp add: newest_first_def sorted_wrt_take)
  ultimately show ?thesis
    using in_r set_firsts [of "[]" ?xs] firsts_newest [OF xs(2)] xs(1) by (auto simp: r)
qed

theorem memory_recent_newest_witness:
  defines "s \<equiv> MemoryStore_Save (\<lambda>t. ''t'') 6 7 (sample_fact ''a:b'' ''x'') (NewMemoryStoreWithLimits True True [] 5 [] (Some []) True 100 2)"
  shows "\<exists>f. sorts_desc f \<and> distinct (map me_Category (fst (MemoryStore_Recent f 9 ''a:b'' 3 s)))"
proof (intro exI conjI)
  let ?f = "sort_key (\<lambda>e. - me_CreatedAt e)"
  show f: "sorts_desc ?f"
  proof -
    have "newest_first (?f xs)" for xs
      using sorted_sort_key [of "\<lambda>e. - me_CreatedAt e" xs] by (simp add: newest_first_def sorted_map)
    then show ?thesis by (simp add: sorts_desc_def)
  qed
  from memory_recent_newest [OF f, of 9 "''a:b''" 3 s]
  show "distinct (map me_Category (fst (MemoryStore_Recent ?f 9 ''a:b'' 3 s)))" by blast
qed

section \<open>Operations that overlap\<close>

lemma prune_snoc:
  assumes "me_CreatedAt e = now"
  shows "\<exists>ys. pruneLocked ttl mx now (xs @ [e]) = ys @ [e] \<and> set ys \<subseteq> set xs"
proof -
  have a: "age_filter ttl now (xs @ [e]) = age_filter ttl now xs @ [e]"
    using assms by (auto simp: age_filter_def live_entry_def)
  show ?thesis
  proof (cases "mx > 0")
    case True
    then obtain n where n: "nat mx = Suc n" by (cases "nat mx") auto
    have "lastn (Suc n) (age_filter ttl now xs @ [e]) = lastn n (age_filter ttl now xs) @ [e]"
      by (simp add: lastn_def)
    then show ?thesis using True n set_lastn [of n "age_filter ttl now xs"] set_age_filter [of ttl now xs]
      by (auto simp: prune_eq cap_last_def a simp del: age_filter_append)
  next
    case False
    then show ?thesis using set_age_filter [of ttl now xs] by (auto simp: prune_eq cap_last_def a simp del: age_filter_append)
  qed
qed

lemma remove_id_snoc: "ident \<notin> me_ID ` set ys \<Longrightarrow> me_ID e = ident \<Longrightarrow> remove_id ident (ys @ [e]) = Some ys"
  by (induction ys) auto

lemma replayed_append: "replayed ttl k (xs @ ys) = replayed ttl k xs @ replayed ttl k ys"
  by (simp add: replayed_def)

lemma restart_entries:
  assumes "length ts = length ls"
  shows "fst (MemoryStore_All now k (NewMemoryStoreWithLimits w op ord now ts (Some ls) True ttl mx)) =
    pruneLocked ttl mx now (pruneLocked ttl mx now (replayed ttl k (zip ts ls)))"
  using replay_entries [OF assms, of ttl Map.empty k]
  by (simp add: MemoryStore_All_def NewMemoryStoreWithLimits_def Memory_replayJournal_def mst_prune_def [abs_def] Let_def
      gomap_get_map_option pruneLocked_def [of _ _ _ "[]"])

text \<open>
  A deletion can be undone by the save it overtakes: \<^verbatim>\<open>Save\<close> appends to the journal after it
  has released the store. When a delete of the new entry runs in between, the delete succeeds
  and the entry is gone from memory, but its line is written after the journal was rewritten,
  and the next start brings the entry back.
\<close>

theorem memory_delete_race:
  assumes reach: "memory_reach fmt ttl mx t s"
    and e: "me_CreatedAt e = now" "me_ID e \<notin> me_ID ` set (entries_of s (me_UserKey e))"
    and run: "MemoryStore_Delete True True ord (me_UserKey e) (me_ID e) (Save_memory now e s) = (ok, s2)"
  shows "ok \<and> e \<notin> set (fst (MemoryStore_All now (me_UserKey e) (appendJournal e s2))) \<and>
    (\<exists>ls. mst_disk (appendJournal e s2) = Some ls \<and>
       e \<in> set (fst (MemoryStore_All now (me_UserKey e)
         (NewMemoryStoreWithLimits True True ord' now (replicate (length ls) now) (Some ls) True ttl mx))))"
proof -
  let ?k = "me_UserKey e" and ?s1 = "Save_memory now e s"
  from memory_reach_inv [OF reach] obtain D where inv: "memory_inv ttl mx t s D" ..
  then have par: "mst_ttl s = ttl" "mst_maxPerUser s = mx" "mst_filePath s" by (simp_all add: memory_inv_def)
  obtain ys where ys: "pruneLocked ttl mx now (entries_of s ?k @ [e]) = ys @ [e]" "set ys \<subseteq> set (entries_of s ?k)"
    using prune_snoc [OF e(1), of ttl mx "entries_of s ?k"] by auto
  then have id: "me_ID e \<notin> me_ID ` set ys" using e(2) by blast
  have "entries_of ?s1 ?k = ys @ [e]" by (simp add: Save_memory_def mst_prune_def par ys(1))
  with id have rm: "remove_id (me_ID e) (entries_of ?s1 ?k) = Some ys" by (simp add: remove_id_snoc)
  define s' where "s' = ?s1\<lparr>mst_entries := (mst_entries ?s1)(?k \<mapsto> ys)\<rparr>"
  have s2: "ok" "s2 = rewriteJournalLocked True True (concat (map (entries_of s') ord)) s'"
    using run rm by (auto simp: MemoryStore_Delete_def s'_def Let_def simp del: gomap_get_upd)
  have fp: "mst_filePath s'" "mst_ttl s' = ttl" "mst_maxPerUser s' = mx" by (simp_all add: s'_def Save_memory_def par)
  have "entries_of (appendJournal e s2) ?k = ys" using fp by (simp add: appendJournal_def s2 s'_def)
  moreover have "e \<notin> set ys" using id by blast
  ultimately have gone: "e \<notin> set (fst (MemoryStore_All now ?k (appendJournal e s2)))"
    using set_prune [of "mst_ttl (appendJournal e s2)" "mst_maxPerUser (appendJournal e s2)" now ys]
    by (auto simp: MemoryStore_All_def mst_prune_def Let_def)
  obtain ls where ls: "mst_disk (appendJournal e s2) = Some (ls @ [Some e])"
    using fp by (simp add: appendJournal_def s2)
  let ?ls = "ls @ [Some e]"
  have z: "zip (replicate (length ?ls) now) ?ls = zip (replicate (length ls) now) ls @ [(now, Some e)]"
    using zip_append [of "replicate (length ls) now" ls "[now]" "[Some e]"] by (simp add: replicate_append_same)
  obtain zs where "replayed ttl ?k (zip (replicate (length ?ls) now) ?ls) = zs @ [e]"
    unfolding z replayed_append using e(1) by (simp add: replayed_simps)
  note zs = this
  obtain ys1 where ys1: "pruneLocked ttl mx now (zs @ [e]) = ys1 @ [e]" using prune_snoc [OF e(1), of ttl mx zs] by blast
  obtain ys2 where "pruneLocked ttl mx now (ys1 @ [e]) = ys2 @ [e]" using prune_snoc [OF e(1), of ttl mx ys1] by blast
  then have "e \<in> set (pruneLocked ttl mx now (pruneLocked ttl mx now (replayed ttl ?k (zip (replicate (length ?ls) now) ?ls))))"
    unfolding zs ys1 by simp
  then have "e \<in> set (fst (MemoryStore_All now ?k (NewMemoryStoreWithLimits True True ord' now (replicate (length ?ls) now) (Some ?ls) True ttl mx)))"
    by (subst restart_entries) simp_all
  with s2(1) gone ls show ?thesis by blast
qed

theorem memory_delete_race_witness:
  defines "s \<equiv> NewMemoryStoreWithLimits True True [] 5 [] (Some []) True 100 2"
  defines "e \<equiv> (sample_fact ''a:b'' ''x'')\<lparr>me_ID := ''1'', me_CreatedAt := 6\<rparr>"
  shows "\<exists>s2. MemoryStore_Delete True True [''a:b''] ''a:b'' ''1'' (Save_memory 6 e s) = (True, s2) \<and>
    (\<exists>ls. mst_disk (appendJournal e s2) = Some ls \<and>
       e \<in> set (fst (MemoryStore_All 6 ''a:b'' (NewMemoryStoreWithLimits True True [''a:b''] 6 (replicate (length ls) 6) (Some ls) True 100 2))))"
proof -
  obtain ok s2 where run: "MemoryStore_Delete True True [''a:b''] (me_UserKey e) (me_ID e) (Save_memory 6 e s) = (ok, s2)"
    by fastforce
  have ek: "me_UserKey e = ''a:b''" "me_ID e = ''1''" "me_CreatedAt e = 6"
    by (simp_all add: e_def sample_fact_def new_entry_def)
  have ne: "me_ID e \<notin> me_ID ` set (entries_of s (me_UserKey e))"
    by (simp add: s_def NewMemoryStoreWithLimits_def Memory_replayJournal_def)
  from memory_delete_race [OF memory_reach.start [of "\<lambda>t. ''t''" 100 2 5, folded s_def] ek(3) ne run]
  show ?thesis using run unfolding ek by auto
qed

section \<open>From call to request\<close>

text \<open>
  What a user said is injected into the next request: when a call of a user yields one fact
  and the store holds nothing else for the user, a later request of the same tenant and user,
  while the fact lives, reaches the handler with the fact as its first, system, message.
\<close>

theorem remembered_fact_injected:
  assumes ev: "ev_Error ev = []" "\<not> ev_Streaming ev" "ev_Shadow ev = None" "ev_TenantID ev \<noteq> []" "ev_UserID ev \<noteq> []"
      "last_user_content (req_Messages (ev_Request ev)) \<noteq> []"
    and ident: "TenantID ident = ev_TenantID ev" "UserID ident = ev_UserID ev"
    and ext: "\<And>turn. extract (userKeyFromEvent ev) turn = Inr [e]" "me_UserKey e = userKeyFromEvent ev" "me_CreatedAt e = zero_time"
    and empty: "entries_of s (userKeyFromEvent ev) = []"
    and times: "t \<le> t'" "t' \<le> now" "mst_ttl s \<le> 0 \<or> now \<le> t + mst_ttl s"
    and sort: "sorts_desc sortDesc"
  shows "fst (MemoryMiddleware_request sortDesc now topK ident True (Some req)
      (snd (memory_OnEvent extract fmt [(t, t')] ev s))) =
    Some (req\<lparr>req_Messages := text_message ''system'' (FormatMemories [stamp fmt t e]) # req_Messages req\<rparr>)"
proof -
  let ?k = "userKeyFromEvent ev" and ?e = "stamp fmt t e"
  define s' where "s' = MemoryStore_Save fmt t t' e s"
  have key: "memoryUserKey ident = ?k" "?k \<noteq> []" using ev(4,5) ident by (simp_all add: memoryUserKey_def userKeyFromEvent_def)
  have on: "snd (memory_OnEvent extract fmt [(t, t')] ev s) = s'"
    using ev key(2) by (simp add: memory_OnEvent_def ext(1) s'_def Let_def)
  have e: "me_CreatedAt ?e = t" "me_UserKey ?e = ?k" using ext(2,3) by (simp_all add: stamp_def Let_def)
  have live: "pruneLocked (mst_ttl s) (mst_maxPerUser s) n [?e] = [?e]" if "n \<le> now" for n
    using times that e(1) by (auto simp: pruneLocked_def live_entry_def Let_def)
  have "entries_of s' ?k = [?e]"
    using live [OF times(2)] empty e(2) by (simp add: s'_def MemoryStore_Save_def Save_memory_def appendJournal_def mst_prune_def Let_def)
  moreover have "mst_ttl s' = mst_ttl s" "mst_maxPerUser s' = mst_maxPerUser s"
    by (simp_all add: s'_def MemoryStore_Save_def Save_memory_def appendJournal_def Let_def)
  ultimately have all: "fst (MemoryStore_All now ?k s') = [?e]"
    using live [of now] by (simp add: MemoryStore_All_def mst_prune_def Let_def)
  have "set (sortDesc [?e]) = {?e}" using sort by (simp add: sorts_desc_def)
  then obtain rest where rest: "sortDesc [?e] = ?e # rest" "set rest \<subseteq> {?e}" by (cases "sortDesc [?e]") auto
  then have "x \<notin> set (firsts [me_Category ?e] rest)" for x
    using subsetD [OF set_firsts, of x "[me_Category ?e]" rest] by auto
  then have "firsts [me_Category ?e] rest = []" by (metis last_in_set)
  then have "firsts [] (sortDesc [?e]) = [?e]" by (simp add: rest(1))
  then have "fst (MemoryStore_Recent sortDesc now ?k topK s') = [?e]"
    using all by (simp add: MemoryStore_Recent_def recent_loop_eq case_prod_beta)
  then show ?thesis unfolding on using key by (simp add: MemoryMiddleware_request_def FormatMemories_def case_prod_beta Let_def)
qed

theorem remembered_fact_injected_witness:
  defines "ev \<equiv> zero_event\<lparr>ev_TenantID := ''t'', ev_UserID := ''u'', ev_Request := zero_request\<lparr>req_Messages := [text_message ''user'' ''hi'']\<rparr>\<rparr>"
  defines "ident \<equiv> \<lparr>TenantID = ''t'', TeamID = [], UserID = ''u'', UseCaseID = []\<rparr>"
  defines "s \<equiv> NewMemoryStoreWithLimits True True [] 5 [] (Some []) True 100 2"
  defines "e \<equiv> sample_fact ''t:u'' ''User is Ann''"
  shows "fst (MemoryMiddleware_request (sort_key (\<lambda>e. - me_CreatedAt e)) 9 5 ident True (Some zero_request)
      (snd (memory_OnEvent (\<lambda>k turn. Inr [e]) (\<lambda>t. ''t'') [(6, 7)] ev s))) =
    Some (zero_request\<lparr>req_Messages := [text_message ''system'' (FormatMemories [stamp (\<lambda>t. ''t'') 6 e])]\<rparr>)"
proof -
  have "newest_first (sort_key (\<lambda>e. - me_CreatedAt e) xs)" for xs
    using sorted_sort_key [of "\<lambda>e. - me_CreatedAt e" xs] by (simp add: newest_first_def sorted_map)
  then have sort: "sorts_desc (sort_key (\<lambda>e. - me_CreatedAt e))" by (simp add: sorts_desc_def)
  have "fst (MemoryMiddleware_request (sort_key (\<lambda>e. - me_CreatedAt e)) 9 5 ident True (Some zero_request)
      (snd (memory_OnEvent (\<lambda>k turn. Inr [e]) (\<lambda>t. ''t'') [(6, 7)] ev s))) =
    Some (zero_request\<lparr>req_Messages := text_message ''system'' (FormatMemories [stamp (\<lambda>t. ''t'') 6 e]) # req_Messages zero_request\<rparr>)"
    by (rule remembered_fact_injected [OF _ _ _ _ _ _ _ _ _ _ _ _ _ _ _ sort])
      (simp_all add: ev_def ident_def s_def e_def zero_event_def zero_request_def last_user_content_def text_message_def
        userKeyFromEvent_def sample_fact_def new_entry_def NewMemoryStoreWithLimits_def Memory_replayJournal_def)
  then show ?thesis by (simp add: zero_request_def)
qed

text \<open>A tenant and user whose names contain colons share the memory of another pair.\<close>

lemma memoryUserKey_collision:
  "memoryUserKey \<lparr>TenantID = ''a'', TeamID = [], UserID = ''b:c'', UseCaseID = []\<rparr> =
   memoryUserKey \<lparr>TenantID = ''a:b'', TeamID = [], UserID = ''c'', UseCaseID = []\<rparr>"
  by (simp add: memoryUserKey_def)

lemma memoryUserKey_inject:
  "CHR '':'' \<notin> set (TenantID i) \<Longrightarrow> CHR '':'' \<notin> set (TenantID j) \<Longrightarrow> memoryUserKey i \<noteq> [] \<Longrightarrow>
   memoryUserKey i = memoryUserKey j \<Longrightarrow> TenantID i = TenantID j \<and> UserID i = UserID j"
  by (auto simp: memoryUserKey_def append_sep_cancel split: if_splits)

text \<open>
  Two extractors that name the same category with different words both keep their fact, so the
  rule extractor does not take precedence.
\<close>

lemma multi_extractor_keeps_both:
  assumes "r userKey turn = Inr [e1]" "l userKey turn = Inr [e2]" "me_Category e1 @ ''|'' @ me_Content e1 \<noteq> me_Category e2 @ ''|'' @ me_Content e2"
  shows "MultiExtractor_Extract [r, l] userKey turn = Inr [e1, e2]"
  using assms by (simp add: MultiExtractor_Extract_def dedup_step_def Let_def)

text \<open>
  The handler works on the caller's own entries: a request of one user leaves the entries of
  another untouched.
\<close>

lemma handler_isolated:
  assumes "memoryUserKey j \<noteq> memoryUserKey i"
  shows "entries_of (snd (MemoryHandler_ServeHTTP w op ord now i meth s)) (memoryUserKey j) = entries_of s (memoryUserKey j)"
  using assms
  by (auto simp: MemoryHandler_ServeHTTP_def MemoryStore_All_def MemoryStore_Delete_def rewriteJournalLocked_def Let_def
      split: memory_method.splits option.splits prod.splits bool.splits)

end
