(* ===== verification/Budget.thy ===== *)
theory Budget
  imports RateLimit
begin

text \<open>
  The budget plugin (\<^verbatim>\<open>plugins/budget/plugin.go\<close>): a request interceptor that blocks callers over
  their spend limit, and an event consumer that accumulates spend at every level of the
  caller's hierarchy and journals it. The journal is the list of its lines, \<open>None\<close> for one that
  does not parse. Formatted amounts in messages are kept as the amounts.
\<close>

section \<open>State\<close>

record Limit =
  LimitUSD :: float64
  WarnAt :: float64

record deltaEntry =
  de_Key :: string
  de_SpentUSD :: float64
  de_Timestamp :: time

record BudgetPlugin =
  bp_spent :: "(string, float64) gomap"
  bp_reserved :: "(string, float64) gomap"
  bp_avgCost :: "(string, float64) gomap"
  bp_calls :: "(string, int) gomap"
  bp_warned :: "(string, bool) gomap"
  bp_limits :: "(string, Limit) gomap"
  bp_bus :: bool
  bp_file :: bool

text \<open>The error of a blocked request, and the warning event with the values its text reports.\<close>

record BudgetBlocked =
  bb_Interceptor :: string
  bb_Category :: string
  bb_Scope :: string
  bb_LimitUSD :: float64
  bb_SpentUSD :: float64

record BudgetWarning =
  bw_Timestamp :: time
  bw_TenantID :: string
  bw_Scope :: string
  bw_SpentUSD :: float64
  bw_LimitUSD :: float64

abbreviation spent_of :: "BudgetPlugin \<Rightarrow> string \<Rightarrow> float64" where
  "spent_of p k \<equiv> gomap_get 0 (bp_spent p) k"
abbreviation reserved_of :: "BudgetPlugin \<Rightarrow> string \<Rightarrow> float64" where
  "reserved_of p k \<equiv> gomap_get 0 (bp_reserved p) k"
abbreviation avgCost_of :: "BudgetPlugin \<Rightarrow> string \<Rightarrow> float64" where
  "avgCost_of p k \<equiv> gomap_get 0 (bp_avgCost p) k"
abbreviation calls_of :: "BudgetPlugin \<Rightarrow> string \<Rightarrow> int" where
  "calls_of p k \<equiv> gomap_get 0 (bp_calls p) k"

section \<open>Operations\<close>

definition scopeKeys :: "Identity \<Rightarrow> string list" where
  "scopeKeys i =
     (if UserID i \<noteq> [] then
        (if TeamID i \<noteq> [] then [TenantID i @ '':'' @ TeamID i @ '':'' @ UserID i]
         else [TenantID i @ '':'' @ UserID i])
      else []) @
     (if TeamID i \<noteq> [] then [TenantID i @ '':'' @ TeamID i] else []) @
     (if TenantID i \<noteq> [] then [TenantID i] else [])"

text \<open>One replayed journal line.\<close>

definition apply_delta :: "(string, float64) gomap \<Rightarrow> deltaEntry \<Rightarrow> (string, float64) gomap" where
  "apply_delta spent e = spent(de_Key e \<mapsto> gomap_get 0 spent (de_Key e) + de_SpentUSD e)"

definition apply_line :: "(string, float64) gomap \<Rightarrow> deltaEntry option \<Rightarrow> (string, float64) gomap" where
  "apply_line spent l = (case l of None \<Rightarrow> spent | Some e \<Rightarrow> apply_delta spent e)"

text \<open>The journal file at start-up: absent, or its lines; and whether it can be opened to append.\<close>

definition Budget_replayJournal :: "deltaEntry option list option \<Rightarrow> bool \<Rightarrow> BudgetPlugin \<Rightarrow> BudgetPlugin" where
  "Budget_replayJournal content appendable p = (case content of
      None \<Rightarrow> p
    | Some lines \<Rightarrow>
        p\<lparr>bp_spent := foldl apply_line (bp_spent p) lines, bp_file := appendable\<rparr>)"

text \<open>\<open>None\<close> for the directory is the empty string: no persistence.\<close>

definition Budget_New :: "(string, Limit) gomap \<Rightarrow> bool \<Rightarrow> (deltaEntry option list option \<times> bool) option \<Rightarrow> BudgetPlugin" where
  "Budget_New limits b dir =
     (let p = \<lparr>bp_spent = Map.empty, bp_reserved = Map.empty, bp_avgCost = Map.empty,
               bp_calls = Map.empty, bp_warned = Map.empty, bp_limits = limits, bp_bus = b, bp_file = False\<rparr>
      in case dir of None \<Rightarrow> p | Some (content, appendable) \<Rightarrow> Budget_replayJournal content appendable p)"

fun Budget_check :: "BudgetPlugin \<Rightarrow> string list \<Rightarrow> BudgetBlocked option" where
  "Budget_check p [] = None"
| "Budget_check p (scope # scopes) = (case bp_limits p scope of
      None \<Rightarrow> Budget_check p scopes
    | Some limit \<Rightarrow>
        (let spent = spent_of p scope;
             projected = spent + reserved_of p scope + avgCost_of p scope
         in if spent \<ge> LimitUSD limit \<or> projected > LimitUSD limit
            then Some \<lparr>bb_Interceptor = ''budget'', bb_Category = ''budget_exceeded'', bb_Scope = scope,
                   bb_LimitUSD = LimitUSD limit, bb_SpentUSD = spent\<rparr>
            else Budget_check p scopes))"

definition Budget_reserve :: "BudgetPlugin \<Rightarrow> string \<Rightarrow> BudgetPlugin" where
  "Budget_reserve p scope = (if bp_limits p scope = None then p
     else p\<lparr>bp_reserved := (bp_reserved p)(scope \<mapsto> reserved_of p scope + avgCost_of p scope)\<rparr>)"

definition Budget_Intercept :: "Identity option \<Rightarrow> BudgetPlugin \<Rightarrow> BudgetBlocked option \<times> BudgetPlugin" where
  "Budget_Intercept ctx p =
     (let scopes = scopeKeys (FromContext ctx) in
      case Budget_check p scopes of
        Some blocked \<Rightarrow> (Some blocked, p)
      | None \<Rightarrow> (None, foldl Budget_reserve p scopes))"

text \<open>First pass of \<^verbatim>\<open>OnEvent\<close>: release the reservation, fold the cost into the average.\<close>

definition Budget_release :: "float64 option \<Rightarrow> BudgetPlugin \<Rightarrow> string \<Rightarrow> BudgetPlugin" where
  "Budget_release cost p scope =
     (if bp_limits p scope = None then p
      else
        let p = (if reserved_of p scope > 0
                 then let r = reserved_of p scope - avgCost_of p scope in
                      p\<lparr>bp_reserved := (bp_reserved p)(scope \<mapsto> (if r < 0 then 0 else r))\<rparr>
                 else p)
        in case cost of
             None \<Rightarrow> p
           | Some c \<Rightarrow>
               (let n = calls_of p scope + 1;
                    avg = avgCost_of p scope
                in p\<lparr>bp_calls := (bp_calls p)(scope \<mapsto> n),
                     bp_avgCost := (bp_avgCost p)(scope \<mapsto> avg + (c - avg) / real_of_int n)\<rparr>))"

text \<open>Second pass, one scope: accumulate, journal, and warn once at the threshold.\<close>

definition Budget_accumulate :: "time \<Rightarrow> string \<Rightarrow> float64 \<Rightarrow> BudgetPlugin \<Rightarrow> string \<Rightarrow>
    (deltaEntry list \<times> BudgetWarning list) \<times> BudgetPlugin" where
  "Budget_accumulate now tenant cost p scope =
     (let newSpent = spent_of p scope + cost;
          alreadyWarned = gomap_get False (bp_warned p) scope;
          p = p\<lparr>bp_spent := (bp_spent p)(scope \<mapsto> newSpent)\<rparr>;
          journal = (if bp_file p then [\<lparr>de_Key = scope, de_SpentUSD = cost, de_Timestamp = now\<rparr>] else [])
      in case bp_limits p scope of
           None \<Rightarrow> ((journal, []), p)
         | Some limit \<Rightarrow>
             (let warnAt = (if WarnAt limit \<le> 0 then 8 / 10 else WarnAt limit) in
              if \<not> alreadyWarned \<and> newSpent \<ge> LimitUSD limit * warnAt
              then ((journal,
                     if bp_bus p then [\<lparr>bw_Timestamp = now, bw_TenantID = tenant, bw_Scope = scope,
                                        bw_SpentUSD = newSpent, bw_LimitUSD = LimitUSD limit\<rparr>] else []),
                    p\<lparr>bp_warned := (bp_warned p)(scope \<mapsto> True)\<rparr>)
              else ((journal, []), p)))"

fun Budget_accumulate_all :: "time \<Rightarrow> string \<Rightarrow> float64 \<Rightarrow> BudgetPlugin \<Rightarrow> string list \<Rightarrow>
    (deltaEntry list \<times> BudgetWarning list) \<times> BudgetPlugin" where
  "Budget_accumulate_all now tenant cost p [] = (([], []), p)"
| "Budget_accumulate_all now tenant cost p (scope # scopes) =
     (let ((j1, w1), p) = Budget_accumulate now tenant cost p scope;
          ((j2, w2), p) = Budget_accumulate_all now tenant cost p scopes
      in ((j1 @ j2, w1 @ w2), p))"

definition event_identity :: "CallEvent \<Rightarrow> Identity" where
  "event_identity ev = \<lparr>TenantID = ev_TenantID ev, TeamID = ev_TeamID ev, UserID = ev_UserID ev, UseCaseID = []\<rparr>"

definition event_hasCost :: "CallEvent \<Rightarrow> bool" where
  "event_hasCost ev \<longleftrightarrow> ev_Error ev = [] \<and> TotalUSD (ev_Cost ev) > 0"

definition Budget_OnEvent :: "time \<Rightarrow> CallEvent \<Rightarrow> BudgetPlugin \<Rightarrow>
    (deltaEntry list \<times> BudgetWarning list) \<times> BudgetPlugin" where
  "Budget_OnEvent now ev p =
     (if ev_Shadow ev \<noteq> None then (([], []), p)
      else
        let scopes = scopeKeys (event_identity ev);
            cost = TotalUSD (ev_Cost ev);
            p = foldl (Budget_release (if event_hasCost ev then Some cost else None)) p scopes
        in if \<not> event_hasCost ev then (([], []), p)
           else Budget_accumulate_all now (ev_TenantID ev) cost p scopes)"

definition Budget_Spent :: "string \<Rightarrow> BudgetPlugin \<Rightarrow> float64" where
  "Budget_Spent key p = spent_of p key"

definition Budget_Reset :: "string \<Rightarrow> BudgetPlugin \<Rightarrow> BudgetPlugin" where
  "Budget_Reset key p = p\<lparr>bp_spent := gomap_delete key (bp_spent p),
     bp_warned := gomap_delete key (bp_warned p), bp_reserved := gomap_delete key (bp_reserved p),
     bp_avgCost := gomap_delete key (bp_avgCost p), bp_calls := gomap_delete key (bp_calls p)\<rparr>"

section \<open>Runs\<close>

datatype budget_op = Intercepted "Identity option" | Observed time CallEvent

fun budget_step :: "BudgetPlugin \<Rightarrow> budget_op \<Rightarrow> BudgetPlugin" where
  "budget_step p (Intercepted ctx) = snd (Budget_Intercept ctx p)"
| "budget_step p (Observed now ev) = snd (Budget_OnEvent now ev p)"

fun budget_emits :: "BudgetPlugin \<Rightarrow> budget_op \<Rightarrow> deltaEntry list" where
  "budget_emits p (Intercepted ctx) = []"
| "budget_emits p (Observed now ev) = fst (fst (Budget_OnEvent now ev p))"

text \<open>What an operation adds to the spend of a scope.\<close>

fun op_cost :: "string \<Rightarrow> budget_op \<Rightarrow> float64" where
  "op_cost k (Intercepted ctx) = 0"
| "op_cost k (Observed now ev) =
     (if ev_Shadow ev = None \<and> event_hasCost ev \<and> k \<in> set (scopeKeys (event_identity ev))
      then TotalUSD (ev_Cost ev) else 0)"

lemma distinct_scopeKeys: "distinct (scopeKeys i)"
  by (auto simp: scopeKeys_def)

named_theorems budget_simps "what the plugin's operations do to its fields"

lemma reserve_fields [budget_simps]:
  "bp_limits (Budget_reserve p k) = bp_limits p" "bp_spent (Budget_reserve p k) = bp_spent p"
  "bp_avgCost (Budget_reserve p k) = bp_avgCost p" "bp_calls (Budget_reserve p k) = bp_calls p"
  "bp_file (Budget_reserve p k) = bp_file p"
  by (simp_all add: Budget_reserve_def)

lemma reserve_all_fields [budget_simps]:
  "bp_limits (foldl Budget_reserve p ks) = bp_limits p" "bp_spent (foldl Budget_reserve p ks) = bp_spent p"
  "bp_avgCost (foldl Budget_reserve p ks) = bp_avgCost p" "bp_calls (foldl Budget_reserve p ks) = bp_calls p"
  "bp_file (foldl Budget_reserve p ks) = bp_file p"
  by (induction ks arbitrary: p) (simp_all add: reserve_fields)

lemma release_fields [budget_simps]:
  "bp_limits (Budget_release c p k) = bp_limits p" "bp_spent (Budget_release c p k) = bp_spent p"
  "bp_file (Budget_release c p k) = bp_file p"
  by (simp_all add: Budget_release_def Let_def split: option.splits)

lemma release_all_fields [budget_simps]:
  "bp_limits (foldl (Budget_release c) p ks) = bp_limits p" "bp_spent (foldl (Budget_release c) p ks) = bp_spent p"
  "bp_file (foldl (Budget_release c) p ks) = bp_file p"
  by (induction ks arbitrary: p) (simp_all add: release_fields)

lemma accumulate_fields [budget_simps]:
  "bp_limits (snd (Budget_accumulate now t c p k)) = bp_limits p"
  "bp_file (snd (Budget_accumulate now t c p k)) = bp_file p"
  "bp_avgCost (snd (Budget_accumulate now t c p k)) = bp_avgCost p"
  "bp_calls (snd (Budget_accumulate now t c p k)) = bp_calls p"
  "bp_spent (snd (Budget_accumulate now t c p k)) = (bp_spent p)(k \<mapsto> spent_of p k + c)"
  by (simp_all add: Budget_accumulate_def Let_def split: option.splits)

lemma accumulate_all_fields [budget_simps]:
  "bp_limits (snd (Budget_accumulate_all now t c p ks)) = bp_limits p"
  "bp_file (snd (Budget_accumulate_all now t c p ks)) = bp_file p"
  "bp_avgCost (snd (Budget_accumulate_all now t c p ks)) = bp_avgCost p"
  "bp_calls (snd (Budget_accumulate_all now t c p ks)) = bp_calls p"
  by (induction ks arbitrary: p) (simp_all add: accumulate_fields Let_def case_prod_beta)

lemma reserve_all_reserved:
  "distinct ks \<Longrightarrow> reserved_of (foldl Budget_reserve p ks) k =
     reserved_of p k + (if k \<in> set ks \<and> bp_limits p k \<noteq> None then avgCost_of p k else 0)"
  by (induction ks arbitrary: p) (auto simp: Budget_reserve_def)

lemma accumulate_all_spent:
  "distinct ks \<Longrightarrow> spent_of (snd (Budget_accumulate_all now t c p ks)) k =
     spent_of p k + (if k \<in> set ks then c else 0)"
  by (induction ks arbitrary: p) (auto simp: accumulate_fields Let_def case_prod_beta)

text \<open>The running average times its sample count is the sum of the samples.\<close>

lemma release_average:
  assumes "0 \<le> calls_of p k"
  shows "0 \<le> calls_of (Budget_release c p k') k"
    and "avgCost_of (Budget_release c p k') k * real_of_int (calls_of (Budget_release c p k') k) =
      avgCost_of p k * real_of_int (calls_of p k) +
      (case c of Some x \<Rightarrow> if k' = k \<and> bp_limits p k \<noteq> None then x else 0 | None \<Rightarrow> 0)"
proof -
  have mean: "(a + (x - a) / (n + 1)) * (n + 1) = a * n + x" if "0 \<le> n" for a x n :: real
    using that by (simp add: field_simps)
  show "0 \<le> calls_of (Budget_release c p k') k"
    using assms by (auto simp: Budget_release_def Let_def split: option.splits)
  show "avgCost_of (Budget_release c p k') k * real_of_int (calls_of (Budget_release c p k') k) =
      avgCost_of p k * real_of_int (calls_of p k) +
      (case c of Some x \<Rightarrow> if k' = k \<and> bp_limits p k \<noteq> None then x else 0 | None \<Rightarrow> 0)"
    using assms mean [of "real_of_int (calls_of p k)"]
    by (auto simp: Budget_release_def Let_def split: option.splits)
qed

lemma release_all_average:
  "distinct ks \<Longrightarrow> 0 \<le> calls_of p k \<Longrightarrow> 0 \<le> calls_of (foldl (Budget_release c) p ks) k \<and>
    avgCost_of (foldl (Budget_release c) p ks) k * real_of_int (calls_of (foldl (Budget_release c) p ks) k) =
      avgCost_of p k * real_of_int (calls_of p k) +
      (case c of Some x \<Rightarrow> if k \<in> set ks \<and> bp_limits p k \<noteq> None then x else 0 | None \<Rightarrow> 0)"
proof (induction ks arbitrary: p)
  case (Cons a ks)
  from Cons.IH [of "Budget_release c p a"] Cons.prems release_average [of p k c a]
  show ?case by (auto simp: release_fields split: option.splits)
qed (simp split: option.splits)

text \<open>One operation's effect on the books of a scope.\<close>

lemma step_spent: "spent_of (budget_step p op) k = spent_of p k + op_cost k op"
proof (cases op)
  case (Intercepted ctx)
  then show ?thesis
    by (simp add: Budget_Intercept_def Let_def budget_simps split: option.splits)
next
  case (Observed now ev)
  then show ?thesis
    by (auto simp: Budget_OnEvent_def Let_def budget_simps accumulate_all_spent distinct_scopeKeys)
qed

lemma step_limits: "bp_limits (budget_step p op) = bp_limits p" "bp_file (budget_step p op) = bp_file p"
  by (cases op; simp add: Budget_Intercept_def Budget_OnEvent_def Let_def budget_simps split: option.splits)+

lemma step_average:
  assumes "0 \<le> calls_of p k" "bp_limits p k \<noteq> None"
  shows "0 \<le> calls_of (budget_step p op) k \<and>
    avgCost_of (budget_step p op) k * real_of_int (calls_of (budget_step p op) k) =
      avgCost_of p k * real_of_int (calls_of p k) + op_cost k op"
proof (cases op)
  case (Intercepted ctx)
  then show ?thesis using assms
    by (auto simp: Budget_Intercept_def Let_def budget_simps split: option.splits)
next
  case (Observed now ev)
  let ?c = "if event_hasCost ev then Some (TotalUSD (ev_Cost ev)) else None"
  from release_all_average [OF distinct_scopeKeys, of p k ?c "event_identity ev"] assms Observed
  show ?thesis
    by (auto simp: Budget_OnEvent_def Let_def budget_simps)
qed

section \<open>The gate\<close>

definition within_limit :: "BudgetPlugin \<Rightarrow> string \<Rightarrow> bool" where
  "within_limit p k = (case bp_limits p k of None \<Rightarrow> True
     | Some l \<Rightarrow> spent_of p k < LimitUSD l \<and> spent_of p k + reserved_of p k + avgCost_of p k \<le> LimitUSD l)"

lemma Budget_check_None: "Budget_check p ks = None \<longleftrightarrow> list_all (within_limit p) ks"
  by (induction ks) (auto simp: within_limit_def Let_def split: option.splits)

lemma Budget_check_Some:
  "Budget_check p ks = Some b \<Longrightarrow> \<exists>pre post. ks = pre @ bb_Scope b # post \<and> list_all (within_limit p) pre \<and>
     \<not> within_limit p (bb_Scope b)"
proof (induction ks)
  case (Cons k ks)
  show ?case
  proof (cases "within_limit p k")
    case True
    with Cons.prems have "Budget_check p ks = Some b"
      by (auto simp: within_limit_def Let_def split: option.splits if_splits)
    with Cons.IH obtain pre post where "ks = pre @ bb_Scope b # post" "list_all (within_limit p) pre"
      "\<not> within_limit p (bb_Scope b)" by blast
    with True show ?thesis by (intro exI [of _ "k # pre"] exI [of _ post]) simp
  next
    case False
    with Cons.prems have "bb_Scope b = k"
      by (auto simp: within_limit_def Let_def split: option.splits if_splits)
    with False show ?thesis by (intro exI [of _ "[]"] exI [of _ ks]) simp
  qed
qed simp

text \<open>
  C12. The budget gate: a request passes exactly when every scope of the caller that has a limit
  is below it, also with the running reservations and the expected cost of this call counted;
  then that cost is reserved at each such scope and spend plus reservations stays within the
  limit. A blocked request names the first scope that fails and changes nothing.
\<close>

theorem budget_gate:
  defines "scopes ctx \<equiv> scopeKeys (FromContext ctx)"
  shows "(fst (Budget_Intercept ctx p) = None \<longleftrightarrow> list_all (within_limit p) (scopes ctx)) \<and>
    (case Budget_Intercept ctx p of
       (None, p') \<Rightarrow> bp_spent p' = bp_spent p \<and>
         list_all (\<lambda>k. case bp_limits p k of None \<Rightarrow> reserved_of p' k = reserved_of p k
           | Some l \<Rightarrow> reserved_of p' k = reserved_of p k + avgCost_of p k \<and>
                       spent_of p' k + reserved_of p' k \<le> LimitUSD l) (scopes ctx)
     | (Some b, p') \<Rightarrow> p' = p \<and> bb_Scope b \<in> set (scopes ctx) \<and> \<not> within_limit p (bb_Scope b))"
proof (cases "Budget_check p (scopes ctx)")
  case None
  then have ok: "list_all (within_limit p) (scopes ctx)" by (simp add: Budget_check_None)
  have "list_all (\<lambda>k. case bp_limits p k of
      None \<Rightarrow> reserved_of (foldl Budget_reserve p (scopes ctx)) k = reserved_of p k
    | Some l \<Rightarrow> reserved_of (foldl Budget_reserve p (scopes ctx)) k = reserved_of p k + avgCost_of p k \<and>
        spent_of (foldl Budget_reserve p (scopes ctx)) k + reserved_of (foldl Budget_reserve p (scopes ctx)) k \<le> LimitUSD l)
    (scopes ctx)"
    using ok
    by (auto simp: list_all_iff within_limit_def reserve_all_reserved distinct_scopeKeys scopes_def
        budget_simps split: option.splits dest!: bspec)
  with ok None show ?thesis
    by (simp add: Budget_Intercept_def Let_def budget_simps flip: scopes_def)
next
  case (Some b)
  then have "\<not> list_all (within_limit p) (scopes ctx)"
    using Budget_check_None [of p "scopes ctx"] by simp
  with Some Budget_check_Some [OF Some] show ?thesis
    by (auto simp: Budget_Intercept_def Let_def simp flip: scopes_def)
qed

section \<open>The books\<close>

lemma run_spent: "spent_of (foldl budget_step p ops) k = spent_of p k + sum_list (map (op_cost k) ops)"
  by (induction ops arbitrary: p) (simp_all add: step_spent)

lemma run_average:
  "0 \<le> calls_of p k \<Longrightarrow> bp_limits p k \<noteq> None \<Longrightarrow> 0 \<le> calls_of (foldl budget_step p ops) k \<and>
   avgCost_of (foldl budget_step p ops) k * real_of_int (calls_of (foldl budget_step p ops) k) =
     avgCost_of p k * real_of_int (calls_of p k) + sum_list (map (op_cost k) ops)"
proof (induction ops arbitrary: p)
  case (Cons op ops)
  then show ?case using step_average [OF Cons.prems, of op] step_limits(1) [of p op] by auto
qed simp

text \<open>
  C36. The books are exact: after any interleaving of gated requests and call events, a scope's
  spend is what it was plus the cost of every successful non-shadow call made under it, at every
  level of the hierarchy at once, and for a scope with a limit the running average times the
  number of samples is the sum of those costs.
\<close>

theorem budget_books:
  fixes limits :: "(string, Limit) gomap" and b :: bool and dir :: "(deltaEntry option list option \<times> bool) option"
  defines "p \<equiv> Budget_New limits b dir"
  shows "spent_of (foldl budget_step p ops) k = spent_of p k + sum_list (map (op_cost k) ops) \<and>
    (limits k \<noteq> None \<longrightarrow> avgCost_of (foldl budget_step p ops) k * real_of_int (calls_of (foldl budget_step p ops) k) =
       sum_list (map (op_cost k) ops))"
proof -
  have "bp_limits p = limits" "calls_of p k = 0" "avgCost_of p k = 0"
    by (auto simp: p_def Budget_New_def Budget_replayJournal_def Let_def split: option.splits)
  then show ?thesis using run_spent [of p ops k] run_average [of p k ops] by simp
qed

definition sample_paid_event :: "float64 \<Rightarrow> CallEvent" where
  "sample_paid_event usd = zero_event\<lparr>ev_TenantID := ''acme'', ev_Cost := \<lparr>InputUSD = usd, OutputUSD = 0, TotalUSD = usd\<rparr>\<rparr>"

definition sample_limits :: "(string, Limit) gomap" where
  "sample_limits = [''acme'' \<mapsto> \<lparr>LimitUSD = 10, WarnAt = 0\<rparr>]"

lemma sample_event_simps:
  "ev_Shadow (sample_paid_event c) = None" "event_hasCost (sample_paid_event c) \<longleftrightarrow> 0 < c"
  "scopeKeys (event_identity (sample_paid_event c)) = [''acme'']" "TotalUSD (ev_Cost (sample_paid_event c)) = c"
  by (simp_all add: sample_paid_event_def zero_event_def event_hasCost_def scopeKeys_def event_identity_def)

theorem budget_books_witness:
  defines "p \<equiv> Budget_New sample_limits False None"
  defines "ops \<equiv> [Observed 1 (sample_paid_event 2), Observed 2 (sample_paid_event 4)]"
  shows "spent_of (foldl budget_step p ops) ''acme'' = 6 \<and> sample_limits ''acme'' \<noteq> None \<and>
    avgCost_of (foldl budget_step p ops) ''acme'' * real_of_int (calls_of (foldl budget_step p ops) ''acme'') = 6"
proof -
  have "sum_list (map (op_cost ''acme'') ops) = 6" by (simp add: ops_def sample_event_simps)
  moreover have "spent_of p ''acme'' = 0" by (simp add: p_def Budget_New_def)
  ultimately show ?thesis
    using budget_books [of sample_limits False None ops "''acme''"] by (simp add: p_def sample_limits_def)
qed

section \<open>The journal\<close>

lemma accumulate_journal:
  "bp_file p \<Longrightarrow> bp_spent (snd (Budget_accumulate now t c p k)) =
     foldl apply_delta (bp_spent p) (fst (fst (Budget_accumulate now t c p k)))"
  by (simp add: Budget_accumulate_def Let_def apply_delta_def split: option.splits)

lemma accumulate_all_journal:
  "bp_file p \<Longrightarrow> bp_spent (snd (Budget_accumulate_all now t c p ks)) =
     foldl apply_delta (bp_spent p) (fst (fst (Budget_accumulate_all now t c p ks)))"
proof (induction ks arbitrary: p)
  case (Cons k ks)
  then show ?case
    using Cons.IH [of "snd (Budget_accumulate now t c p k)"]
    by (simp add: accumulate_fields(2) accumulate_journal Let_def case_prod_beta)
qed simp

lemma step_journal: "bp_file p \<Longrightarrow> bp_spent (budget_step p op) = foldl apply_delta (bp_spent p) (budget_emits p op)"
  by (cases op)
    (auto simp: Budget_Intercept_def Budget_OnEvent_def Let_def budget_simps accumulate_all_journal
      split: option.splits)

interpretation budget_journal: journaled budget_step budget_emits apply_delta bp_spent bp_file
  by unfold_locales (simp_all add: step_limits step_journal)

lemma foldl_apply_line: "foldl apply_line m (map Some es) = foldl apply_delta m es"
  by (induction es arbitrary: m) (simp_all add: apply_line_def)

text \<open>
  Spend survives a restart: a plugin started on an existing journal, after any operations,
  and a plugin started on the journal those operations left behind, have the same spend at
  every scope, lines that do not parse included.
\<close>

theorem budget_restart:
  fixes limits :: "(string, Limit) gomap" and b :: bool
  defines "p lines \<equiv> Budget_New limits b (Some (Some lines, True))"
  shows "bp_spent (Budget_New limits' b' (Some (Some (lines @ map Some (run_journal budget_step budget_emits (p lines) ops)), app))) =
    bp_spent (foldl budget_step (p lines) ops)"
proof -
  have "bp_file (p lines)" "bp_spent (p lines) = foldl apply_line Map.empty lines"
    by (simp_all add: p_def Budget_New_def Budget_replayJournal_def Let_def)
  with budget_journal.replay_run [of "p lines" ops] show ?thesis
    by (simp add: Budget_New_def Budget_replayJournal_def Let_def foldl_apply_line)
qed

text \<open>
  The first run keeps no journal: when the journal file does not exist yet, start-up returns
  before it opens one to append to, so no operation of that process writes a line and all its
  spend is forgotten at the next start.
\<close>

theorem budget_first_run_not_journaled:
  "run_journal budget_step budget_emits (Budget_New limits b (Some (None, app))) ops = []"
proof -
  have silent: "budget_emits p op = []" if "\<not> bp_file p" for p op
  proof -
    have acc: "fst (fst (Budget_accumulate_all now t c q ks)) = []" if "\<not> bp_file q" for now t c q ks
      using that
      by (induction ks arbitrary: q)
        (auto simp: Budget_accumulate_def Let_def case_prod_beta split: option.splits)
    show ?thesis using that
      by (cases op) (simp_all add: Budget_OnEvent_def Let_def acc budget_simps)
  qed
  have "run_journal budget_step budget_emits p ops = []" if "\<not> bp_file p" for p
    using that by (induction ops arbitrary: p) (simp_all add: silent step_limits)
  then show ?thesis by (simp add: Budget_New_def Budget_replayJournal_def Let_def)
qed

section \<open>Reservations\<close>

text \<open>
  A reservation is not always given back: with an average of 2 per call and two requests in
  flight 4 is reserved; the first to finish costs 0.5 and lowers the average to 1.25 before the
  second gives back that much instead of the 2 it took, and 0.75 stays reserved with nothing
  left in flight.
\<close>

theorem budget_reservation_leaks:
  defines "ops \<equiv> [Observed 1 (sample_paid_event 2), Intercepted (Some (event_identity (sample_paid_event 0))),
      Intercepted (Some (event_identity (sample_paid_event 0))),
      Observed 2 (sample_paid_event (1 / 2)), Observed 3 (sample_paid_event (1 / 2))]"
  shows "reserved_of (foldl budget_step (Budget_New sample_limits False None) ops) ''acme'' = 3 / 4"
  by (simp add: ops_def Budget_New_def Budget_Intercept_def Budget_OnEvent_def Let_def FromContext_def
      sample_event_simps sample_limits_def Budget_release_def Budget_accumulate_def Budget_reserve_def)

text \<open>A user outside any team shares the scope key of a team of the same name.\<close>

lemma scopeKeys_collision:
  "hd (scopeKeys \<lparr>TenantID = ''acme'', TeamID = [], UserID = ''ops'', UseCaseID = []\<rparr>) =
   hd (scopeKeys \<lparr>TenantID = ''acme'', TeamID = ''ops'', UserID = [], UseCaseID = []\<rparr>)"
  by (simp add: scopeKeys_def)

end
