(* ===== verification/Auth.thy ===== *)
theory Auth
  imports Budget
begin

text \<open>
  Authentication of inbound requests, \<^verbatim>\<open>internal/ingress/auth.go\<close>, with its part of the configuration
  (\<^verbatim>\<open>internal/adapters/config/schema.go\<close>). The JWT library is an argument: \<open>parse token keyfunc options\<close>
  is \<^verbatim>\<open>jwt.Parse\<close> with the key function the code hands it, and \<open>jwt_contract\<close> states what the library
  documents. What a JWKS URL serves is an argument too. \<^verbatim>\<open>encoding/base64\<close> is modelled. A panic is
  \<open>None\<close>.
\<close>

section \<open>Configuration\<close>

record APIKeyEntry =
  ak_Key :: string
  ak_TenantID :: string
  ak_Scopes :: "string list"
  ak_DailyReqCap :: int
  ak_DailyTokenCap :: int

record JWTConfig =
  jwt_Secret :: string
  jwt_JWKSURL :: string
  jwt_Issuer :: string
  jwt_Audience :: string

record AuthConfig =
  auth_APIKeys :: "APIKeyEntry list"
  auth_JWT :: JWTConfig
  auth_DisableAuth :: bool

section \<open>Base64\<close>

text \<open>\<^verbatim>\<open>base64.RawURLEncoding\<close>: no padding, \<^verbatim>\<open>-\<close> and \<^verbatim>\<open>_\<close> as the last two digits; line ends are skipped.\<close>

definition b64_value :: "char \<Rightarrow> nat option" where
  "b64_value c = (let n = (of_char c :: nat) in
     if 65 \<le> n \<and> n \<le> 90 then Some (n - 65)
     else if 97 \<le> n \<and> n \<le> 122 then Some (n - 71)
     else if 48 \<le> n \<and> n \<le> 57 then Some (n + 4)
     else if n = 45 then Some 62
     else if n = 95 then Some 63
     else None)"

fun b64_bytes :: "nat list \<Rightarrow> string option" where
  "b64_bytes [] = Some []"
| "b64_bytes [a] = None"
| "b64_bytes [a, b] = Some [char_of (a * 4 + b div 16)]"
| "b64_bytes [a, b, c] = Some [char_of (a * 4 + b div 16), char_of (b mod 16 * 16 + c div 4)]"
| "b64_bytes (a # b # c # d # rest) = map_option (\<lambda>s. char_of (a * 4 + b div 16) #
     char_of (b mod 16 * 16 + c div 4) # char_of (c mod 4 * 64 + d) # s) (b64_bytes rest)"

definition RawURL_DecodeString :: "string \<Rightarrow> string option" where
  "RawURL_DecodeString s =
     (let ds = map b64_value (filter (\<lambda>c. c \<noteq> CHR 0x0A \<and> c \<noteq> CHR 0x0D) s) in
      if None \<in> set ds then None else b64_bytes (map the ds))"

text \<open>\<^verbatim>\<open>SetBytes\<close> and \<^verbatim>\<open>binary.BigEndian\<close>.\<close>

definition big_endian :: "string \<Rightarrow> nat" where
  "big_endian s = foldl (\<lambda>a c. 256 * a + of_char c) 0 s"

section \<open>Keys\<close>

record PublicKey =
  rsa_N :: nat
  rsa_E :: nat

text \<open>The offset in the message of a decoding error is left out: the token parser drops the message.\<close>

definition parseRSAPublicKey :: "string \<Rightarrow> string \<Rightarrow> (goerror + PublicKey) option" where
  "parseRSAPublicKey nB64 eB64 = (case RawURL_DecodeString nB64 of
      None \<Rightarrow> Some (Inl (plain_error ''illegal base64 data''))
    | Some nBytes \<Rightarrow> (case RawURL_DecodeString eB64 of
        None \<Rightarrow> Some (Inl (plain_error ''illegal base64 data''))
      | Some eBytes \<Rightarrow>
          if length eBytes > 4 then None
          else let padded = replicate (4 - length eBytes) (CHR 0x00) @ eBytes in
            Some (Inr \<lparr>rsa_N = big_endian nBytes, rsa_E = big_endian padded\<rparr>)))"

datatype signing_method = SigningMethodHMAC | SigningMethodRSA | OtherMethod

record jwt_token =
  tok_Method :: signing_method
  tok_kid :: "string option"

datatype jwt_key = SecretKey string | RSAKey PublicKey

record jwk =
  jwk_Kid :: string
  jwk_N :: string
  jwk_E :: string

datatype jwks_reply = FetchFailed | DecodeFailed | Served "jwk list"

definition fetchJWKSKey :: "(string \<Rightarrow> jwks_reply) \<Rightarrow> string \<Rightarrow> jwt_token \<Rightarrow> (goerror + jwt_key) option" where
  "fetchJWKSKey jwks url t =
     (if tok_Method t \<noteq> SigningMethodRSA then Some (Inl (plain_error ''unexpected signing method for JWKS auth''))
      else case jwks url of
        FetchFailed \<Rightarrow> Some (Inl (plain_error ''jwks: fetch failed''))
      | DecodeFailed \<Rightarrow> Some (Inl (plain_error ''jwks: decode failed''))
      | Served keys \<Rightarrow>
          let kid = (case tok_kid t of None \<Rightarrow> [] | Some k \<Rightarrow> k) in
          (case find (\<lambda>k. jwk_Kid k = kid \<or> kid = []) keys of
             None \<Rightarrow> Some (Inl (plain_error ''jwks: no matching key''))
           | Some k \<Rightarrow> map_option (map_sum (\<lambda>e. e) RSAKey) (parseRSAPublicKey (jwk_N k) (jwk_E k))))"

section \<open>Tokens\<close>

record parser_options =
  po_ExpirationRequired :: bool
  po_Issuer :: "string option"
  po_Audience :: "string option"

text \<open>\<open>Some None\<close> is an error, \<open>Some (Some claims)\<close> an accepted token, \<open>None\<close> a panic of the key function.\<close>

type_synonym claims = "(string \<times> json) list"
type_synonym keyfunc = "jwt_token \<Rightarrow> (goerror + jwt_key) option"
type_synonym jwt_parse = "string \<Rightarrow> keyfunc \<Rightarrow> parser_options \<Rightarrow> claims option option"

definition jwt_keyfunc :: "(string \<Rightarrow> jwks_reply) \<Rightarrow> JWTConfig \<Rightarrow> keyfunc" where
  "jwt_keyfunc jwks cfg t =
     (if jwt_Secret cfg \<noteq> [] then
        Some (if tok_Method t \<noteq> SigningMethodHMAC then Inl (plain_error ''unexpected signing method'')
              else Inr (SecretKey (jwt_Secret cfg)))
      else fetchJWKSKey jwks (jwt_JWKSURL cfg) t)"

definition jwt_options :: "JWTConfig \<Rightarrow> parser_options" where
  "jwt_options cfg = \<lparr>po_ExpirationRequired = True,
     po_Issuer = (if jwt_Issuer cfg \<noteq> [] then Some (jwt_Issuer cfg) else None),
     po_Audience = (if jwt_Audience cfg \<noteq> [] then Some (jwt_Audience cfg) else None)\<rparr>"

definition string_claim :: "string \<Rightarrow> claims \<Rightarrow> string" where
  "string_claim k claims = (case json_field k claims of Some (JStr v) \<Rightarrow> v | _ \<Rightarrow> [])"

definition validateJWT :: "jwt_parse \<Rightarrow> (string \<Rightarrow> jwks_reply) \<Rightarrow> string \<Rightarrow> JWTConfig \<Rightarrow> (goerror + Identity) option" where
  "validateJWT parse jwks tokenStr cfg = (case parse tokenStr (jwt_keyfunc jwks cfg) (jwt_options cfg) of
      None \<Rightarrow> None
    | Some None \<Rightarrow> Some (Inl (plain_error ''invalid token''))
    | Some (Some claims) \<Rightarrow>
        Some (Inr \<lparr>TenantID = firstNonEmpty [string_claim ''tenant_id'' claims, string_claim ''sub'' claims, ''default''],
                   TeamID = [], UserID = [], UseCaseID = []\<rparr>))"

section \<open>Middleware\<close>

text \<open>What the code reads of a request: the common name of the first client certificate, and its headers.\<close>

record auth_request =
  ar_peerCN :: "string option"
  ar_header :: "string \<Rightarrow> string"

definition extractBearerToken :: "auth_request \<Rightarrow> string" where
  "extractBearerToken r = (let auth = ar_header r ''Authorization'' in
     if HasPrefix auth ''Bearer '' then drop (length ''Bearer '') auth else [])"

definition extractBearerKey :: "auth_request \<Rightarrow> string" where
  "extractBearerKey r = (let auth = ar_header r ''Authorization'' in
     if \<not> HasPrefix auth ''Bearer '' then []
     else let val = drop (length ''Bearer '') auth in
       if Contains val ''.'' then [] else val)"

record AuthMiddleware =
  mw_cfg :: AuthConfig
  mw_keyIndex :: "(string, APIKeyEntry) gomap"

definition Auth_Reload :: "AuthConfig \<Rightarrow> AuthMiddleware \<Rightarrow> AuthMiddleware" where
  "Auth_Reload cfg m = m\<lparr>mw_cfg := cfg, mw_keyIndex := foldl (\<lambda>idx k. idx(ak_Key k \<mapsto> k)) Map.empty (auth_APIKeys cfg)\<rparr>"

definition NewAuthMiddleware :: "AuthConfig \<Rightarrow> AuthMiddleware" where
  "NewAuthMiddleware cfg = Auth_Reload cfg
     \<lparr>mw_cfg = \<lparr>auth_APIKeys = [], auth_JWT = \<lparr>jwt_Secret = [], jwt_JWKSURL = [], jwt_Issuer = [], jwt_Audience = []\<rparr>,
        auth_DisableAuth = False\<rparr>, mw_keyIndex = Map.empty\<rparr>"

definition presented_key :: "auth_request \<Rightarrow> string" where
  "presented_key r = (let rawKey = extractBearerKey r in if rawKey = [] then ar_header r ''X-API-Key'' else rawKey)"

definition jwt_configured :: "AuthConfig \<Rightarrow> bool" where
  "jwt_configured cfg \<longleftrightarrow> jwt_Secret (auth_JWT cfg) \<noteq> [] \<or> jwt_JWKSURL (auth_JWT cfg) \<noteq> []"

definition authenticate :: "jwt_parse \<Rightarrow> (string \<Rightarrow> jwks_reply) \<Rightarrow> auth_request \<Rightarrow> AuthConfig \<Rightarrow> (string, APIKeyEntry) gomap \<Rightarrow>
    (goerror + Identity) option" where
  "authenticate parse jwks r cfg keyIndex = (case ar_peerCN r of
      Some cn \<Rightarrow> Some (Inr \<lparr>TenantID = cn, TeamID = [], UserID = [], UseCaseID = ar_header r ''X-IXR-UseCase''\<rparr>)
    | None \<Rightarrow>
        let rawKey = presented_key r;
            jwt = (if jwt_configured cfg then
                     (let token = extractBearerToken r in
                      if token = [] then Some (Inl (plain_error ''missing authentication credentials''))
                      else validateJWT parse jwks token (auth_JWT cfg))
                   else Some (Inl (plain_error ''missing authentication credentials'')))
        in if rawKey \<noteq> [] then
             (case keyIndex rawKey of
                Some entry \<Rightarrow> Some (Inr \<lparr>TenantID = ak_TenantID entry, TeamID = [], UserID = [], UseCaseID = ar_header r ''X-IXR-UseCase''\<rparr>)
              | None \<Rightarrow> if \<not> jwt_configured cfg then Some (Inl (plain_error ''invalid API key'')) else jwt)
           else jwt)"

text \<open>The caller the wrapped handler sees, or the error sent with status 401.\<close>

definition Auth_Handler :: "jwt_parse \<Rightarrow> (string \<Rightarrow> jwks_reply) \<Rightarrow> AuthMiddleware \<Rightarrow> auth_request \<Rightarrow> (goerror + Identity) option" where
  "Auth_Handler parse jwks m r =
     (if auth_DisableAuth (mw_cfg m) then Some (Inr (Resolver_Resolve (ar_header r)))
      else authenticate parse jwks r (mw_cfg m) (mw_keyIndex m))"

section \<open>Base64 round trip\<close>

definition b64_char :: "nat \<Rightarrow> char" where
  "b64_char n = char_of (if n < 26 then 65 + n else if n < 52 then 71 + n else if n < 62 then n - 4 else if n = 62 then 45 else 95)"

fun b64_encode :: "string \<Rightarrow> string" where
  "b64_encode [] = []"
| "b64_encode [x] = (let a = (of_char x :: nat) in [b64_char (a div 4), b64_char (a mod 4 * 16)])"
| "b64_encode [x, y] = (let a = (of_char x :: nat); b = of_char y in
     [b64_char (a div 4), b64_char (a mod 4 * 16 + b div 16), b64_char (b mod 16 * 4)])"
| "b64_encode (x # y # z # s) = (let a = (of_char x :: nat); b = of_char y; c = of_char z in
     [b64_char (a div 4), b64_char (a mod 4 * 16 + b div 16), b64_char (b mod 16 * 4 + c div 64), b64_char (c mod 64)]) @ b64_encode s"

lemma b64_value_char: "n < 64 \<Longrightarrow> b64_value (b64_char n) = Some n"
  by (auto simp: b64_value_def b64_char_def of_char_of Let_def)

lemma b64_char_plain: "n < 64 \<Longrightarrow> b64_char n \<noteq> CHR 0x0A \<and> b64_char n \<noteq> CHR 0x0D"
  using b64_value_char [of n] by (auto simp: b64_value_def)

text \<open>The digits the encoder writes.\<close>

fun b64_digits :: "string \<Rightarrow> nat list" where
  "b64_digits [] = []"
| "b64_digits [x] = (let a = (of_char x :: nat) in [a div 4, a mod 4 * 16])"
| "b64_digits [x, y] = (let a = (of_char x :: nat); b = of_char y in [a div 4, a mod 4 * 16 + b div 16, b mod 16 * 4])"
| "b64_digits (x # y # z # s) = (let a = (of_char x :: nat); b = of_char y; c = of_char z in
     [a div 4, a mod 4 * 16 + b div 16, b mod 16 * 4 + c div 64, c mod 64]) @ b64_digits s"

lemma b64_encode_digits: "b64_encode s = map b64_char (b64_digits s)"
  by (induction s rule: b64_encode.induct) (simp_all add: Let_def)

lemma byte_bounds [simp]:
  "(of_char x :: nat) div 4 < 64" "(of_char x :: nat) div 16 < 16" "(of_char x :: nat) div 64 < 4"
  using nat_of_char_less_256 [of x] by linarith+

lemma sextet_sum: "(a :: nat) < 4 \<Longrightarrow> b < 16 \<Longrightarrow> a * 16 + b < 64" "(a :: nat) < 16 \<Longrightarrow> b < 4 \<Longrightarrow> a * 4 + b < 64"
  by linarith+

lemma b64_digits_small: "d \<in> set (b64_digits s) \<Longrightarrow> d < 64"
  by (induction s rule: b64_digits.induct) (auto simp: Let_def sextet_sum)

lemma b64_bytes_digits: "b64_bytes (b64_digits s) = Some s"
  by (induction s rule: b64_digits.induct) (simp_all add: Let_def)

lemma b64_roundtrip: "RawURL_DecodeString (b64_encode s) = Some s"
proof -
  have "filter (\<lambda>c. c \<noteq> CHR 0x0A \<and> c \<noteq> CHR 0x0D) (b64_encode s) = b64_encode s"
    by (auto simp: filter_id_conv b64_encode_digits dest!: b64_digits_small b64_char_plain)
  moreover have "map b64_value (b64_encode s) = map Some (b64_digits s)"
    by (auto simp: b64_encode_digits b64_value_char b64_digits_small)
  ultimately show ?thesis
    by (auto simp: RawURL_DecodeString_def b64_bytes_digits comp_def)
qed

section \<open>Properties\<close>

lemma big_endian_zeros: "big_endian (replicate n (CHR 0x00) @ s) = big_endian s"
proof -
  have "foldl (\<lambda>a c. 256 * a + of_char c) (0 :: nat) (replicate n (CHR 0x00)) = 0" by (induction n) auto
  then show ?thesis by (simp add: big_endian_def)
qed

text \<open>
  A key a JWKS document carries in base64 is the key with the modulus and exponent encoded, for
  exponents of at most four bytes; a longer exponent panics.
\<close>

theorem jwks_key_roundtrip:
  "parseRSAPublicKey (b64_encode n) (b64_encode e) =
     (if length e \<le> 4 then Some (Inr \<lparr>rsa_N = big_endian n, rsa_E = big_endian e\<rparr>) else None)"
  by (simp add: parseRSAPublicKey_def b64_roundtrip big_endian_zeros)

text \<open>
  The contract of the token parser: it accepts a token only when the key function gave a key for
  the token's header and the token's signature verifies under that key with the header's method,
  and then the token has an expiry.
\<close>

definition jwt_contract :: "jwt_parse \<Rightarrow> (string \<Rightarrow> jwt_token \<Rightarrow> jwt_key \<Rightarrow> bool) \<Rightarrow> bool" where
  "jwt_contract parse signed \<longleftrightarrow> (\<forall>token kf opts claims. parse token kf opts = Some (Some claims) \<longrightarrow>
     (\<exists>t key. kf t = Some (Inr key) \<and> signed token t key) \<and>
     (po_ExpirationRequired opts \<longrightarrow> json_field ''exp'' claims \<noteq> None))"

text \<open>What the code trusts a token by.\<close>

definition trusted_token :: "(string \<Rightarrow> jwks_reply) \<Rightarrow> JWTConfig \<Rightarrow> (string \<Rightarrow> jwt_token \<Rightarrow> jwt_key \<Rightarrow> bool) \<Rightarrow> string \<Rightarrow> bool" where
  "trusted_token jwks cfg signed token \<longleftrightarrow>
     (if jwt_Secret cfg \<noteq> []
      then \<exists>t. tok_Method t = SigningMethodHMAC \<and> signed token t (SecretKey (jwt_Secret cfg))
      else \<exists>t keys k pk. tok_Method t = SigningMethodRSA \<and> jwks (jwt_JWKSURL cfg) = Served keys \<and> k \<in> set keys \<and>
        parseRSAPublicKey (jwk_N k) (jwk_E k) = Some (Inr pk) \<and> signed token t (RSAKey pk))"

lemma keyfunc_trusted:
  assumes "jwt_keyfunc jwks cfg t = Some (Inr key)" "signed token t key"
  shows "trusted_token jwks cfg signed token"
proof (cases "jwt_Secret cfg = []")
  case False
  with assms show ?thesis by (auto simp: jwt_keyfunc_def trusted_token_def split: if_splits)
next
  case True
  with assms(1) have m: "tok_Method t = SigningMethodRSA" and
    f: "fetchJWKSKey jwks (jwt_JWKSURL cfg) t = Some (Inr key)"
    by (auto simp: jwt_keyfunc_def fetchJWKSKey_def split: if_splits)
  from f obtain keys where keys: "jwks (jwt_JWKSURL cfg) = Served keys"
    by (auto simp: fetchJWKSKey_def split: if_splits jwks_reply.splits)
  from f m keys obtain k where k: "find (\<lambda>k. jwk_Kid k = (case tok_kid t of None \<Rightarrow> [] | Some k \<Rightarrow> k) \<or>
      (case tok_kid t of None \<Rightarrow> [] | Some k \<Rightarrow> k) = []) keys = Some k"
    "map_option (map_sum (\<lambda>e. e) RSAKey) (parseRSAPublicKey (jwk_N k) (jwk_E k)) = Some (Inr key)"
    by (auto simp: fetchJWKSKey_def Let_def split: option.splits)
  from k(2) obtain pk where pk: "parseRSAPublicKey (jwk_N k) (jwk_E k) = Some (Inr pk)" "key = RSAKey pk"
    by (cases "parseRSAPublicKey (jwk_N k) (jwk_E k)"; cases "the (parseRSAPublicKey (jwk_N k) (jwk_E k))") auto
  have "k \<in> set keys" using k(1) by (auto simp: find_Some_iff)
  with m keys pk assms(2) True show ?thesis by (auto simp: trusted_token_def)
qed

lemma keyIndex_Some:
  "mw_keyIndex (Auth_Reload cfg m) key = Some e \<Longrightarrow> e \<in> set (auth_APIKeys cfg) \<and> ak_Key e = key"
proof -
  have "foldl (\<lambda>idx k. idx(ak_Key k \<mapsto> k)) m ks key = Some e \<Longrightarrow> m key = Some e \<or> e \<in> set ks \<and> ak_Key e = key" for ks m
  proof (induction ks arbitrary: m)
    case (Cons k ks)
    from Cons.IH [of "m(ak_Key k \<mapsto> k)"] Cons.prems show ?case by (auto split: if_splits)
  qed simp
  then show "mw_keyIndex (Auth_Reload cfg m) key = Some e \<Longrightarrow> e \<in> set (auth_APIKeys cfg) \<and> ak_Key e = key"
    by (fastforce simp: Auth_Reload_def)
qed

lemma keyIndex_dom: "mw_keyIndex (Auth_Reload cfg m) key \<noteq> None \<longleftrightarrow> key \<in> ak_Key ` set (auth_APIKeys cfg)"
proof -
  have "foldl (\<lambda>idx k. idx(ak_Key k \<mapsto> k)) m ks key \<noteq> None \<longleftrightarrow> m key \<noteq> None \<or> key \<in> ak_Key ` set ks" for ks m
    by (induction ks arbitrary: m) auto
  from this [of Map.empty "auth_APIKeys cfg"] show ?thesis by (simp add: Auth_Reload_def)
qed

lemma Reload_cfg [simp]: "mw_cfg (Auth_Reload cfg m) = cfg"
  by (simp add: Auth_Reload_def)

lemma firstNonEmpty_default: "firstNonEmpty [a, b, ''default''] \<noteq> []"
  by simp

lemma validated_token:
  assumes "validateJWT parse jwks token cfg = Some (Inr ident)" "jwt_contract parse signed"
  shows "trusted_token jwks cfg signed token \<and> TenantID ident \<noteq> []"
proof -
  from assms(1) obtain claims where claims: "parse token (jwt_keyfunc jwks cfg) (jwt_options cfg) = Some (Some claims)"
    and id: "TenantID ident = firstNonEmpty [string_claim ''tenant_id'' claims, string_claim ''sub'' claims, ''default'']"
    by (auto simp: validateJWT_def split: option.splits)
  from assms(2) claims obtain t key where "jwt_keyfunc jwks cfg t = Some (Inr key)" "signed token t key"
    unfolding jwt_contract_def by blast
  then show ?thesis using keyfunc_trusted id by auto
qed

text \<open>
  C7. With authentication on, a request passes only as the tenant of its client certificate, as the
  tenant of a configured key it presents, or with a bearer token signed as the configuration
  demands: by the shared secret with an HMAC method, or by a key of the JWKS document with an RSA
  method.
\<close>

theorem authenticated_caller:
  assumes "Auth_Handler parse jwks (Auth_Reload cfg m) r = Some (Inr ident)" "\<not> auth_DisableAuth cfg"
    and "jwt_contract parse signed"
  shows "ar_peerCN r = Some (TenantID ident) \<or>
    ar_peerCN r = None \<and> presented_key r \<noteq> [] \<and>
      (\<exists>e. e \<in> set (auth_APIKeys cfg) \<and> ak_Key e = presented_key r \<and> ak_TenantID e = TenantID ident) \<or>
    ar_peerCN r = None \<and> jwt_configured cfg \<and> trusted_token jwks (auth_JWT cfg) signed (extractBearerToken r) \<and> TenantID ident \<noteq> []"
proof (cases "ar_peerCN r")
  case (Some cn)
  with assms(1,2) show ?thesis by (auto simp: Auth_Handler_def authenticate_def)
next
  case None
  let ?idx = "mw_keyIndex (Auth_Reload cfg m)"
  have auth: "authenticate parse jwks r cfg ?idx = Some (Inr ident)"
    using assms(1,2) by (simp add: Auth_Handler_def)
  show ?thesis
  proof (cases "presented_key r \<noteq> [] \<and> ?idx (presented_key r) \<noteq> None")
    case True
    then obtain e where e: "?idx (presented_key r) = Some e" by blast
    with auth None True have "TenantID ident = ak_TenantID e" by (auto simp: authenticate_def)
    with keyIndex_Some [OF e] None True show ?thesis by auto
  next
    case False
    with auth None have "jwt_configured cfg" "validateJWT parse jwks (extractBearerToken r) (auth_JWT cfg) = Some (Inr ident)"
      by (auto simp: authenticate_def Let_def split: if_splits option.splits)
    with validated_token [OF _ assms(3)] None show ?thesis by blast
  qed
qed

text \<open>
  With API keys only, a request without a client certificate passes exactly when the key it
  presents is in the configuration last loaded: a key that a reload removed is refused at once,
  whatever was configured before.
\<close>

theorem api_key_gate:
  assumes "\<not> auth_DisableAuth cfg" "\<not> jwt_configured cfg" "ar_peerCN r = None"
  shows "(\<exists>ident. Auth_Handler parse jwks (Auth_Reload cfg m) r = Some (Inr ident)) \<longleftrightarrow>
    presented_key r \<noteq> [] \<and> presented_key r \<in> ak_Key ` set (auth_APIKeys cfg)"
  using assms keyIndex_dom [of cfg m "presented_key r"]
  by (auto simp: Auth_Handler_def authenticate_def Let_def split: option.splits)

text \<open>No path of the authentication sets a team or a user.\<close>

lemma authenticated_scopes:
  assumes "Auth_Handler parse jwks m r = Some (Inr ident)" "\<not> auth_DisableAuth (mw_cfg m)"
  shows "TeamID ident = [] \<and> UserID ident = []"
  using assms
  by (auto simp: Auth_Handler_def authenticate_def validateJWT_def Let_def split: option.splits if_splits)

lemma Budget_check_cong:
  "(\<And>k. k \<in> set ks \<Longrightarrow> bp_limits p k = bp_limits q k) \<Longrightarrow> bp_spent p = bp_spent q \<Longrightarrow> bp_reserved p = bp_reserved q \<Longrightarrow>
    bp_avgCost p = bp_avgCost q \<Longrightarrow> Budget_check p ks = Budget_check q ks"
  by (induction ks) (auto simp: Let_def split: option.splits)

text \<open>
  An authenticated caller is held only to its tenant's ceiling: team and user ceilings play no
  part in the decision of the budget plugin, because no path of the authentication sets the team
  or the user.
\<close>

theorem authenticated_ignores_team_ceilings:
  assumes "Auth_Handler parse jwks m r = Some (Inr ident)" "\<not> auth_DisableAuth (mw_cfg m)"
  shows "fst (Budget_Intercept (Some ident) p) =
    fst (Budget_Intercept (Some ident) (p\<lparr>bp_limits := (bp_limits p) |` {TenantID ident}\<rparr>))"
proof -
  have "scopeKeys ident = (if TenantID ident \<noteq> [] then [TenantID ident] else [])"
    using authenticated_scopes [OF assms] by (simp add: scopeKeys_def)
  then have "Budget_check p (scopeKeys ident) = Budget_check (p\<lparr>bp_limits := (bp_limits p) |` {TenantID ident}\<rparr>) (scopeKeys ident)"
    by (intro Budget_check_cong) (auto split: if_splits)
  then show ?thesis
    by (simp add: Budget_Intercept_def FromContext_def Let_def split: option.splits)
qed

section \<open>Witnesses\<close>

definition sample_auth :: AuthConfig where
  "sample_auth = \<lparr>auth_APIKeys = [\<lparr>ak_Key = ''k1'', ak_TenantID = ''acme'', ak_Scopes = [], ak_DailyReqCap = 0, ak_DailyTokenCap = 0\<rparr>],
     auth_JWT = \<lparr>jwt_Secret = [], jwt_JWKSURL = [], jwt_Issuer = [], jwt_Audience = []\<rparr>, auth_DisableAuth = False\<rparr>"

definition sample_jwt :: AuthConfig where
  "sample_jwt = sample_auth\<lparr>auth_JWT := \<lparr>jwt_Secret = ''s'', jwt_JWKSURL = [], jwt_Issuer = [], jwt_Audience = []\<rparr>\<rparr>"

text \<open>A parser that accepts one token, signed with a shared secret.\<close>

definition sample_parse :: jwt_parse where
  "sample_parse token kf opts = (if token = ''a.b.c'' then
     (case kf \<lparr>tok_Method = SigningMethodHMAC, tok_kid = None\<rparr> of
        None \<Rightarrow> None
      | Some (Inr (SecretKey s)) \<Rightarrow> Some (if s = ''s'' then Some [(''exp'', JInt 9), (''sub'', JStr ''zeta'')] else None)
      | _ \<Rightarrow> Some None) else Some None)"

definition sample_signed :: "string \<Rightarrow> jwt_token \<Rightarrow> jwt_key \<Rightarrow> bool" where
  "sample_signed token t key \<longleftrightarrow> token = ''a.b.c'' \<and> tok_Method t = SigningMethodHMAC \<and> key = SecretKey ''s''"

lemma sample_contract: "jwt_contract sample_parse sample_signed"
  by (auto simp: jwt_contract_def sample_parse_def sample_signed_def json_field_def
      split: option.splits sum.splits jwt_key.splits if_splits)

definition bearer :: "string \<Rightarrow> auth_request" where
  "bearer s = \<lparr>ar_peerCN = None, ar_header = (\<lambda>h. if h = ''Authorization'' then ''Bearer '' @ s else [])\<rparr>"

theorem authenticated_caller_witness:
  "Auth_Handler sample_parse (\<lambda>_. FetchFailed) (NewAuthMiddleware sample_jwt) (bearer ''a.b.c'') =
     Some (Inr \<lparr>TenantID = ''zeta'', TeamID = [], UserID = [], UseCaseID = []\<rparr>) \<and>
   trusted_token (\<lambda>_. FetchFailed) (auth_JWT sample_jwt) sample_signed ''a.b.c''"
proof -
  have run: "Auth_Handler sample_parse (\<lambda>_. FetchFailed) (NewAuthMiddleware sample_jwt) (bearer ''a.b.c'') =
     Some (Inr \<lparr>TenantID = ''zeta'', TeamID = [], UserID = [], UseCaseID = []\<rparr>)"
    by code_simp
  have key: "presented_key (bearer ''a.b.c'') = []" "extractBearerToken (bearer ''a.b.c'') = ''a.b.c''"
    by (code_simp)+
  from authenticated_caller [OF run [unfolded NewAuthMiddleware_def] _ sample_contract] run key
  show ?thesis by (simp add: sample_jwt_def sample_auth_def bearer_def)
qed

theorem api_key_gate_witness:
  "Auth_Handler sample_parse (\<lambda>_. FetchFailed) (Auth_Reload (sample_auth\<lparr>auth_APIKeys := []\<rparr>) (NewAuthMiddleware sample_auth)) (bearer ''k1'')
     \<noteq> Some (Inr \<lparr>TenantID = ''acme'', TeamID = [], UserID = [], UseCaseID = []\<rparr>) \<and>
   (\<exists>ident. Auth_Handler sample_parse (\<lambda>_. FetchFailed) (NewAuthMiddleware sample_auth) (bearer ''k1'') = Some (Inr ident))"
proof -
  have key: "presented_key (bearer ''k1'') = ''k1''" by code_simp
  let ?gone = "sample_auth\<lparr>auth_APIKeys := []\<rparr>"
  have off: "\<not> auth_DisableAuth sample_auth" "\<not> jwt_configured sample_auth" "\<not> auth_DisableAuth ?gone" "\<not> jwt_configured ?gone"
      "ar_peerCN (bearer ''k1'') = None"
    by (simp_all add: sample_auth_def jwt_configured_def bearer_def)
  have "''k1'' \<in> ak_Key ` set (auth_APIKeys sample_auth)" by (simp add: sample_auth_def)
  then show ?thesis
    using api_key_gate [OF off(3,4,5), of sample_parse "\<lambda>_. FetchFailed" "NewAuthMiddleware sample_auth"]
      api_key_gate [OF off(1,2,5), of sample_parse "\<lambda>_. FetchFailed"]
    by (auto simp: key NewAuthMiddleware_def)
qed

theorem authenticated_ignores_team_ceilings_witness:
  "\<exists>ident. Auth_Handler sample_parse (\<lambda>_. FetchFailed) (NewAuthMiddleware sample_auth) (bearer ''k1'') = Some (Inr ident) \<and>
    fst (Budget_Intercept (Some ident) (Budget_New [''acme:core'' \<mapsto> \<lparr>LimitUSD = 0, WarnAt = 1\<rparr>] False None)) = None"
proof -
  have run: "Auth_Handler sample_parse (\<lambda>_. FetchFailed) (NewAuthMiddleware sample_auth) (bearer ''k1'') =
     Some (Inr \<lparr>TenantID = ''acme'', TeamID = [], UserID = [], UseCaseID = []\<rparr>)"
    by code_simp
  from authenticated_ignores_team_ceilings [OF run, of "Budget_New [''acme:core'' \<mapsto> \<lparr>LimitUSD = 0, WarnAt = 1\<rparr>] False None"] run
  show ?thesis
    by (auto simp: NewAuthMiddleware_def sample_auth_def Budget_Intercept_def Budget_New_def FromContext_def scopeKeys_def restrict_map_def Let_def)
qed

end
