(* ===== verification/Executor.thy ===== *)
theory Executor
  imports Catalog
begin

text \<open>
  Calling a provider with retries and fallbacks: \<^verbatim>\<open>internal/domain/routing/executor.go\<close> and
  \<^verbatim>\<open>errors.go\<close>, and the older \<^verbatim>\<open>internal/app/executor.go\<close>.

  Providers are code behind the network. They are parameters here: a call takes the state
  of the world and returns its outcome and the new state, so that nothing is assumed about
  what a provider answers, not even that it answers the same request twice in the same way.
  \<^verbatim>\<open>select\<close> on \<^verbatim>\<open>ctx.Done()\<close> and a timer is the parameter \<open>wait\<close>: the context's error, if it ended
  first. A nil pointer is \<open>None\<close>, and so is a nil error.
\<close>

section \<open>Configuration and results\<close>

record RetryConfig =
  MaxAttempts :: int
  InitialBackoff :: duration
  MaxBackoff :: duration
  BackoffFactor :: float64

definition DefaultRetryConfig :: RetryConfig where
  "DefaultRetryConfig = \<lparr>MaxAttempts = 3, InitialBackoff = 200 * Millisecond,
     MaxBackoff = 5 * Second, BackoffFactor = 2\<rparr>"

record 'p ExecuteResult =
  er_Response :: "ResponseEnvelope option"
  er_Provider :: "'p option"
  er_Model :: string
  er_FallbackUsed :: bool
  er_FallbackFrom :: string
  er_Attempts :: int

type_synonym 'p lookup = "string \<Rightarrow> goerror + 'p"
type_synonym ('p, 'w) chat_fn = "'p \<Rightarrow> RequestEnvelope \<Rightarrow> 'w \<Rightarrow> (goerror + ResponseEnvelope) \<times> 'w"
type_synonym 'w wait_fn = "duration \<Rightarrow> 'w \<Rightarrow> goerror option \<times> 'w"

section \<open>Error classification\<close>

definition client_patterns :: "string list" where
  "client_patterns = [''status 400'', ''status 401'', ''status 403'', ''status 404'', ''status 422'',
     ''status 429'', '': 400 '', '': 401 '', '': 403 '', '': 404 '']"

definition isClientError :: "goerror \<Rightarrow> bool" where
  "isClientError e \<longleftrightarrow> list_ex (Contains (err_msg e)) client_patterns"

definition contextLengthPhrases :: "string list" where
  "contextLengthPhrases = [''context_length_exceeded'', ''maximum context length'',
     ''max_tokens is too large'', ''reduce the length of the messages'', ''prompt is too long'',
     ''exceeds the maximum'', ''exceeds the limit'', ''request too large'',
     ''tokens exceeds the model's maximum context'', ''context window'', ''too many tokens'']"

definition IsContextLengthError :: "goerror \<Rightarrow> bool" where
  "IsContextLengthError e \<longleftrightarrow> list_ex (Contains (ToLower (err_msg e))) contextLengthPhrases"

section \<open>Retries\<close>

definition minDuration :: "duration \<Rightarrow> duration \<Rightarrow> duration" where
  "minDuration a b = (if a < b then a else b)"

definition next_backoff :: "RetryConfig \<Rightarrow> duration \<Rightarrow> duration" where
  "next_backoff cfg backoff =
     minDuration (go_trunc (real_of_int backoff * BackoffFactor cfg)) (MaxBackoff cfg)"

function chat_loop ::
    "('p, 'w) chat_fn \<Rightarrow> 'w wait_fn \<Rightarrow> 'p \<Rightarrow> RequestEnvelope \<Rightarrow> RetryConfig \<Rightarrow> int \<Rightarrow> duration \<Rightarrow>
     goerror option \<Rightarrow> 'w \<Rightarrow> (ResponseEnvelope option \<times> int \<times> goerror option) \<times> 'w" where
  "chat_loop chat wait p req cfg i backoff lastErr w =
     (if i < MaxAttempts cfg then
        (case chat p req w of
           (Inr resp, w) \<Rightarrow> ((Some resp, i + 1, None), w)
         | (Inl err, w) \<Rightarrow>
             if context_error err \<or> isClientError err then ((None, i + 1, Some err), w)
             else if i < MaxAttempts cfg - 1 then
               (case wait backoff w of
                  (Some ctxErr, w) \<Rightarrow> ((None, i + 1, Some ctxErr), w)
                | (None, w) \<Rightarrow>
                    chat_loop chat wait p req cfg (i + 1) (next_backoff cfg backoff) (Some err) w)
             else chat_loop chat wait p req cfg (i + 1) backoff (Some err) w)
      else ((None, MaxAttempts cfg, lastErr), w))"
  by pat_completeness auto
termination
  by (relation "measure (\<lambda>(chat, wait, p, req, cfg, i, backoff, lastErr, w). nat (MaxAttempts cfg - i))") auto

declare chat_loop.simps [simp del]

definition chatWithRetry ::
    "('p, 'w) chat_fn \<Rightarrow> 'w wait_fn \<Rightarrow> 'p \<Rightarrow> RequestEnvelope \<Rightarrow> RetryConfig \<Rightarrow> 'w \<Rightarrow>
     (ResponseEnvelope option \<times> int \<times> goerror option) \<times> 'w" where
  "chatWithRetry chat wait p req cfg w = chat_loop chat wait p req cfg 0 (InitialBackoff cfg) None w"

section \<open>Fallbacks\<close>

definition orderedCandidates :: "RoutingDecision \<Rightarrow> Candidate list" where
  "orderedCandidates d =
     \<lparr>cand_Provider = [], cand_Model = rd_Model d, cand_Score = 0\<rparr> # rd_FallbackChain d"

definition escalateCandidates :: "Candidate list \<Rightarrow> int \<Rightarrow> Candidate list" where
  "escalateCandidates remaining minWindow =
     (let eligible = filter (\<lambda>c. ContextWindowFor (cand_Model c) > minWindow) remaining in
      insertion_sort (\<lambda>a b. ContextWindowFor (cand_Model a) < ContextWindowFor (cand_Model b)) eligible)"

lemma escalateCandidates_eq:
  "escalateCandidates cs n = sort_key (\<lambda>c. ContextWindowFor (cand_Model c))
     (filter (\<lambda>c. n < ContextWindowFor (cand_Model c)) cs)"
  by (simp add: escalateCandidates_def insertion_sort_eq_sort_key)

lemma length_escalateCandidates: "length (escalateCandidates cs n) \<le> length cs"
  by (simp add: escalateCandidates_eq)

lemma set_escalateCandidates:
  "set (escalateCandidates cs n) = {c \<in> set cs. n < ContextWindowFor (cand_Model c)}"
  by (simp add: escalateCandidates_eq)

text \<open>
  The loop of \<^verbatim>\<open>Execute\<close>, on the candidates from index \<open>i\<close> on. A context-length error replaces
  them by the escalation candidates and restarts the index.
\<close>

function execute_loop ::
    "('p, 'w) chat_fn \<Rightarrow> 'w wait_fn \<Rightarrow> 'p lookup \<Rightarrow> RequestEnvelope \<Rightarrow> RetryConfig \<Rightarrow> string \<Rightarrow>
     Candidate list \<Rightarrow> nat \<Rightarrow> bool \<Rightarrow> goerror option \<Rightarrow> string \<Rightarrow> 'p option \<Rightarrow> int \<Rightarrow> 'w \<Rightarrow>
     ('p ExecuteResult \<times> goerror option) \<times> 'w" where
  "execute_loop chat wait lookup req cfg from [] i usedFallback lastErr lastCandidate lastProvider totalAttempts w =
     ((\<lparr>er_Response = None, er_Provider = lastProvider, er_Model = lastCandidate,
        er_FallbackUsed = usedFallback, er_FallbackFrom = from, er_Attempts = totalAttempts\<rparr>, lastErr), w)"
| "execute_loop chat wait lookup req cfg from (c # cs) i usedFallback lastErr lastCandidate lastProvider totalAttempts w =
     (let usedFallback = (usedFallback \<or> i > 0) in
      (case lookup (cand_Model c) of
        Inl err \<Rightarrow>
          execute_loop chat wait lookup req cfg from cs (Suc i) usedFallback (Some err) (cand_Model c)
            lastProvider totalAttempts w
      | Inr p \<Rightarrow>
          (case chatWithRetry chat wait p req cfg w of
             ((resp, attempts, err), w) \<Rightarrow>
               let totalAttempts = totalAttempts + attempts in
               (case err of
                 None \<Rightarrow>
                   ((\<lparr>er_Response = resp, er_Provider = Some p, er_Model = cand_Model c,
                      er_FallbackUsed = usedFallback, er_FallbackFrom = from, er_Attempts = totalAttempts\<rparr>, None), w)
               | Some e \<Rightarrow>
                   if context_error e then
                     ((\<lparr>er_Response = None, er_Provider = Some p, er_Model = cand_Model c,
                        er_FallbackUsed = False, er_FallbackFrom = [], er_Attempts = totalAttempts\<rparr>, Some e), w)
                   else if IsContextLengthError e then
                     execute_loop chat wait lookup req cfg from
                       (escalateCandidates cs (ContextWindowFor (cand_Model c))) 0 True (Some e)
                       (cand_Model c) (Some p) totalAttempts w
                   else
                     execute_loop chat wait lookup req cfg from cs (Suc i) usedFallback (Some e)
                       (cand_Model c) (Some p) totalAttempts w))))"
  by pat_completeness auto
termination
  by (relation "measure (\<lambda>(chat, wait, lookup, req, cfg, from, cs, _). length cs)")
    (auto simp: le_imp_less_Suc length_escalateCandidates)

definition Execute ::
    "('p, 'w) chat_fn \<Rightarrow> 'w wait_fn \<Rightarrow> RoutingDecision \<Rightarrow> RequestEnvelope \<Rightarrow> 'p lookup \<Rightarrow> RetryConfig \<Rightarrow> 'w \<Rightarrow>
     ('p ExecuteResult \<times> goerror option) \<times> 'w" where
  "Execute chat wait decision req lookup cfg w =
     execute_loop chat wait lookup req cfg (rd_Model decision) (orderedCandidates decision)
       0 False None [] None 0 w"

section \<open>Streaming\<close>

text \<open>
  A provider's \<^verbatim>\<open>Stream\<close> hands chunks to a callback until it ends or fails; when the callback
  fails, the stream ends with the callback's error. The provider is a parameter that returns
  the chunks it would send and how it would end.
\<close>

type_synonym ('p, 'w) stream_fn = "'p \<Rightarrow> RequestEnvelope \<Rightarrow> 'w \<Rightarrow> (StreamChunk list \<times> goerror option) \<times> 'w"
type_synonym 'w sink_fn = "StreamChunk \<Rightarrow> 'w \<Rightarrow> goerror option \<times> 'w"

fun deliver :: "'w sink_fn \<Rightarrow> StreamChunk list \<Rightarrow> 'w \<Rightarrow> goerror option \<times> 'w" where
  "deliver fn [] w = (None, w)"
| "deliver fn (c # cs) w = (case fn c w of
     (Some e, w) \<Rightarrow> (Some e, w)
   | (None, w) \<Rightarrow> deliver fn cs w)"

text \<open>One attempt: whether the callback was called, and the error.\<close>

definition stream_once :: "('p, 'w) stream_fn \<Rightarrow> 'w sink_fn \<Rightarrow> 'p \<Rightarrow> RequestEnvelope \<Rightarrow> 'w \<Rightarrow>
    (bool \<times> goerror option) \<times> 'w" where
  "stream_once stream fn p req w =
     (case stream p req w of ((chunks, err), w) \<Rightarrow>
        (case deliver fn chunks w of
           (Some e, w) \<Rightarrow> ((chunks \<noteq> [], Some e), w)
         | (None, w) \<Rightarrow> ((chunks \<noteq> [], err), w)))"

function stream_loop ::
    "('p, 'w) stream_fn \<Rightarrow> 'w sink_fn \<Rightarrow> 'w wait_fn \<Rightarrow> 'p \<Rightarrow> RequestEnvelope \<Rightarrow> RetryConfig \<Rightarrow> int \<Rightarrow>
     duration \<Rightarrow> goerror option \<Rightarrow> 'w \<Rightarrow> (int \<times> goerror option) \<times> 'w" where
  "stream_loop stream fn wait p req cfg i backoff lastErr w =
     (if i < MaxAttempts cfg then
        (case stream_once stream fn p req w of
           ((wrote, None), w) \<Rightarrow> ((i + 1, None), w)
         | ((wrote, Some err), w) \<Rightarrow>
             if wrote \<or> context_error err \<or> isClientError err then ((i + 1, Some err), w)
             else if i < MaxAttempts cfg - 1 then
               (case wait backoff w of
                  (Some ctxErr, w) \<Rightarrow> ((i + 1, Some ctxErr), w)
                | (None, w) \<Rightarrow>
                    stream_loop stream fn wait p req cfg (i + 1) (next_backoff cfg backoff) (Some err) w)
             else stream_loop stream fn wait p req cfg (i + 1) backoff (Some err) w)
      else ((MaxAttempts cfg, lastErr), w))"
  by pat_completeness auto
termination
  by (relation "measure (\<lambda>(stream, fn, wait, p, req, cfg, i, backoff, lastErr, w). nat (MaxAttempts cfg - i))") auto

declare stream_loop.simps [simp del]

definition streamWithRetry ::
    "('p, 'w) stream_fn \<Rightarrow> 'w sink_fn \<Rightarrow> 'w wait_fn \<Rightarrow> 'p \<Rightarrow> RequestEnvelope \<Rightarrow> RetryConfig \<Rightarrow> 'w \<Rightarrow>
     (int \<times> goerror option) \<times> 'w" where
  "streamWithRetry stream fn wait p req cfg w =
     stream_loop stream fn wait p req cfg 0 (InitialBackoff cfg) None w"

function execute_stream_loop ::
    "('p, 'w) stream_fn \<Rightarrow> 'w sink_fn \<Rightarrow> 'w wait_fn \<Rightarrow> 'p lookup \<Rightarrow> RequestEnvelope \<Rightarrow> RetryConfig \<Rightarrow> string \<Rightarrow>
     Candidate list \<Rightarrow> nat \<Rightarrow> bool \<Rightarrow> goerror option \<Rightarrow> string \<Rightarrow> 'p option \<Rightarrow> int \<Rightarrow> 'w \<Rightarrow>
     ('p ExecuteResult \<times> goerror option) \<times> 'w" where
  "execute_stream_loop stream fn wait lookup req cfg from [] i usedFallback lastErr lastCandidate lastProvider totalAttempts w =
     ((\<lparr>er_Response = None, er_Provider = lastProvider, er_Model = lastCandidate,
        er_FallbackUsed = usedFallback, er_FallbackFrom = from, er_Attempts = totalAttempts\<rparr>, lastErr), w)"
| "execute_stream_loop stream fn wait lookup req cfg from (c # cs) i usedFallback lastErr lastCandidate lastProvider totalAttempts w =
     (let usedFallback = (usedFallback \<or> i > 0) in
      (case lookup (cand_Model c) of
        Inl err \<Rightarrow>
          execute_stream_loop stream fn wait lookup req cfg from cs (Suc i) usedFallback (Some err)
            (cand_Model c) lastProvider totalAttempts w
      | Inr p \<Rightarrow>
          (case streamWithRetry stream fn wait p req cfg w of
             ((attempts, err), w) \<Rightarrow>
               let totalAttempts = totalAttempts + attempts in
               (case err of
                 None \<Rightarrow>
                   ((\<lparr>er_Response = None, er_Provider = Some p, er_Model = cand_Model c,
                      er_FallbackUsed = usedFallback, er_FallbackFrom = from,
                      er_Attempts = totalAttempts\<rparr>, None), w)
               | Some e \<Rightarrow>
                   if context_error e then
                     ((\<lparr>er_Response = None, er_Provider = Some p, er_Model = cand_Model c,
                        er_FallbackUsed = False, er_FallbackFrom = [], er_Attempts = totalAttempts\<rparr>, Some e), w)
                   else if IsContextLengthError e then
                     execute_stream_loop stream fn wait lookup req cfg from
                       (escalateCandidates cs (ContextWindowFor (cand_Model c))) 0 True (Some e)
                       (cand_Model c) (Some p) totalAttempts w
                   else
                     execute_stream_loop stream fn wait lookup req cfg from cs (Suc i) usedFallback (Some e)
                       (cand_Model c) (Some p) totalAttempts w))))"
  by pat_completeness auto
termination
  by (relation "measure (\<lambda>(stream, fn, wait, lookup, req, cfg, from, cs, _). length cs)")
    (auto simp: le_imp_less_Suc length_escalateCandidates)

definition ExecuteStream ::
    "('p, 'w) stream_fn \<Rightarrow> 'w sink_fn \<Rightarrow> 'w wait_fn \<Rightarrow> RoutingDecision \<Rightarrow> RequestEnvelope \<Rightarrow> 'p lookup \<Rightarrow>
     RetryConfig \<Rightarrow> 'w \<Rightarrow> ('p ExecuteResult \<times> goerror option) \<times> 'w" where
  "ExecuteStream stream fn wait decision req lookup cfg w =
     execute_stream_loop stream fn wait lookup req cfg (rd_Model decision) (orderedCandidates decision)
       0 False None [] None 0 w"

section \<open>The older executor\<close>

record RetryPolicy =
  rp_MaxAttempts :: int
  rp_Backoff :: duration

record 'p RouteProvider =
  route_Model :: string
  route_Provider :: "'p option"

text \<open>The attempts left on one route; \<open>Inl\<close> is the error the next route starts from.\<close>

fun route_attempts ::
    "('p, 'w) chat_fn \<Rightarrow> 'w wait_fn \<Rightarrow> RetryPolicy \<Rightarrow> 'p \<Rightarrow> RequestEnvelope \<Rightarrow> nat \<Rightarrow> goerror option \<Rightarrow> 'w \<Rightarrow>
     (goerror option + (goerror + ResponseEnvelope)) \<times> 'w" where
  "route_attempts chat wait policy p callReq 0 lastErr w = (Inl lastErr, w)"
| "route_attempts chat wait policy p callReq (Suc n) lastErr w =
     (case chat p callReq w of
        (Inr resp, w) \<Rightarrow> (Inr (Inr resp), w)
      | (Inl err, w) \<Rightarrow>
          if rp_Backoff policy > 0 then
            (case wait (rp_Backoff policy) w of
               (Some ctxErr, w) \<Rightarrow> (Inr (Inl ctxErr), w)
             | (None, w) \<Rightarrow> route_attempts chat wait policy p callReq n (Some err) w)
          else route_attempts chat wait policy p callReq n (Some err) w)"

fun routes_loop ::
    "('p, 'w) chat_fn \<Rightarrow> 'w wait_fn \<Rightarrow> RetryPolicy \<Rightarrow> RequestEnvelope \<Rightarrow> 'p RouteProvider list \<Rightarrow> goerror option \<Rightarrow> 'w \<Rightarrow>
     (ResponseEnvelope option \<times> 'p RouteProvider option \<times> goerror option) \<times> 'w" where
  "routes_loop chat wait policy req [] lastErr w = ((None, None, lastErr), w)"
| "routes_loop chat wait policy req (route # routes) lastErr w =
     (case route_Provider route of
        None \<Rightarrow> routes_loop chat wait policy req routes lastErr w
      | Some p \<Rightarrow>
          (case route_attempts chat wait policy p (req\<lparr>req_Model := route_Model route\<rparr>)
                  (nat (rp_MaxAttempts policy)) lastErr w of
             (Inr (Inr resp), w) \<Rightarrow> ((Some resp, Some route, None), w)
           | (Inr (Inl ctxErr), w) \<Rightarrow> ((None, Some route, Some ctxErr), w)
           | (Inl lastErr, w) \<Rightarrow> routes_loop chat wait policy req routes lastErr w))"

definition ExecuteWithFallback ::
    "('p, 'w) chat_fn \<Rightarrow> 'w wait_fn \<Rightarrow> RequestEnvelope \<Rightarrow> 'p RouteProvider list \<Rightarrow> RetryPolicy \<Rightarrow> 'w \<Rightarrow>
     (ResponseEnvelope option \<times> 'p RouteProvider option \<times> goerror option) \<times> 'w" where
  "ExecuteWithFallback chat wait req routes policy w =
     (if routes = [] then ((None, None, Some (plain_error ''no provider routes'')), w)
      else let policy = (if rp_MaxAttempts policy \<le> 0 then policy\<lparr>rp_MaxAttempts := 1\<rparr> else policy) in
        routes_loop chat wait policy req routes None w)"

section \<open>Observing the calls\<close>

text \<open>
  A provider call can be logged without changing what it does: the world is paired with the
  list of calls made so far, each with its provider, request and outcome.
\<close>

type_synonym 'p call = "'p \<times> RequestEnvelope \<times> (goerror + ResponseEnvelope)"

definition logged_chat :: "('p, 'w) chat_fn \<Rightarrow> ('p, 'w \<times> 'p call list) chat_fn" where
  "logged_chat chat p req s =
     (case chat p req (fst s) of (r, w) \<Rightarrow> (r, (w, snd s @ [(p, req, r)])))"

definition logged_wait :: "'w wait_fn \<Rightarrow> ('w \<times> 'l) wait_fn" where
  "logged_wait wait d s = (case wait d (fst s) of (e, w) \<Rightarrow> (e, (w, snd s)))"

text \<open>
  What one run of the retry loop adds to the log: calls to \<open>p\<close> with \<open>req\<close>, as many as it reports,
  at most \<^verbatim>\<open>MaxAttempts\<close>, the last of them the success it returns.
\<close>

definition chat_post :: "'p \<Rightarrow> RequestEnvelope \<Rightarrow> RetryConfig \<Rightarrow> int \<Rightarrow> goerror option \<Rightarrow> 'p call list \<Rightarrow>
    (ResponseEnvelope option \<times> int \<times> goerror option) \<times> ('w \<times> 'p call list) \<Rightarrow> bool" where
  "chat_post p req cfg i lastErr lg res =
     (case res of ((resp, n, err), (w', lg')) \<Rightarrow>
        \<exists>calls. lg' = lg @ calls \<and> int (length calls) = n - i \<and> n \<le> MaxAttempts cfg \<and>
          (\<forall>x \<in> set calls. fst x = p \<and> fst (snd x) = req) \<and>
          (err = None \<and> (i < MaxAttempts cfg \<or> lastErr \<noteq> None) \<longrightarrow>
             (\<exists>r. resp = Some r \<and> calls \<noteq> [] \<and> last calls = (p, req, Inr r))))"

lemma chat_post_step:
  assumes "chat_post p req cfg (i + 1) (Some e) (lg @ [(p, req, Inl e)]) res"
  shows "chat_post p req cfg i lastErr lg res"
proof -
  obtain resp n err w' lg' where res: "res = ((resp, n, err), (w', lg'))" by (metis surj_pair)
  from assms obtain calls where
    c: "lg' = (lg @ [(p, req, Inl e)]) @ calls" "int (length calls) = n - (i + 1)" "n \<le> MaxAttempts cfg"
      "\<forall>x \<in> set calls. fst x = p \<and> fst (snd x) = req"
      "err = None \<longrightarrow> (\<exists>r. resp = Some r \<and> calls \<noteq> [] \<and> last calls = (p, req, Inr r))"
    by (auto simp: chat_post_def res)
  show ?thesis
    unfolding chat_post_def res prod.case
    by (rule exI [of _ "(p, req, Inl e) # calls"]) (use c in auto)
qed

lemma chat_loop_post:
  "i \<le> MaxAttempts cfg \<Longrightarrow>
   chat_post p req cfg i lastErr lg
     (chat_loop (logged_chat chat) (logged_wait wait) p req cfg i backoff lastErr (w, lg))"
proof (induction "nat (MaxAttempts cfg - i)" arbitrary: i backoff lastErr w lg)
  case 0
  then show ?case by (subst chat_loop.simps) (auto simp: chat_post_def)
next
  case (Suc k)
  then have i: "i < MaxAttempts cfg" by simp
  obtain r w1 where r: "chat p req w = (r, w1)" by fastforce
  show ?case
  proof (cases r)
    case (Inr resp)
    then show ?thesis using i r by (subst chat_loop.simps) (simp add: chat_post_def logged_chat_def)
  next
    case (Inl e)
    have IH: "chat_post p req cfg i lastErr lg
        (chat_loop (logged_chat chat) (logged_wait wait) p req cfg (i + 1) b (Some e) (w', lg @ [(p, req, Inl e)]))"
      for b w'
      by (rule chat_post_step, rule Suc.hyps(1)) (use Suc.hyps(2) i in auto)
    have stop: "chat_post p req cfg i lastErr lg ((None, i + 1, Some e'), (w', lg @ [(p, req, Inl e)]))" for e' w'
      using i by (simp add: chat_post_def)
    show ?thesis
      using i r Inl IH stop
      by (subst chat_loop.simps)
        (auto simp: logged_chat_def logged_wait_def split: prod.splits option.splits)
  qed
qed

lemma chatWithRetry_post:
  "0 \<le> MaxAttempts cfg \<Longrightarrow> chat_post p req cfg 0 None lg
     (chatWithRetry (logged_chat chat) (logged_wait wait) p req cfg (w, lg))"
  unfolding chatWithRetry_def by (rule chat_loop_post)

text \<open>What the loop over candidates adds to the log and how it reports its outcome.\<close>

definition execute_post :: "'p lookup \<Rightarrow> RequestEnvelope \<Rightarrow> RetryConfig \<Rightarrow> string \<Rightarrow> Candidate list \<Rightarrow> bool \<Rightarrow>
    goerror option \<Rightarrow> int \<Rightarrow> 'p call list \<Rightarrow> ('p ExecuteResult \<times> goerror option) \<times> ('w \<times> 'p call list) \<Rightarrow> bool" where
  "execute_post lookup req cfg from cs used lastErr n lg out =
     (case out of ((res, err), (w', lg')) \<Rightarrow>
        \<exists>calls. lg' = lg @ calls \<and> er_Attempts res = n + int (length calls) \<and>
          int (length calls) \<le> MaxAttempts cfg * int (length cs) \<and>
          (\<forall>x \<in> set calls. fst (snd x) = req) \<and>
          (err = None \<and> lastErr \<noteq> None \<or> err = None \<and> cs \<noteq> [] \<longrightarrow>
             (\<exists>r p. er_Response res = Some r \<and> er_Provider res = Some p \<and> lookup (er_Model res) = Inr p \<and>
                calls \<noteq> [] \<and> last calls = (p, req, Inr r) \<and> er_FallbackFrom res = from \<and>
                er_Model res \<in> cand_Model ` set cs \<and>
                (used \<longrightarrow> er_FallbackUsed res) \<and>
                (\<not> er_FallbackUsed res \<longrightarrow> er_Model res = cand_Model (hd cs)) \<and>
                (er_FallbackUsed res \<and> \<not> used \<longrightarrow> er_Model res \<in> cand_Model ` set (tl cs)))))"

lemma execute_post_step:
  assumes post: "execute_post lookup req cfg from cs' True (Some e) (n + int (length cl)) (lg @ cl) out"
    and cl: "int (length cl) \<le> MaxAttempts cfg" "\<forall>x \<in> set cl. fst (snd x) = req"
    and cs': "set cs' \<subseteq> set cs" "length cs' \<le> length cs"
  shows "execute_post lookup req cfg from (c # cs) used lastErr n lg out"
proof -
  obtain res err w' lg' where out: "out = ((res, err), (w', lg'))" by (metis surj_pair)
  from post obtain calls where calls: "lg' = (lg @ cl) @ calls" "er_Attempts res = n + int (length cl) + int (length calls)"
      "int (length calls) \<le> MaxAttempts cfg * int (length cs')" "\<forall>x \<in> set calls. fst (snd x) = req"
    and ok: "err = None \<longrightarrow> (\<exists>r p. er_Response res = Some r \<and> er_Provider res = Some p \<and>
        lookup (er_Model res) = Inr p \<and> calls \<noteq> [] \<and> last calls = (p, req, Inr r) \<and> er_FallbackFrom res = from \<and>
        er_Model res \<in> cand_Model ` set cs' \<and> er_FallbackUsed res)"
    by (auto simp: execute_post_def out)
  have "MaxAttempts cfg * int (length cs') \<le> MaxAttempts cfg * int (length cs)"
    using cl(1) cs'(2) by (intro mult_left_mono) auto
  with calls(3) cl(1) have "int (length (cl @ calls)) \<le> MaxAttempts cfg * int (length (c # cs))"
    by (simp add: distrib_left)
  moreover have "\<forall>x \<in> set (cl @ calls). fst (snd x) = req" using cl(2) calls(4) by auto
  moreover have "err = None \<longrightarrow> (\<exists>r p. er_Response res = Some r \<and> er_Provider res = Some p \<and>
        lookup (er_Model res) = Inr p \<and> cl @ calls \<noteq> [] \<and> last (cl @ calls) = (p, req, Inr r) \<and>
        er_FallbackFrom res = from \<and> er_Model res \<in> cand_Model ` set cs \<and> er_FallbackUsed res)"
    using ok cs'(1) by auto
  ultimately show ?thesis
    unfolding execute_post_def out prod.case
    by (intro exI [of _ "cl @ calls"]) (use calls(1,2) in auto)
qed

lemma execute_post_found:
  assumes "chat_post p req cfg 0 None lg ((resp, n', None), (w', lg'))" "0 < MaxAttempts cfg"
    and "lookup (cand_Model c) = Inr p"
  shows "execute_post lookup req cfg from (c # cs) used lastErr n lg
    ((\<lparr>er_Response = resp, er_Provider = Some p, er_Model = cand_Model c, er_FallbackUsed = used,
       er_FallbackFrom = from, er_Attempts = n + n'\<rparr>, None), (w', lg'))"
proof -
  from assms(1,2) obtain calls r where calls: "lg' = lg @ calls" "int (length calls) = n'" "n' \<le> MaxAttempts cfg"
      "\<forall>x \<in> set calls. fst x = p \<and> fst (snd x) = req" "resp = Some r" "calls \<noteq> []" "last calls = (p, req, Inr r)"
    by (auto simp: chat_post_def)
  have "MaxAttempts cfg \<le> MaxAttempts cfg * int (length (c # cs))"
    using assms(2) by (simp add: distrib_left)
  with calls show ?thesis
    unfolding execute_post_def prod.case
    by (intro exI [of _ calls]) (use assms(3) in auto)
qed

lemma execute_post_abort:
  assumes "chat_post p req cfg 0 None lg ((resp, n', Some e), (w', lg'))" "0 < MaxAttempts cfg"
    and "er_Attempts res = n + n'"
  shows "execute_post lookup req cfg from (c # cs) used lastErr n lg ((res, Some e), (w', lg'))"
proof -
  from assms(1) obtain calls where calls: "lg' = lg @ calls" "int (length calls) = n'" "n' \<le> MaxAttempts cfg"
      "\<forall>x \<in> set calls. fst x = p \<and> fst (snd x) = req"
    by (auto simp: chat_post_def)
  have "MaxAttempts cfg \<le> MaxAttempts cfg * int (length (c # cs))"
    using assms(2) by (simp add: distrib_left)
  with calls show ?thesis
    unfolding execute_post_def prod.case
    by (intro exI [of _ calls]) (use assms(3) in auto)
qed

lemma execute_loop_post:
  assumes "0 < MaxAttempts cfg"
  shows "execute_post lookup req cfg from cs (used \<or> 0 < i) lastErr n lg
    (execute_loop (logged_chat chat) (logged_wait wait) lookup req cfg from cs i used lastErr lc lp n (w, lg))"
proof (induction cs arbitrary: i used lastErr lc lp n w lg rule: measure_induct_rule [of length])
  case (less cs)
  show ?case
  proof (cases cs)
    case Nil
    then show ?thesis by (auto simp: execute_post_def)
  next
    case (Cons c cs')
    have rec: "execute_post lookup req cfg from cs (used \<or> 0 < i) lastErr n lg
        (execute_loop (logged_chat chat) (logged_wait wait) lookup req cfg from ds j u (Some e) lc' lp'
           (n + int (length cl)) (w', lg @ cl))"
      if "u \<or> 0 < j" "int (length cl) \<le> MaxAttempts cfg" "\<forall>x \<in> set cl. fst (snd x) = req"
        "set ds \<subseteq> set cs'" "length ds \<le> length cs'" for ds j u e lc' lp' cl w'
    proof -
      have "execute_post lookup req cfg from ds (u \<or> 0 < j) (Some e) (n + int (length cl)) (lg @ cl)
          (execute_loop (logged_chat chat) (logged_wait wait) lookup req cfg from ds j u (Some e) lc' lp'
             (n + int (length cl)) (w', lg @ cl))"
        by (rule less.IH) (use that(5) Cons in simp)
      with that show ?thesis unfolding Cons by (intro execute_post_step) simp_all
    qed
    show ?thesis
    proof (cases "lookup (cand_Model c)")
      case (Inl e)
      then show ?thesis
        using rec [of "used \<or> 0 < i" "Suc i" "[]" cs' e "cand_Model c" lp w] assms Cons by simp
    next
      case (Inr p)
      obtain resp n' err w' lg' where
        ch: "chatWithRetry (logged_chat chat) (logged_wait wait) p req cfg (w, lg) = ((resp, n', err), (w', lg'))"
        by (metis surj_pair)
      have post: "chat_post p req cfg 0 None lg ((resp, n', err), (w', lg'))"
        using chatWithRetry_post [of cfg p req lg chat wait w] assms ch by simp
      then obtain cl where cl: "lg' = lg @ cl" "n' = int (length cl)" "n' \<le> MaxAttempts cfg"
          "\<forall>x \<in> set cl. fst (snd x) = req" by (auto simp: chat_post_def)
      show ?thesis
      proof (cases err)
        case None
        then show ?thesis using execute_post_found post assms Inr ch Cons by (simp add: Let_def)
      next
        case (Some e)
        have esc: "set (escalateCandidates cs' m) \<subseteq> set cs'" for m by (auto simp: set_escalateCandidates)
        have abort: "execute_post lookup req cfg from (c # cs') (used \<or> 0 < i) lastErr n lg
            ((\<lparr>er_Response = None, er_Provider = Some p, er_Model = cand_Model c, er_FallbackUsed = False,
               er_FallbackFrom = [], er_Attempts = n + n'\<rparr>, Some e), (w', lg'))"
          by (rule execute_post_abort) (use post Some assms in auto)
        show ?thesis
          using ch Inr Some abort cl(2-4) esc
            rec [of True 0 cl "escalateCandidates cs' (ContextWindowFor (cand_Model c))"]
            rec [of "used \<or> 0 < i" "Suc i" cl cs']
          by (simp add: Cons Let_def cl(1) length_escalateCandidates)
      qed
    qed
  qed
qed

section \<open>Properties of Execute\<close>

lemma Execute_post:
  assumes "0 < MaxAttempts cfg"
    and "Execute (logged_chat chat) (logged_wait wait) d req lookup cfg (w, []) = ((res, err), (w', calls))"
  shows "execute_post lookup req cfg (rd_Model d) (orderedCandidates d) False None 0 []
    ((res, err), (w', calls))"
  using execute_loop_post [OF assms(1), of lookup req "rd_Model d" "orderedCandidates d" False 0 None 0 "[]"
      chat wait "[]" None w] assms(2)
  by (simp add: Execute_def)

text \<open>
  C20. Execute always returns, after a bounded number of provider calls: whatever the providers
  answer, at most \<^verbatim>\<open>MaxAttempts\<close> calls per candidate are made, context-window escalation included,
  and \<^verbatim>\<open>Attempts\<close> is exactly the number of calls.
\<close>

theorem Execute_bounded_calls:
  assumes "0 < MaxAttempts cfg"
    and "Execute (logged_chat chat) (logged_wait wait) d req lookup cfg (w, []) = ((res, err), (w', calls))"
  shows "er_Attempts res = int (length calls) \<and>
    int (length calls) \<le> MaxAttempts cfg * int (Suc (length (rd_FallbackChain d)))"
  using Execute_post [OF assms] by (auto simp: execute_post_def orderedCandidates_def)

text \<open>
  C3. A successful Execute reports the truth: its response is the answer of the last provider
  call, made to the provider the reported model resolves to, and that model is the primary
  unless a fallback is reported, in which case it is a model of the fallback chain.
\<close>

theorem Execute_success_sound:
  assumes "0 < MaxAttempts cfg"
    and "Execute (logged_chat chat) (logged_wait wait) d req lookup cfg (w, []) = ((res, None), (w', calls))"
  shows "\<exists>r p. er_Response res = Some r \<and> er_Provider res = Some p \<and> lookup (er_Model res) = Inr p \<and>
    calls \<noteq> [] \<and> last calls = (p, req, Inr r) \<and>
    (if er_FallbackUsed res then er_Model res \<in> cand_Model ` set (rd_FallbackChain d)
     else er_Model res = rd_Model d)"
  using Execute_post [OF assms] by (auto simp: execute_post_def orderedCandidates_def)

text \<open>
  Every provider call of Execute carries the caller's request unchanged: a fallback provider
  is sent the request with the primary's model name in it, whatever candidate it stands for.
\<close>

theorem Execute_never_renames_model:
  assumes "0 < MaxAttempts cfg"
    and "Execute (logged_chat chat) (logged_wait wait) d req lookup cfg (w, []) = ((res, err), (w', calls))"
  shows "\<forall>x \<in> set calls. req_Model (fst (snd x)) = req_Model req"
  using Execute_post [OF assms] by (auto simp: execute_post_def)

text \<open>A primary that always fails with a server error and a fallback that always answers.\<close>

definition sample_chat :: "(string, unit) chat_fn" where
  "sample_chat p req w = (if p = ''primary'' then (Inl (plain_error ''p: status 503: busy''), w)
     else (Inr zero_response, w))"

definition sample_lookup :: "string lookup" where
  "sample_lookup model = (if model = ''gpt-5.2'' then Inr ''primary'' else Inr ''backup'')"

definition sample_decision :: RoutingDecision where
  "sample_decision = \<lparr>rd_Provider = [], rd_Model = ''gpt-5.2'', rd_FallbackChain =
     [\<lparr>cand_Provider = [], cand_Model = ''claude-sonnet-4-6'', cand_Score = 0\<rparr>]\<rparr>"

definition sample_request :: RequestEnvelope where
  "sample_request = zero_request\<lparr>req_Model := ''gpt-5.2''\<rparr>"

lemma sample_not_special:
  "\<not> isClientError (plain_error ''p: status 503: busy'')"
  "\<not> IsContextLengthError (plain_error ''p: status 503: busy'')"
  "\<not> context_error (plain_error ''p: status 503: busy'')"
  by code_simp+

lemma sample_primary_fails:
  "chatWithRetry (logged_chat sample_chat) (logged_wait (\<lambda>d w. (None, w))) ''primary'' req DefaultRetryConfig ((), []) =
     ((None, 3, Some (plain_error ''p: status 503: busy'')),
      ((), replicate 3 (''primary'', req, Inl (plain_error ''p: status 503: busy''))))"
  by (simp add: chatWithRetry_def chat_loop.simps logged_chat_def logged_wait_def sample_chat_def
      sample_not_special DefaultRetryConfig_def eval_nat_numeral)

lemma sample_backup_answers:
  "chatWithRetry (logged_chat sample_chat) (logged_wait (\<lambda>d w. (None, w))) ''backup'' req DefaultRetryConfig ((), lg) =
     ((Some zero_response, 1, None), ((), lg @ [(''backup'', req, Inr zero_response)]))"
  by (simp add: chatWithRetry_def chat_loop.simps logged_chat_def sample_chat_def DefaultRetryConfig_def)

lemma sample_run:
  "Execute (logged_chat sample_chat) (logged_wait (\<lambda>d w. (None, w))) sample_decision sample_request
     sample_lookup DefaultRetryConfig ((), []) =
   ((\<lparr>er_Response = Some zero_response, er_Provider = Some ''backup'', er_Model = ''claude-sonnet-4-6'',
      er_FallbackUsed = True, er_FallbackFrom = ''gpt-5.2'', er_Attempts = 4\<rparr>, None),
    ((), replicate 3 (''primary'', sample_request, Inl (plain_error ''p: status 503: busy'')) @
         [(''backup'', sample_request, Inr zero_response)]))"
  by (simp add: Execute_def orderedCandidates_def sample_decision_def sample_lookup_def
      sample_primary_fails sample_backup_answers sample_not_special)

lemma sample_attempts: "0 < MaxAttempts DefaultRetryConfig"
  by (simp add: DefaultRetryConfig_def)

theorem Execute_bounded_calls_witness:
  "int (length (replicate 3 (''primary'', sample_request, Inl (plain_error ''p: status 503: busy'')) @
     [(''backup'', sample_request, Inr zero_response)])) \<le> 3 * int (Suc 1)"
  using Execute_bounded_calls [OF sample_attempts sample_run]
  by (simp add: DefaultRetryConfig_def sample_decision_def)

theorem Execute_success_sound_witness:
  "\<exists>p. sample_lookup ''claude-sonnet-4-6'' = Inr p \<and>
     ''claude-sonnet-4-6'' \<in> cand_Model ` set (rd_FallbackChain sample_decision)"
  using Execute_success_sound [OF sample_attempts sample_run] by auto

theorem Execute_never_renames_model_witness:
  "req_Model sample_request = ''gpt-5.2'' \<and>
   (\<exists>res w' calls. Execute (logged_chat sample_chat) (logged_wait (\<lambda>d w. (None, w))) sample_decision
      sample_request sample_lookup DefaultRetryConfig ((), []) = ((res, None), (w', calls)) \<and>
      er_Model res = ''claude-sonnet-4-6'' \<and> req_Model (fst (snd (last calls))) = ''gpt-5.2'')"
proof -
  have "\<forall>x \<in> set (replicate 3 (''primary'', sample_request, Inl (plain_error ''p: status 503: busy'')) @
         [(''backup'', sample_request, Inr zero_response)]). req_Model (fst (snd x)) = req_Model sample_request"
    by (rule Execute_never_renames_model [OF sample_attempts sample_run])
  then show ?thesis using sample_run by (simp add: sample_request_def)
qed

section \<open>Availability\<close>

text \<open>An error that neither ends the request's context nor reports an overflow.\<close>

definition ordinary_error :: "goerror \<Rightarrow> bool" where
  "ordinary_error e \<longleftrightarrow> \<not> context_error e \<and> \<not> IsContextLengthError e"

lemma chat_loop_answers:
  assumes "i < MaxAttempts cfg" "\<forall>w. \<exists>r w'. chat p req w = (Inr r, w')"
  shows "\<exists>r w'. chat_loop chat wait p req cfg i b le w = ((Some r, i + 1, None), w')"
  using assms(1) assms(2) [rule_format, of w] by (subst chat_loop.simps) auto

lemma chat_loop_ordinary:
  assumes "\<forall>w e w'. chat p req w = (Inl e, w') \<longrightarrow> ordinary_error e"
    and "\<forall>t w. fst (wait t w) = None"
  shows "i < MaxAttempts cfg \<or> (\<exists>e. le = Some e \<and> ordinary_error e) \<Longrightarrow>
    (\<exists>r n w'. chat_loop chat wait p req cfg i b le w = ((Some r, n, None), w')) \<or>
    (\<exists>n e w'. chat_loop chat wait p req cfg i b le w = ((None, n, Some e), w') \<and> ordinary_error e)"
proof (induction "nat (MaxAttempts cfg - i)" arbitrary: i b le w)
  case 0
  then show ?case by (subst (1 2) chat_loop.simps) auto
next
  case (Suc k)
  then have i: "i < MaxAttempts cfg" by simp
  obtain r w1 where r: "chat p req w = (r, w1)" by fastforce
  show ?case
  proof (cases r)
    case (Inr resp)
    then show ?thesis using i r by (subst (1 2) chat_loop.simps) simp
  next
    case (Inl e)
    then have ord: "ordinary_error e" using assms(1) r by blast
    note IH = Suc.hyps(1) [of "i + 1" "Some e"]
    have k: "k = nat (MaxAttempts cfg - (i + 1))" using Suc.hyps(2) by simp
    obtain w2 where w2: "wait b w1 = (None, w2)" using assms(2) by (metis prod.collapse)
    show ?thesis
      using i r Inl ord w2 IH [OF k, of "next_backoff cfg b" w2] IH [OF k, of b w1]
      by (subst (1 2) chat_loop.simps) auto
  qed
qed

lemma execute_loop_available:
  assumes att: "0 < MaxAttempts cfg"
    and good: "lookup (cand_Model g) = Inr p" "\<forall>w. \<exists>r w'. chat p req w = (Inr r, w')"
    and bad: "\<forall>q w e w'. chat q req w = (Inl e, w') \<longrightarrow> ordinary_error e"
    and nocancel: "\<forall>t w. fst (wait t w) = None"
  shows "g \<in> set cs \<Longrightarrow> \<exists>res w'. execute_loop chat wait lookup req cfg from cs i used le lc lp n w = ((res, None), w')"
proof (induction cs arbitrary: i used le lc lp n w)
  case (Cons c cs)
  show ?case
  proof (cases "lookup (cand_Model c)")
    case (Inl e)
    then have "c \<noteq> g" using good(1) by auto
    then show ?thesis using Cons Inl by simp
  next
    case (Inr q)
    from chat_loop_ordinary [of chat q req wait 0 cfg None "InitialBackoff cfg" w] bad nocancel att
    consider (ok) r n' w' where "chatWithRetry chat wait q req cfg w = ((Some r, n', None), w')"
      | (err) n' e w' where "chatWithRetry chat wait q req cfg w = ((None, n', Some e), w')" "ordinary_error e"
      unfolding chatWithRetry_def by blast
    then show ?thesis
    proof cases
      case ok
      then show ?thesis using Inr by (simp add: Let_def)
    next
      case err
      have "c \<noteq> g"
        using good Inr chat_loop_answers [of 0 cfg chat p req wait "InitialBackoff cfg" None w] att err(1)
        by (auto simp: chatWithRetry_def)
      then show ?thesis
        using Cons.IH Cons.prems Inr err by (simp add: Let_def ordinary_error_def)
    qed
  qed
qed simp

text \<open>
  C6. One healthy candidate is enough: when some candidate resolves to a provider that answers,
  every other failure is an ordinary error and the request is not cancelled, Execute
  succeeds, however many candidates before it fail and however they are retried.
\<close>

theorem Execute_available:
  assumes "0 < MaxAttempts cfg"
    and "g \<in> set (orderedCandidates d)" "lookup (cand_Model g) = Inr p"
    and "\<forall>w. \<exists>r w'. chat p req w = (Inr r, w')"
    and "\<forall>q w e w'. chat q req w = (Inl e, w') \<longrightarrow> ordinary_error e"
    and "\<forall>t w. fst (wait t w) = None"
  shows "\<exists>res w'. Execute chat wait d req lookup cfg w = ((res, None), w')"
  unfolding Execute_def using assms by (intro execute_loop_available [where g = g and p = p])

theorem Execute_available_witness:
  "\<exists>res w'. Execute sample_chat (\<lambda>t w. (None, w)) sample_decision sample_request sample_lookup
     DefaultRetryConfig () = ((res, None), w')"
proof (rule Execute_available [where p = "''backup''", OF sample_attempts])
  let ?g = "\<lparr>cand_Provider = [], cand_Model = ''claude-sonnet-4-6'', cand_Score = 0\<rparr>"
  show "?g \<in> set (orderedCandidates sample_decision)" "sample_lookup (cand_Model ?g) = Inr ''backup''"
    by (simp_all add: orderedCandidates_def sample_decision_def sample_lookup_def)
qed (auto simp: sample_chat_def ordinary_error_def sample_not_special split: if_splits)

text \<open>
  Escalation after a context overflow: the remaining candidates are those with a strictly
  larger context window, all of them, in order of window size, candidates of equal size in
  their previous order; the swap loop computes the library's stable sort.
\<close>

theorem escalation_smallest_first:
  "escalateCandidates cs n = sort_key (\<lambda>c. ContextWindowFor (cand_Model c))
     (filter (\<lambda>c. n < ContextWindowFor (cand_Model c)) cs)"
  by (rule escalateCandidates_eq)

section \<open>Streams\<close>

text \<open>The client as a callback that accepts every chunk and keeps it.\<close>

definition collect :: "('w \<times> StreamChunk list) sink_fn" where
  "collect c s = (None, (fst s, snd s @ [c]))"

definition world_stream :: "('p, 'w) stream_fn \<Rightarrow> ('p, 'w \<times> StreamChunk list) stream_fn" where
  "world_stream stream p req s = (case stream p req (fst s) of (r, w) \<Rightarrow> (r, (w, snd s)))"

lemma deliver_collect: "deliver collect cs (w, out) = (None, (w, out @ cs))"
  by (induction cs arbitrary: out) (simp_all add: collect_def)

lemma stream_once_collect:
  "stream_once (world_stream stream) collect p req (w, out) =
     (case stream p req w of ((chunks, err), w') \<Rightarrow> ((chunks \<noteq> [], err), (w', out @ chunks)))"
  by (simp add: stream_once_def world_stream_def deliver_collect split: prod.splits)

lemma stream_loop_single:
  "stream_loop (world_stream stream) collect (logged_wait wait) p req cfg i b le (w, out) = ((n, err), (w', out')) \<Longrightarrow>
   out' = out \<or> (\<exists>w1 w2 chunks. stream p req w1 = ((chunks, err), w2) \<and> out' = out @ chunks)"
proof (induction "nat (MaxAttempts cfg - i)" arbitrary: i b le w)
  case 0
  then show ?case by (subst (asm) stream_loop.simps) simp
next
  case (Suc k)
  then have i: "i < MaxAttempts cfg" and k: "k = nat (MaxAttempts cfg - (i + 1))" by simp_all
  obtain chunks e w1 where st: "stream p req w = ((chunks, e), w1)" by (metis surj_pair)
  show ?case
  proof (cases "e = None \<or> chunks \<noteq> []")
    case True
    then have "err = e \<and> out' = out @ chunks"
      using Suc.prems i st by (subst (asm) stream_loop.simps) (auto simp: stream_once_collect split: option.splits)
    with st show ?thesis by blast
  next
    case False
    then show ?thesis
      using Suc.prems i st Suc.hyps(1) [OF k]
      by (subst (asm) stream_loop.simps)
        (auto simp: stream_once_collect logged_wait_def split: option.splits if_splits prod.splits)
  qed
qed

text \<open>
  C25. Retrying a stream never repeats output: all chunks a call of \<^verbatim>\<open>streamWithRetry\<close> sends to
  the client come from one attempt, whose outcome it returns; every earlier attempt failed
  before its first chunk.
\<close>

theorem streamWithRetry_no_replay:
  assumes "streamWithRetry (world_stream stream) collect (logged_wait wait) p req cfg (w, out) = ((n, err), (w', out'))"
  shows "out' = out \<or> (\<exists>w1 w2 chunks. stream p req w1 = ((chunks, err), w2) \<and> out' = out @ chunks)"
  using assms unfolding streamWithRetry_def by (rule stream_loop_single)

definition sample_chunk :: "string \<Rightarrow> StreamChunk" where
  "sample_chunk s = \<lparr>chunk_ID = [], chunk_Model = [], chunk_Delta = text_message ''assistant'' s,
     chunk_FinishReason = [], chunk_Usage = None\<rparr>"

theorem streamWithRetry_no_replay_witness:
  defines "stream \<equiv> (\<lambda>(p :: string) (req :: RequestEnvelope) (w :: nat).
    if w = 0 then (([], Some (plain_error ''p: status 503: busy'')), 1) else (([sample_chunk ''hi''], None), w))"
  shows "\<exists>w1 w2 chunks. stream ''p'' zero_request w1 = ((chunks, None), w2) \<and> [sample_chunk ''hi''] = [] @ chunks"
proof -
  have "streamWithRetry (world_stream stream) collect (logged_wait (\<lambda>t w. (None, w))) ''p'' zero_request
      DefaultRetryConfig (0, []) = ((2, None), (1, [sample_chunk ''hi'']))"
    by (simp add: streamWithRetry_def stream_loop.simps stream_once_collect stream_def sample_not_special
        logged_wait_def DefaultRetryConfig_def)
  from streamWithRetry_no_replay [OF this] show ?thesis by simp
qed

lemma streamWithRetry_first_outcome:
  assumes "0 < MaxAttempts cfg" "stream p req w = ((chunks, err), w')" "err = None \<or> chunks \<noteq> []"
  shows "streamWithRetry (world_stream stream) collect (logged_wait wait) p req cfg (w, out) =
    ((1, err), (w', out @ chunks))"
  unfolding streamWithRetry_def using assms
  by (subst stream_loop.simps) (auto simp: stream_once_collect split: option.splits)

text \<open>
  Falling back does repeat output: when the primary's stream breaks with an ordinary error
  after some chunks and the first fallback's stream completes, the client receives the broken
  beginning followed by the whole second answer, and the call is reported as a success.
\<close>

theorem ExecuteStream_replays_after_partial_output:
  assumes "0 < MaxAttempts cfg"
    and "lookup (rd_Model d) = Inr p1" "rd_FallbackChain d = c2 # rest" "lookup (cand_Model c2) = Inr p2"
    and "stream p1 req w = ((chunks1, Some e), w1)" "chunks1 \<noteq> []" "ordinary_error e"
    and "stream p2 req w1 = ((chunks2, None), w2)"
  shows "\<exists>res. ExecuteStream (world_stream stream) collect (logged_wait wait) d req lookup cfg (w, []) =
    ((res, None), (w2, chunks1 @ chunks2)) \<and> er_FallbackUsed res"
proof -
  have "streamWithRetry (world_stream stream) collect (logged_wait wait) p1 req cfg (w, []) =
      ((1, Some e), (w1, chunks1))"
    using streamWithRetry_first_outcome [of cfg stream p1 req w chunks1 "Some e" w1 wait "[]"] assms(1,5,6) by simp
  moreover have "streamWithRetry (world_stream stream) collect (logged_wait wait) p2 req cfg (w1, chunks1) =
      ((1, None), (w2, chunks1 @ chunks2))"
    using streamWithRetry_first_outcome [of cfg stream p2 req w1 chunks2 None w2 wait chunks1] assms(1,8) by simp
  ultimately show ?thesis
    using assms(2-4,7) by (simp add: ExecuteStream_def orderedCandidates_def ordinary_error_def Let_def)
qed

theorem ExecuteStream_replays_after_partial_output_witness:
  defines "stream \<equiv> (\<lambda>(p :: string) (req :: RequestEnvelope) (w :: unit).
    if p = ''primary'' then (([sample_chunk ''Par''], Some (plain_error ''p: status 503: busy'')), w)
    else (([sample_chunk ''Paris''], None), w))"
  shows "\<exists>res. ExecuteStream (world_stream stream) collect (logged_wait (\<lambda>t w. (None, w))) sample_decision
      sample_request sample_lookup DefaultRetryConfig ((), []) =
    ((res, None), ((), [sample_chunk ''Par''] @ [sample_chunk ''Paris''])) \<and> er_FallbackUsed res"
  by (rule ExecuteStream_replays_after_partial_output [where stream = stream
        and ?p1.0 = "''primary''" and ?p2.0 = "''backup''" and rest = "[]"
        and ?c2.0 = "\<lparr>cand_Provider = [], cand_Model = ''claude-sonnet-4-6'', cand_Score = 0\<rparr>"
        and e = "plain_error ''p: status 503: busy''", OF sample_attempts])
    (simp_all add: sample_decision_def sample_lookup_def stream_def ordinary_error_def sample_not_special)

section \<open>Properties of ExecuteWithFallback\<close>

lemma route_attempts_logged:
  "route_attempts (logged_chat chat) wait' policy p r n le (w, lg) = (out, (w', lg')) \<Longrightarrow>
   wait' = logged_wait wait \<Longrightarrow>
   \<exists>calls. lg' = lg @ calls \<and> length calls \<le> n \<and> (\<forall>x \<in> set calls. fst x = p \<and> fst (snd x) = r) \<and>
     (\<forall>resp. out = Inr (Inr resp) \<longrightarrow> calls \<noteq> [] \<and> last calls = (p, r, Inr resp))"
proof (induction n arbitrary: le w lg)
  case 0
  then show ?case by auto
next
  case (Suc n)
  obtain o1 w1 where o1: "chat p r w = (o1, w1)" by fastforce
  show ?case
  proof (cases o1)
    case (Inr resp)
    then show ?thesis using Suc.prems o1
      by (intro exI [of _ "[(p, r, Inr resp)]"]) (auto simp: logged_chat_def)
  next
    case (Inl e)
    have rec: ?thesis
      if "route_attempts (logged_chat chat) wait' policy p r n (Some e) (w2, lg @ [(p, r, Inl e)]) = (out, (w', lg'))" for w2
    proof -
      from Suc.IH [OF that Suc.prems(2)] obtain calls where
        "lg' = (lg @ [(p, r, Inl e)]) @ calls" "length calls \<le> n" "\<forall>x \<in> set calls. fst x = p \<and> fst (snd x) = r"
        "\<forall>resp. out = Inr (Inr resp) \<longrightarrow> calls \<noteq> [] \<and> last calls = (p, r, Inr resp)" by blast
      then show ?thesis by (intro exI [of _ "(p, r, Inl e) # calls"]) auto
    qed
    have stop: ?thesis if "out = Inr (Inl c)" "lg' = lg @ [(p, r, Inl e)]" for c
      using that by (intro exI [of _ "[(p, r, Inl e)]"]) auto
    have chat: "logged_chat chat p r (w, lg) = (Inl e, (w1, lg @ [(p, r, Inl e)]))"
      using o1 Inl by (simp add: logged_chat_def)
    have wait: "wait' d (w2, l) = (fst (wait d w2), (snd (wait d w2), l))" for d w2 l
      using Suc.prems(2) by (simp add: logged_wait_def split: prod.splits)
    show ?thesis
      using Suc.prems(1) rec stop
      by (cases "fst (wait (rp_Backoff policy) w1)") (auto simp: chat wait split: if_splits)
  qed
qed

definition route_call_ok :: "RequestEnvelope \<Rightarrow> 'p RouteProvider list \<Rightarrow> 'p call \<Rightarrow> bool" where
  "route_call_ok req routes x \<longleftrightarrow> (\<exists>rt \<in> set routes. route_Provider rt = Some (fst x) \<and>
     fst (snd x) = req\<lparr>req_Model := route_Model rt\<rparr>)"

definition route_answer :: "RequestEnvelope \<Rightarrow> 'p RouteProvider list \<Rightarrow> ResponseEnvelope option \<Rightarrow>
    'p RouteProvider option \<Rightarrow> 'p call list \<Rightarrow> bool" where
  "route_answer req routes resp route calls \<longleftrightarrow> (\<forall>r. resp = Some r \<longrightarrow>
     (\<exists>rt p. route = Some rt \<and> rt \<in> set routes \<and> route_Provider rt = Some p \<and> calls \<noteq> [] \<and>
        last calls = (p, req\<lparr>req_Model := route_Model rt\<rparr>, Inr r)))"

lemma route_call_ok_Cons: "route_call_ok req routes x \<Longrightarrow> route_call_ok req (rt # routes) x"
  by (auto simp: route_call_ok_def)

lemma route_answer_Cons: "route_answer req routes resp route calls \<Longrightarrow> route_answer req (rt # routes) resp route (cl @ calls)"
  by (fastforce simp: route_answer_def)

lemma routes_loop_logged:
  "routes_loop (logged_chat chat) (logged_wait wait) policy req routes le (w, lg) = ((resp, route, err), (w', lg')) \<Longrightarrow>
   \<exists>calls. lg' = lg @ calls \<and> (\<forall>x \<in> set calls. route_call_ok req routes x) \<and> route_answer req routes resp route calls"
proof (induction routes arbitrary: le w lg)
  case Nil
  then show ?case by (auto simp: route_answer_def)
next
  case (Cons rt routes)
  have rec: ?case
    if "routes_loop (logged_chat chat) (logged_wait wait) policy req routes le' (w1, lg @ cl) = ((resp, route, err), (w', lg'))"
      "\<forall>x \<in> set cl. route_call_ok req (rt # routes) x" for le' w1 cl
  proof -
    from Cons.IH [OF that(1)] obtain calls where "lg' = (lg @ cl) @ calls"
      "\<forall>x \<in> set calls. route_call_ok req routes x" "route_answer req routes resp route calls" by blast
    with that(2) show ?thesis
      by (intro exI [of _ "cl @ calls"]) (auto intro: route_call_ok_Cons route_answer_Cons)
  qed
  show ?case
  proof (cases "route_Provider rt")
    case None
    with Cons.prems show ?thesis using rec [of le w "[]"] by simp
  next
    case (Some p)
    let ?r = "req\<lparr>req_Model := route_Model rt\<rparr>"
    obtain out w1 lg1 where ra: "route_attempts (logged_chat chat) (logged_wait wait) policy p ?r
        (nat (rp_MaxAttempts policy)) le (w, lg) = (out, (w1, lg1))" by (metis surj_pair)
    from route_attempts_logged [OF this refl] obtain cl where cl: "lg1 = lg @ cl"
      "\<forall>x \<in> set cl. fst x = p \<and> fst (snd x) = ?r"
      "\<forall>resp. out = Inr (Inr resp) \<longrightarrow> cl \<noteq> [] \<and> last cl = (p, ?r, Inr resp)" by blast
    have calls: "\<forall>x \<in> set cl. route_call_ok req (rt # routes) x"
      using cl(2) Some by (auto simp: route_call_ok_def)
    show ?thesis
    proof (cases out)
      case (Inr res)
      then have "lg' = lg1" and "\<forall>r. resp = Some r \<longrightarrow> route = Some rt \<and> out = Inr (Inr r)"
        using Cons.prems Some ra by (auto split: sum.splits)
      then have "route_answer req (rt # routes) resp route cl"
        using cl(3) Some by (auto simp: route_answer_def)
      then show ?thesis using calls cl(1) \<open>lg' = lg1\<close> by blast
    next
      case (Inl le')
      with Cons.prems Some ra show ?thesis using rec [of le' w1 cl] calls by (simp add: cl(1))
    qed
  qed
qed

text \<open>
  The route executor sends every provider the request under the model of its own route, and
  a response it returns is the last answer of the route it names.
\<close>

theorem ExecuteWithFallback_uses_route_model:
  assumes "ExecuteWithFallback (logged_chat chat) (logged_wait wait) req routes policy (w, []) =
    ((resp, route, err), (w', calls))"
  shows "(\<forall>x \<in> set calls. \<exists>rt \<in> set routes. route_Provider rt = Some (fst x) \<and>
        fst (snd x) = req\<lparr>req_Model := route_Model rt\<rparr>) \<and>
     (\<forall>r. resp = Some r \<longrightarrow> (\<exists>rt p. route = Some rt \<and> rt \<in> set routes \<and> route_Provider rt = Some p \<and> calls \<noteq> [] \<and>
        last calls = (p, req\<lparr>req_Model := route_Model rt\<rparr>, Inr r)))"
proof (cases "routes = []")
  case True
  with assms show ?thesis by (simp add: ExecuteWithFallback_def)
next
  case False
  with assms show ?thesis
    using routes_loop_logged [of chat wait _ req routes None w "[]" resp route err w' calls]
    by (fastforce simp: ExecuteWithFallback_def Let_def route_call_ok_def route_answer_def)
qed

theorem ExecuteWithFallback_uses_route_model_witness:
  defines "rt \<equiv> \<lparr>route_Model = ''claude-sonnet-4-6'', route_Provider = Some ''backup''\<rparr>"
  defines "req2 \<equiv> sample_request\<lparr>req_Model := ''claude-sonnet-4-6''\<rparr>"
  shows "ExecuteWithFallback (logged_chat sample_chat) (logged_wait (\<lambda>t w. (None, w))) sample_request [rt]
      \<lparr>rp_MaxAttempts = 0, rp_Backoff = 0\<rparr> ((), []) =
    ((Some zero_response, Some rt, None), ((), [(''backup'', req2, Inr zero_response)])) \<and>
    route_Provider rt = Some ''backup''"
proof -
  have run: "ExecuteWithFallback (logged_chat sample_chat) (logged_wait (\<lambda>t w. (None, w))) sample_request [rt]
      \<lparr>rp_MaxAttempts = 0, rp_Backoff = 0\<rparr> ((), []) =
    ((Some zero_response, Some rt, None), ((), [(''backup'', req2, Inr zero_response)]))"
    by (simp add: ExecuteWithFallback_def rt_def req2_def logged_chat_def sample_chat_def)
  from ExecuteWithFallback_uses_route_model [OF run] run show ?thesis by simp
qed

end
