(* ===== verification/Bandit.thy ===== *)
theory Bandit
  imports Catalog
begin

text \<open>
  The adaptive model selection of \<^verbatim>\<open>internal/domain/scoring\<close>: arm statistics with progressive
  cooldown, the epsilon-greedy and UCB bandits (\<^verbatim>\<open>bandit.go\<close>), the regret tracker (\<^verbatim>\<open>regret.go\<close>)
  and the reward functions (\<^verbatim>\<open>reward.go\<close>). The clock and the random draws are arguments;
  \<^verbatim>\<open>rand.Intn(n)\<close> is \<open>draw mod n\<close> for an arbitrary \<open>draw\<close>. The loop over the arms map takes the
  iteration order as an argument.
\<close>

section \<open>Floats with infinities\<close>

datatype ext_float = NegInf | Fin float64 | PosInf

instantiation ext_float :: linorder
begin

fun less_ext_float :: "ext_float \<Rightarrow> ext_float \<Rightarrow> bool" where
  "less_ext_float x NegInf = False"
| "less_ext_float NegInf y = True"
| "less_ext_float PosInf y = False"
| "less_ext_float (Fin a) PosInf = True"
| "less_ext_float (Fin a) (Fin b) = (a < b)"

definition less_eq_ext_float :: "ext_float \<Rightarrow> ext_float \<Rightarrow> bool" where
  "less_eq_ext_float x y = (x = y \<or> x < y)"

instance
proof
  fix x y z :: ext_float
  show "x < y \<longleftrightarrow> x \<le> y \<and> \<not> y \<le> x"
    by (cases x; cases y) (auto simp: less_eq_ext_float_def)
  show "x \<le> x" by (simp add: less_eq_ext_float_def)
  show "x \<le> y \<Longrightarrow> y \<le> z \<Longrightarrow> x \<le> z"
    by (cases x; cases y; cases z) (auto simp: less_eq_ext_float_def)
  show "x \<le> y \<Longrightarrow> y \<le> x \<Longrightarrow> x = y"
    by (cases x; cases y) (auto simp: less_eq_ext_float_def)
  show "x \<le> y \<or> y \<le> x"
    by (cases x; cases y) (auto simp: less_eq_ext_float_def)
qed

end

lemma ext_float_simps [simp]:
  "Fin a \<le> Fin b \<longleftrightarrow> a \<le> b" "NegInf \<le> x" "x \<le> PosInf" "PosInf \<le> x \<longleftrightarrow> x = PosInf" "x \<le> NegInf \<longleftrightarrow> x = NegInf"
  by (cases x; auto simp: less_eq_ext_float_def)+

section \<open>Arms and cooldown\<close>

definition failureRewardThreshold :: float64 where "failureRewardThreshold = 7 / 10"
definition cooldownFailureStreak :: int where "cooldownFailureStreak = 3"
definition cooldownBase :: duration where "cooldownBase = 5 * Second"
definition cooldownMax :: duration where "cooldownMax = 5 * Minute"

record armStats =
  arm_pulls :: int
  arm_sumReward :: float64
  arm_meanReward :: float64
  arm_consecutiveFail :: int
  arm_cooldownUntil :: "time option"

definition zero_arm :: armStats where
  "zero_arm = \<lparr>arm_pulls = 0, arm_sumReward = 0, arm_meanReward = 0, arm_consecutiveFail = 0, arm_cooldownUntil = None\<rparr>"

definition armStats_recordOutcome :: "float64 \<Rightarrow> time \<Rightarrow> armStats \<Rightarrow> armStats" where
  "armStats_recordOutcome reward now a =
     (if reward \<ge> failureRewardThreshold then a\<lparr>arm_consecutiveFail := 0, arm_cooldownUntil := None\<rparr>
      else let a = a\<lparr>arm_consecutiveFail := arm_consecutiveFail a + 1\<rparr> in
        if arm_consecutiveFail a < cooldownFailureStreak then a
        else let e = arm_consecutiveFail a - cooldownFailureStreak;
                 e = (if e > 10 then 10 else e);
                 backoff = cooldownBase * 2 ^ nat e;
                 backoff = (if backoff > cooldownMax \<or> backoff \<le> 0 then cooldownMax else backoff)
             in a\<lparr>arm_cooldownUntil := Some (now + backoff)\<rparr>)"

definition armStats_inCooldown :: "time \<Rightarrow> armStats \<Rightarrow> bool" where
  "armStats_inCooldown now a = (case arm_cooldownUntil a of None \<Rightarrow> False | Some u \<Rightarrow> now < u)"

definition cooling :: "(string, armStats) gomap \<Rightarrow> time \<Rightarrow> string \<Rightarrow> bool" where
  "cooling arms now model = (case arms model of None \<Rightarrow> False | Some a \<Rightarrow> armStats_inCooldown now a)"

definition eligible :: "'t list \<Rightarrow> ('t \<Rightarrow> string) \<Rightarrow> (string, armStats) gomap \<Rightarrow> time \<Rightarrow> 't list" where
  "eligible candidates model arms now =
     (let out = filter (\<lambda>c. \<not> cooling arms now (model c)) candidates
      in if out = [] then candidates else out)"

section \<open>Regret\<close>

text \<open>
  \<^verbatim>\<open>Record\<close> is the sequential effect of the compare-and-swap loop. With a best reward of minus
  infinity the regret is 0; it is never called with plus infinity.
\<close>

record RegretTracker =
  rt_cum :: float64
  rt_count :: int

definition RegretTracker_Record :: "ext_float \<Rightarrow> float64 \<Rightarrow> RegretTracker \<Rightarrow> RegretTracker" where
  "RegretTracker_Record optimal chosen t =
     (let regret = (case optimal of Fin r \<Rightarrow> max 0 (r - chosen) | _ \<Rightarrow> 0)
      in t\<lparr>rt_cum := rt_cum t + regret, rt_count := rt_count t + 1\<rparr>)"

definition RegretTracker_Cumulative :: "RegretTracker \<Rightarrow> float64" where
  "RegretTracker_Cumulative t = rt_cum t"

definition RegretTracker_AverageRegret :: "RegretTracker \<Rightarrow> float64" where
  "RegretTracker_AverageRegret t =
     (if rt_count t = 0 then 0 else RegretTracker_Cumulative t / real_of_int (rt_count t))"

section \<open>The two bandits\<close>

text \<open>What both \<^verbatim>\<open>Update\<close> methods do to the arm they credit.\<close>

definition getArm :: "string \<Rightarrow> (string, armStats) gomap \<Rightarrow> armStats" where
  "getArm model arms = gomap_get zero_arm arms model"

definition armStats_update :: "float64 \<Rightarrow> time \<Rightarrow> armStats \<Rightarrow> armStats" where
  "armStats_update reward now a =
     (let a = a\<lparr>arm_pulls := arm_pulls a + 1, arm_sumReward := arm_sumReward a + reward\<rparr>;
          a = a\<lparr>arm_meanReward := arm_sumReward a / real_of_int (arm_pulls a)\<rparr>
      in armStats_recordOutcome reward now a)"

definition best_mean :: "string list \<Rightarrow> (string, armStats) gomap \<Rightarrow> ext_float" where
  "best_mean ord arms = foldl (\<lambda>best m. case arms m of
       None \<Rightarrow> best
     | Some a \<Rightarrow> if Fin (arm_meanReward a) > best then Fin (arm_meanReward a) else best) NegInf ord"

text \<open>One pass of a \<^verbatim>\<open>score > bestScore\<close> loop over the candidates.\<close>

definition best_step :: "(Candidate \<Rightarrow> ext_float) \<Rightarrow> string \<times> ext_float \<Rightarrow> Candidate \<Rightarrow> string \<times> ext_float" where
  "best_step score bs c = (if score c > snd bs then (cand_Model c, score c) else bs)"

record EpsilonGreedy =
  eg_arms :: "(string, armStats) gomap"
  eg_epsilon :: float64
  eg_regret :: RegretTracker

definition NewEpsilonGreedy :: "float64 \<Rightarrow> EpsilonGreedy" where
  "NewEpsilonGreedy epsilon = \<lparr>eg_arms = Map.empty, eg_epsilon = epsilon, eg_regret = \<lparr>rt_cum = 0, rt_count = 0\<rparr>\<rparr>"

definition greedy_score :: "(string, armStats) gomap \<Rightarrow> Candidate \<Rightarrow> ext_float" where
  "greedy_score arms c = (case arms (cand_Model c) of None \<Rightarrow> NegInf | Some a \<Rightarrow> Fin (arm_meanReward a))"

definition EpsilonGreedy_Select :: "float64 \<Rightarrow> nat \<Rightarrow> time \<Rightarrow> EpsilonGreedy \<Rightarrow> Candidate list \<Rightarrow> string" where
  "EpsilonGreedy_Select coin draw now b candidates =
     (if candidates = [] then []
      else let cs = eligible candidates cand_Model (eg_arms b) now in
        if coin < eg_epsilon b then cand_Model (cs ! (draw mod length cs))
        else fst (foldl (best_step (greedy_score (eg_arms b))) (cand_Model (cs ! 0), NegInf) cs))"

definition EpsilonGreedy_Update :: "string list \<Rightarrow> time \<Rightarrow> string \<Rightarrow> float64 \<Rightarrow> EpsilonGreedy \<Rightarrow> EpsilonGreedy" where
  "EpsilonGreedy_Update ord now model reward b =
     (let arms = (eg_arms b)(model \<mapsto> armStats_update reward now (getArm model (eg_arms b)));
          bestReward = best_mean ord arms
      in b\<lparr>eg_arms := arms,
           eg_regret := (if bestReward = PosInf then eg_regret b
                         else RegretTracker_Record bestReward reward (eg_regret b))\<rparr>)"

record UCB =
  ucb_arms :: "(string, armStats) gomap"
  ucb_c :: float64
  ucb_totalPulls :: int
  ucb_regret :: RegretTracker

definition NewUCB :: "float64 \<Rightarrow> UCB" where
  "NewUCB c = \<lparr>ucb_arms = Map.empty, ucb_c = c, ucb_totalPulls = 0, ucb_regret = \<lparr>rt_cum = 0, rt_count = 0\<rparr>\<rparr>"

definition ucb_score :: "UCB \<Rightarrow> Candidate \<Rightarrow> ext_float" where
  "ucb_score b c = (case ucb_arms b (cand_Model c) of
       None \<Rightarrow> PosInf
     | Some a \<Rightarrow> if arm_pulls a = 0 then PosInf
         else let exploration = ucb_c b * sqrt (ln (real_of_int (ucb_totalPulls b + 1)) / real_of_int (arm_pulls a))
              in Fin (arm_meanReward a + exploration))"

definition UCB_Select :: "time \<Rightarrow> UCB \<Rightarrow> Candidate list \<Rightarrow> string" where
  "UCB_Select now b candidates =
     (if candidates = [] then []
      else let cs = eligible candidates cand_Model (ucb_arms b) now
           in fst (foldl (best_step (ucb_score b)) ([], NegInf) cs))"

definition UCB_Update :: "string list \<Rightarrow> time \<Rightarrow> string \<Rightarrow> float64 \<Rightarrow> UCB \<Rightarrow> UCB" where
  "UCB_Update ord now model reward b =
     (let arms = (ucb_arms b)(model \<mapsto> armStats_update reward now (getArm model (ucb_arms b)));
          bestReward = best_mean ord arms
      in b\<lparr>ucb_arms := arms, ucb_totalPulls := ucb_totalPulls b + 1,
           ucb_regret := (if bestReward = PosInf then ucb_regret b
                          else RegretTracker_Record bestReward reward (ucb_regret b))\<rparr>)"

section \<open>Rewards\<close>

record RewardWeights =
  rw_Alpha :: float64
  rw_Beta :: float64
  rw_Gamma :: float64
  rw_Delta :: float64

definition DefaultRewardWeights :: RewardWeights where
  "DefaultRewardWeights = \<lparr>rw_Alpha = 3 / 10, rw_Beta = 2 / 10, rw_Gamma = 4 / 10, rw_Delta = 1 / 10\<rparr>"

definition Reward :: "bool \<Rightarrow> float64 \<Rightarrow> float64 \<Rightarrow> float64 \<Rightarrow> RewardWeights \<Rightarrow> float64" where
  "Reward success quality normLatency normCost w =
     (let sv = (if success then 1 else 0)
      in rw_Alpha w * (1 - normLatency) + rw_Beta w * (1 - normCost) + rw_Gamma w * sv + rw_Delta w * quality)"

definition QualityFromFinishReason :: "Choice list \<Rightarrow> float64" where
  "QualityFromFinishReason choices = (case choices of
       [] \<Rightarrow> 0
     | c # _ \<Rightarrow>
        if ch_FinishReason c = ''stop'' \<or> ch_FinishReason c = ''tool_calls'' then 1
        else if ch_FinishReason c = ''length'' then 3 / 10
        else if ch_FinishReason c = ''content_filter'' then 0
        else 1 / 2)"

section \<open>One arm\<close>

text \<open>
  What an arm should be after the rewards \<open>hist\<close>, oldest first, each with the time it was
  recorded: the plain average, the length of the current run of failures, and a cooldown that
  starts at the third failure in a row and doubles with each further one up to five minutes.
\<close>

definition fail_streak :: "(time \<times> float64) list \<Rightarrow> nat" where
  "fail_streak hist = length (takeWhile (\<lambda>x. snd x < failureRewardThreshold) (rev hist))"

definition cooldown_backoff :: "nat \<Rightarrow> duration" where
  "cooldown_backoff n = min cooldownMax (cooldownBase * 2 ^ (n - 3))"

definition arm_spec :: "(time \<times> float64) list \<Rightarrow> armStats" where
  "arm_spec hist = \<lparr>arm_pulls = int (length hist), arm_sumReward = sum_list (map snd hist),
     arm_meanReward = (if hist = [] then 0 else sum_list (map snd hist) / real (length hist)),
     arm_consecutiveFail = int (fail_streak hist),
     arm_cooldownUntil = (if fail_streak hist < 3 then None else Some (fst (last hist) + cooldown_backoff (fail_streak hist)))\<rparr>"

lemma cooldown_values: "cooldownBase = 5000000000" "cooldownMax = 300000000000" "cooldownFailureStreak = 3"
  by (simp_all add: cooldownBase_def cooldownMax_def cooldownFailureStreak_def Second_def Minute_def)

lemma backoff_eq:
  fixes e :: int
  assumes "0 \<le> e"
  defines "b \<equiv> cooldownBase * 2 ^ nat (if e > 10 then 10 else e)"
  shows "(if b > cooldownMax \<or> b \<le> 0 then cooldownMax else b) = min cooldownMax (cooldownBase * 2 ^ nat e)"
proof (cases "e > 10")
  case True
  then have "(2::int) ^ 10 \<le> 2 ^ nat e" by (intro power_increasing) auto
  then show ?thesis using True by (simp add: b_def cooldown_values min_def)
next
  case False
  have "(0::int) < 2 ^ nat e" by simp
  then show ?thesis using False by (auto simp: b_def cooldown_values min_def)
qed

lemma fail_streak_snoc [simp]:
  "fail_streak [] = 0"
  "fail_streak (hist @ [x]) = (if snd x < failureRewardThreshold then Suc (fail_streak hist) else 0)"
  by (simp_all add: fail_streak_def)

lemma recordOutcome_eq:
  assumes "arm_consecutiveFail a = int n"
  shows "armStats_recordOutcome r now a =
    (if failureRewardThreshold \<le> r then a\<lparr>arm_consecutiveFail := 0, arm_cooldownUntil := None\<rparr>
     else a\<lparr>arm_consecutiveFail := int (Suc n),
       arm_cooldownUntil := (if Suc n < 3 then arm_cooldownUntil a else Some (now + cooldown_backoff (Suc n)))\<rparr>)"
proof (cases "Suc n < 3")
  case True
  then show ?thesis using assms by (auto simp: armStats_recordOutcome_def cooldown_values(3))
next
  case False
  define k where "k = n - 2"
  with False have n: "n = k + 2" by simp
  have b: "cooldown_backoff (Suc n) = (if cooldownBase * 2 ^ nat (if int k > 10 then 10 else int k) > cooldownMax \<or>
      cooldownBase * 2 ^ nat (if int k > 10 then 10 else int k) \<le> 0 then cooldownMax
      else cooldownBase * 2 ^ nat (if int k > 10 then 10 else int k))"
    using backoff_eq [of "int k"] by (simp add: cooldown_backoff_def n)
  show ?thesis unfolding b using assms by (auto simp: armStats_recordOutcome_def cooldown_values(3) n Let_def)
qed

lemma arm_spec_snoc: "armStats_update r now (arm_spec hist) = arm_spec (hist @ [(now, r)])"
  by (auto simp: armStats_update_def arm_spec_def Let_def recordOutcome_eq [of _ "fail_streak hist"] add.commute not_less)

lemma arm_spec_fold: "foldl (\<lambda>a x. armStats_update (snd x) (fst x) a) (arm_spec h) hist = arm_spec (h @ hist)"
proof (induction hist arbitrary: h)
  case (Cons x hist)
  then show ?case by (cases x) (simp add: arm_spec_snoc)
qed simp

lemma arm_spec_Nil: "arm_spec [] = zero_arm"
  by (simp add: arm_spec_def zero_arm_def)

section \<open>The contract of a bandit\<close>

text \<open>An update with the iteration order it sees, its time, model and reward.\<close>

type_synonym bandit_update = "string list \<times> time \<times> string \<times> float64"

definition rewards_of :: "string \<Rightarrow> bandit_update list \<Rightarrow> (time \<times> float64) list" where
  "rewards_of m us = map (\<lambda>(ord, now, m, r). (now, r)) (filter (\<lambda>(ord, now, m', r). m' = m) us)"

locale bandit =
  fixes sel :: "time \<Rightarrow> 'b \<Rightarrow> Candidate list \<Rightarrow> string"
    and upd :: "string list \<Rightarrow> time \<Rightarrow> string \<Rightarrow> float64 \<Rightarrow> 'b \<Rightarrow> 'b"
    and arms_of :: "'b \<Rightarrow> (string, armStats) gomap"
    and regret_of :: "'b \<Rightarrow> RegretTracker"
  assumes sel_eligible: "cs \<noteq> [] \<Longrightarrow> sel now b cs \<in> cand_Model ` set (eligible cs cand_Model (arms_of b) now)"
    and upd_arms: "arms_of (upd ord now m r b) = (arms_of b)(m \<mapsto> armStats_update r now (getArm m (arms_of b)))"
    and upd_count: "rt_count (regret_of (upd ord now m r b)) = rt_count (regret_of b) + 1"
    and upd_cum: "rt_cum (regret_of b) \<le> rt_cum (regret_of (upd ord now m r b))"
begin

lemma sel_candidate: "cs \<noteq> [] \<Longrightarrow> sel now b cs \<in> cand_Model ` set cs"
  using sel_eligible [of cs now b] by (auto simp: eligible_def Let_def split: if_splits)

lemma sel_cooling:
  assumes "cs \<noteq> []"
  shows "cooling (arms_of b) now (sel now b cs) = list_all (\<lambda>c. cooling (arms_of b) now (cand_Model c)) cs"
  using sel_eligible [OF assms, of now b]
  by (auto simp: eligible_def Let_def list_all_iff filter_empty_conv split: if_splits)

lemma arms_run:
  "\<forall>m. arms_of b m = (if h m = [] then None else Some (arm_spec (h m))) \<Longrightarrow>
   arms_of (foldl (\<lambda>b (ord, now, m, r). upd ord now m r b) b us) m =
     (if h m @ rewards_of m us = [] then None else Some (arm_spec (h m @ rewards_of m us)))"
proof (induction us arbitrary: b h)
  case Nil
  then show ?case by (simp add: rewards_of_def)
next
  case (Cons u us)
  obtain ord now k r where u: "u = (ord, now, k, r)" by (cases u)
  let ?h = "h(k := h k @ [(now, r)])"
  have "getArm k (arms_of b) = arm_spec (h k)"
    using Cons.prems by (auto simp: getArm_def gomap_get_def arm_spec_Nil)
  then have "\<forall>m. arms_of (upd ord now k r b) m = (if ?h m = [] then None else Some (arm_spec (?h m)))"
    using Cons.prems by (simp add: upd_arms arm_spec_snoc)
  from Cons.IH [OF this] show ?case by (simp add: u rewards_of_def)
qed

lemma regret_run:
  "rt_count (regret_of (foldl (\<lambda>b (ord, now, m, r). upd ord now m r b) b us)) = rt_count (regret_of b) + int (length us) \<and>
   rt_cum (regret_of b) \<le> rt_cum (regret_of (foldl (\<lambda>b (ord, now, m, r). upd ord now m r b) b us))"
proof (induction us arbitrary: b)
  case (Cons u us)
  obtain ord now k r where u: "u = (ord, now, k, r)" by (cases u)
  show ?case using Cons [of "upd ord now k r b"] upd_count [of ord now k r b] upd_cum [of b ord now k r]
    by (simp add: u)
qed simp

end

section \<open>Both bandits meet the contract\<close>

lemma eligible_ne: "cs \<noteq> [] \<Longrightarrow> eligible cs model arms now \<noteq> []"
  by (simp add: eligible_def Let_def)

text \<open>The loop keeps the first of the highest scores.\<close>

lemma best_step_simps:
  "s < score c \<Longrightarrow> best_step score (b, s) c = (cand_Model c, score c)"
  "\<not> s < score c \<Longrightarrow> best_step score (b, s) c = (b, s)"
  by (simp_all add: best_step_def)

lemma best_fold:
  "foldl (best_step score) (b0, s0) cs = (b, s) \<Longrightarrow>
   s0 \<le> s \<and> (\<forall>c \<in> set cs. score c \<le> s) \<and>
   ((b, s) = (b0, s0) \<or> (\<exists>xs c ys. cs = xs @ c # ys \<and> b = cand_Model c \<and> s = score c \<and> s0 < s \<and> (\<forall>x \<in> set xs. score x < s)))"
proof (induction cs arbitrary: b0 s0)
  case (Cons c cs)
  show ?case
  proof (cases "s0 < score c")
    case True
    with Cons.prems have "foldl (best_step score) (cand_Model c, score c) cs = (b, s)"
      by (simp add: best_step_simps)
    note IH = Cons.IH [OF this]
    show ?thesis
    proof (cases "(b, s) = (cand_Model c, score c)")
      case same: True
      have "c # cs = [] @ c # cs" by simp
      with same IH True show ?thesis by (metis Pair_inject empty_iff less_imp_le list.set(1) set_ConsD order_refl)
    next
      case False
      with IH obtain xs d ys where d: "cs = xs @ d # ys" "b = cand_Model d" "s = score d" "score c < s" "\<forall>x \<in> set xs. score x < s"
        by blast
      then have "c # cs = (c # xs) @ d # ys" "\<forall>x \<in> set (c # xs). score x < s" by auto
      moreover have "s0 < s" using True d(4) by simp
      ultimately show ?thesis using IH d(2,3) True by (metis less_imp_le set_ConsD)
    qed
  next
    case False
    with Cons.prems have "foldl (best_step score) (b0, s0) cs = (b, s)"
      by (simp add: best_step_simps)
    note IH = Cons.IH [OF this]
    have "score c \<le> s" using False IH by auto
    show ?thesis
    proof (cases "(b, s) = (b0, s0)")
      case True
      with IH \<open>score c \<le> s\<close> show ?thesis by auto
    next
      case ne: False
      with IH obtain xs d ys where d: "cs = xs @ d # ys" "b = cand_Model d" "s = score d" "s0 < s" "\<forall>x \<in> set xs. score x < s"
        by blast
      then have "c # cs = (c # xs) @ d # ys" "\<forall>x \<in> set (c # xs). score x < s" using False by auto
      with IH d(2-4) \<open>score c \<le> s\<close> show ?thesis by (metis set_ConsD)
    qed
  qed
qed simp

lemma best_fold_in:
  assumes "foldl (best_step score) (b0, s0) cs = (b, s)" "b0 \<in> cand_Model ` set cs \<or> s \<noteq> s0"
  shows "b \<in> cand_Model ` set cs"
proof -
  from best_fold [OF assms(1)] consider "b = b0" "s = s0" | xs c ys where "cs = xs @ c # ys" "b = cand_Model c" by blast
  then show ?thesis using assms(2) by cases auto
qed

lemma best_mean_finite: "best_mean ord arms \<noteq> PosInf"
proof -
  have "s \<noteq> PosInf \<Longrightarrow> foldl (\<lambda>best m. case arms m of None \<Rightarrow> best
     | Some a \<Rightarrow> if Fin (arm_meanReward a) > best then Fin (arm_meanReward a) else best) s ord \<noteq> PosInf" for s
    by (induction ord arbitrary: s) (auto split: option.splits)
  then show ?thesis by (simp add: best_mean_def)
qed

lemma greedy_select_eligible:
  assumes "cs \<noteq> []"
  shows "EpsilonGreedy_Select coin draw now b cs \<in> cand_Model ` set (eligible cs cand_Model (eg_arms b) now)"
proof -
  let ?e = "eligible cs cand_Model (eg_arms b) now"
  have ne: "?e \<noteq> []" using assms by (rule eligible_ne)
  then have "?e ! (draw mod length ?e) \<in> set ?e" by (intro nth_mem) simp
  moreover obtain m s where f: "foldl (best_step (greedy_score (eg_arms b))) (cand_Model (?e ! 0), NegInf) ?e = (m, s)"
    by fastforce
  have "m \<in> cand_Model ` set ?e"
    using ne by (intro best_fold_in [OF f] disjI1 imageI nth_mem) simp
  ultimately show ?thesis using assms f by (simp add: EpsilonGreedy_Select_def Let_def)
qed

lemma ucb_select_eligible:
  assumes "cs \<noteq> []"
  shows "UCB_Select now b cs \<in> cand_Model ` set (eligible cs cand_Model (ucb_arms b) now)"
proof -
  let ?e = "eligible cs cand_Model (ucb_arms b) now"
  obtain c where c: "c \<in> set ?e" using eligible_ne [OF assms] by (metis list.set_intros(1) neq_Nil_conv)
  obtain m s where f: "foldl (best_step (ucb_score b)) ([], NegInf) ?e = (m, s)" by fastforce
  have "ucb_score b c \<noteq> NegInf" by (auto simp: ucb_score_def Let_def split: option.splits)
  then have "s \<noteq> NegInf" using best_fold [OF f] c by (metis ext_float_simps(5))
  then have "m \<in> cand_Model ` set ?e"
    by (intro best_fold_in [OF f] disjI2)
  then show ?thesis using assms f by (simp add: UCB_Select_def Let_def)
qed

interpretation greedy: bandit "EpsilonGreedy_Select coin draw" EpsilonGreedy_Update eg_arms eg_regret for coin draw
  by unfold_locales
    (auto simp: greedy_select_eligible EpsilonGreedy_Update_def Let_def best_mean_finite RegretTracker_Record_def split: ext_float.splits)

interpretation ucb: bandit UCB_Select UCB_Update ucb_arms ucb_regret
  by unfold_locales
    (auto simp: ucb_select_eligible UCB_Update_def Let_def best_mean_finite RegretTracker_Record_def split: ext_float.splits)

lemma first_unique:
  "xs @ c # ys = us @ d # vs \<Longrightarrow> P c \<Longrightarrow> P d \<Longrightarrow> \<forall>x \<in> set xs. \<not> P x \<Longrightarrow> \<forall>x \<in> set us. \<not> P x \<Longrightarrow> c = d"
proof (induction xs arbitrary: us)
  case Nil
  then show ?case by (cases us) auto
next
  case (Cons x xs)
  then show ?case by (cases us) auto
qed

definition eg_run :: "EpsilonGreedy \<Rightarrow> bandit_update list \<Rightarrow> EpsilonGreedy" where
  "eg_run b us = foldl (\<lambda>b (ord, now, m, r). EpsilonGreedy_Update ord now m r b) b us"

definition ucb_run :: "UCB \<Rightarrow> bandit_update list \<Rightarrow> UCB" where
  "ucb_run b us = foldl (\<lambda>b (ord, now, m, r). UCB_Update ord now m r b) b us"

text \<open>
  C30. What a bandit has learnt is what it was told: after any sequence of updates each arm of
  either bandit holds the number, sum and average of its own rewards and its current run of
  failures, and it is cooling down until the last failure plus five seconds doubled for each
  failure after the third, at most five minutes, or not at all when fewer than three failures
  are the latest. A model without rewards has no arm.
\<close>

theorem bandit_arm_spec:
  "eg_arms (eg_run (NewEpsilonGreedy epsilon) us) m =
     (if rewards_of m us = [] then None else Some (arm_spec (rewards_of m us))) \<and>
   ucb_arms (ucb_run (NewUCB c) us) m =
     (if rewards_of m us = [] then None else Some (arm_spec (rewards_of m us)))"
  using greedy.arms_run [of "NewEpsilonGreedy epsilon" "\<lambda>_. []" us m] ucb.arms_run [of "NewUCB c" "\<lambda>_. []" us m]
  by (simp add: eg_run_def ucb_run_def NewEpsilonGreedy_def NewUCB_def)

text \<open>
  C35. Selection always returns one of the candidates it was given, and one in cooldown only if
  every candidate is: for both bandits, in any state and for any random draw.
\<close>

theorem bandit_select_sound:
  "EpsilonGreedy_Select coin draw now b (c # cs) \<in> cand_Model ` set (c # cs) \<and>
   cooling (eg_arms b) now (EpsilonGreedy_Select coin draw now b (c # cs)) =
     list_all (\<lambda>c. cooling (eg_arms b) now (cand_Model c)) (c # cs) \<and>
   UCB_Select now u (c # cs) \<in> cand_Model ` set (c # cs) \<and>
   cooling (ucb_arms u) now (UCB_Select now u (c # cs)) =
     list_all (\<lambda>c. cooling (ucb_arms u) now (cand_Model c)) (c # cs)"
  using greedy.sel_candidate [of "c # cs" coin draw now b] greedy.sel_cooling [of "c # cs" b now coin draw]
    ucb.sel_candidate [of "c # cs" now u] ucb.sel_cooling [of "c # cs" u now]
  by simp

text \<open>
  UCB tries every model once before it compares rewards: while some eligible candidate has
  no recorded reward, the first such candidate is selected.
\<close>

theorem UCB_untried_first:
  assumes "eligible cs cand_Model (ucb_arms b) now = xs @ c # ys" "ucb_score b c = PosInf" "\<forall>x \<in> set xs. ucb_score b x < PosInf"
  shows "UCB_Select now b cs = cand_Model c"
proof -
  have "cs \<noteq> []" using assms(1) by (auto simp: eligible_def)
  obtain m s where f: "foldl (best_step (ucb_score b)) ([], NegInf) (xs @ c # ys) = (m, s)" by fastforce
  have s: "s = PosInf" using best_fold [OF f] assms(2) by auto
  with best_fold [OF f] obtain us d vs where d: "xs @ c # ys = us @ d # vs" "m = cand_Model d" "ucb_score b d = PosInf"
    "\<forall>x \<in> set us. ucb_score b x < PosInf" by auto
  have "c = d"
    by (rule first_unique [where P = "\<lambda>x. ucb_score b x = PosInf", OF d(1)]) (use assms(2,3) d(3,4) in auto)
  with f d(2) \<open>cs \<noteq> []\<close> show ?thesis by (simp add: UCB_Select_def assms(1))
qed

theorem UCB_untried_first_witness:
  defines "b \<equiv> UCB_Update [''a''] 5 ''a'' 1 (NewUCB 1)"
  defines "ca \<equiv> \<lparr>cand_Provider = [], cand_Model = ''a'', cand_Score = 2\<rparr>"
  defines "cb \<equiv> \<lparr>cand_Provider = [], cand_Model = ''b'', cand_Score = 1\<rparr>"
  shows "UCB_Select 9 b [ca, cb] = ''b''"
proof -
  have arm: "ucb_arms b ''a'' = Some (arm_spec [(5, 1)])" "ucb_arms b ''b'' = None"
    by (simp_all add: b_def UCB_Update_def NewUCB_def Let_def getArm_def arm_spec_snoc [of 1 5 "[]", simplified arm_spec_Nil])
  have "fail_streak [(5, 1)] = 0" by (simp add: fail_streak_def failureRewardThreshold_def)
  then have "eligible [ca, cb] cand_Model (ucb_arms b) 9 = [ca] @ cb # []"
    by (simp add: eligible_def cooling_def arm ca_def cb_def armStats_inCooldown_def arm_spec_def)
  moreover have "ucb_score b cb = PosInf" "\<forall>x \<in> set [ca]. ucb_score b x < PosInf"
    by (simp_all add: ucb_score_def arm ca_def cb_def arm_spec_def Let_def)
  ultimately have "UCB_Select 9 b [ca, cb] = cand_Model cb" by (rule UCB_untried_first)
  then show ?thesis by (simp add: cb_def)
qed

text \<open>
  When it does not explore, epsilon-greedy picks the first of the eligible candidates with
  the highest average reward; candidates without rewards are picked only if none has any.
\<close>

theorem EpsilonGreedy_exploits:
  fixes now :: time
  assumes "eg_epsilon b \<le> coin" "cs \<noteq> []"
  defines "el \<equiv> eligible cs cand_Model (eg_arms b) now"
  shows "\<exists>xs c ys. el = xs @ c # ys \<and> EpsilonGreedy_Select coin draw now b cs = cand_Model c \<and>
    (\<forall>x \<in> set el. greedy_score (eg_arms b) x \<le> greedy_score (eg_arms b) c) \<and>
    (\<forall>x \<in> set xs. greedy_score (eg_arms b) x < greedy_score (eg_arms b) c)"
proof -
  obtain c0 cs0 where el: "el = c0 # cs0" using eligible_ne [OF assms(2)] el_def by (metis neq_Nil_conv)
  obtain m s where f: "foldl (best_step (greedy_score (eg_arms b))) (cand_Model c0, NegInf) el = (m, s)" by fastforce
  have sel: "EpsilonGreedy_Select coin draw now b cs = m"
    using assms(1,2) f by (simp add: EpsilonGreedy_Select_def el_def [symmetric] el)
  from best_fold [OF f] consider "m = cand_Model c0" "s = NegInf"
    | xs c ys where "el = xs @ c # ys" "m = cand_Model c" "s = greedy_score (eg_arms b) c" "\<forall>x \<in> set xs. greedy_score (eg_arms b) x < s"
    by blast
  then show ?thesis
  proof cases
    case 1
    with best_fold [OF f] have "\<forall>x \<in> set el. greedy_score (eg_arms b) x = NegInf" by simp
    then have "el = [] @ c0 # cs0" "\<forall>x \<in> set el. greedy_score (eg_arms b) x \<le> greedy_score (eg_arms b) c0"
      "\<forall>x \<in> set []. greedy_score (eg_arms b) x < greedy_score (eg_arms b) c0" by (simp_all add: el)
    with 1 sel show ?thesis by metis
  next
    case 2
    moreover have "\<forall>x \<in> set el. greedy_score (eg_arms b) x \<le> s" using best_fold [OF f] by simp
    ultimately show ?thesis using sel by metis
  qed
qed

theorem EpsilonGreedy_exploits_witness:
  defines "b \<equiv> EpsilonGreedy_Update [''b''] 5 ''b'' 1 (NewEpsilonGreedy (1 / 10))"
  defines "ca \<equiv> \<lparr>cand_Provider = [], cand_Model = ''a'', cand_Score = 2\<rparr>"
  defines "cb \<equiv> \<lparr>cand_Provider = [], cand_Model = ''b'', cand_Score = 1\<rparr>"
  shows "EpsilonGreedy_Select (1 / 2) 0 9 b [ca, cb] = ''b''"
proof -
  have arm: "eg_arms b ''b'' = Some (arm_spec [(5, 1)])" "eg_arms b ''a'' = None"
    by (simp_all add: b_def EpsilonGreedy_Update_def NewEpsilonGreedy_def Let_def getArm_def
        arm_spec_snoc [of 1 5 "[]", simplified arm_spec_Nil])
  have fs: "fail_streak [(5, 1)] = 0" by (simp add: fail_streak_def failureRewardThreshold_def)
  then have el: "eligible [ca, cb] cand_Model (eg_arms b) 9 = [ca, cb]"
    by (simp add: eligible_def cooling_def arm ca_def cb_def armStats_inCooldown_def arm_spec_def)
  have sc: "greedy_score (eg_arms b) ca = NegInf" "greedy_score (eg_arms b) cb = Fin 1"
    by (simp_all add: greedy_score_def arm ca_def cb_def arm_spec_def)
  have "eg_epsilon b \<le> 1 / 2" by (simp add: b_def EpsilonGreedy_Update_def NewEpsilonGreedy_def Let_def)
  from EpsilonGreedy_exploits [OF this, of "[ca, cb]" 9 0] obtain xs c ys where
    c: "[ca, cb] = xs @ c # ys" "EpsilonGreedy_Select (1 / 2) 0 9 b [ca, cb] = cand_Model c"
    "greedy_score (eg_arms b) cb \<le> greedy_score (eg_arms b) c"
    unfolding el by auto
  from c(1) have "c = ca \<or> c = cb" by (cases xs rule: remdups_adj.cases) auto
  with c sc show ?thesis by (auto simp: cb_def)
qed

end
