(* ===== verification/Scoring.thy ===== *)
theory Scoring
  imports Bandit
begin

text \<open>
  The scoring engine and what feeds it: the in-memory performance and policy stores
  (\<^verbatim>\<open>adapters/store/modelperf\<close>, \<^verbatim>\<open>adapters/store/policystore\<close>), \<^verbatim>\<open>Engine.Decide\<close>
  (\<^verbatim>\<open>domain/scoring/engine.go\<close>), the recording half of shadow routing (\<^verbatim>\<open>shadow.go\<close>), the
  telemetry and bandit-reward plugins, and the feedback store, plugin and handler.
\<close>

section \<open>Performance store\<close>

definition emaAlpha :: float64 where "emaAlpha = 1 / 10"

definition zero_stats :: ModelStats where
  "zero_stats = \<lparr>ms_Model = [], ms_Intent = [], ms_SuccessRate = 0, ms_P50LatencyMS = 0, ms_P95LatencyMS = 0,
     ms_MedianCostUSD = 0, ms_SampleCount = 0, ms_UpdatedAt = 0\<rparr>"

record perf_entry =
  pe_stats :: ModelStats
  pe_recentResults :: "bool list"
  pe_resultHead :: nat
  pe_resultCount :: nat

type_synonym perf_store = "(string, perf_entry) gomap"

definition perf_NewMemory :: perf_store where
  "perf_NewMemory = Map.empty"

definition perf_key :: "string \<Rightarrow> string \<Rightarrow> string" where
  "perf_key model intent = model @ '':'' @ intent"

definition perf_Get :: "perf_store \<Rightarrow> string \<Rightarrow> string \<Rightarrow> ModelStats" where
  "perf_Get m model intent = (case m (perf_key model intent) of
      None \<Rightarrow> zero_stats\<lparr>ms_Model := model, ms_Intent := intent\<rparr>
    | Some e \<Rightarrow> pe_stats e)"

definition perf_new_entry :: "ModelStats \<Rightarrow> perf_entry" where
  "perf_new_entry s = \<lparr>pe_stats = zero_stats\<lparr>ms_Model := ms_Model s, ms_Intent := ms_Intent s\<rparr>,
     pe_recentResults = replicate 100 False, pe_resultHead = 0, pe_resultCount = 0\<rparr>"

definition ema :: "float64 \<Rightarrow> float64 \<Rightarrow> float64" where
  "ema new old = emaAlpha * new + (1 - emaAlpha) * old"

definition perf_observe :: "time \<Rightarrow> ModelStats \<Rightarrow> perf_entry \<Rightarrow> perf_entry" where
  "perf_observe now s e =
     (let st = pe_stats e;
          st = st\<lparr>ms_SampleCount := ms_SampleCount st + 1, ms_UpdatedAt := now\<rparr>;
          st = (if ms_SampleCount st = 1
                then st\<lparr>ms_P50LatencyMS := ms_P50LatencyMS s, ms_P95LatencyMS := ms_P95LatencyMS s,
                       ms_MedianCostUSD := ms_MedianCostUSD s\<rparr>
                else st\<lparr>ms_P50LatencyMS := ema (ms_P50LatencyMS s) (ms_P50LatencyMS st),
                       ms_P95LatencyMS := ema (ms_P95LatencyMS s) (ms_P95LatencyMS st),
                       ms_MedianCostUSD := ema (ms_MedianCostUSD s) (ms_MedianCostUSD st)\<rparr>);
          idx = pe_resultHead e mod length (pe_recentResults e);
          ring = (pe_recentResults e)[idx := ms_SuccessRate s \<ge> 1];
          n = (if pe_resultCount e < length ring then pe_resultCount e + 1 else pe_resultCount e);
          successes = length (filter (\<lambda>ok. ok) (take n ring))
      in \<lparr>pe_stats = st\<lparr>ms_SuccessRate := real successes / real n\<rparr>, pe_recentResults = ring,
          pe_resultHead = pe_resultHead e + 1, pe_resultCount = n\<rparr>)"

definition perf_Upsert :: "time \<Rightarrow> ModelStats \<Rightarrow> perf_store \<Rightarrow> perf_store" where
  "perf_Upsert now s m =
     (let k = perf_key (ms_Model s) (ms_Intent s);
          e = (case m k of None \<Rightarrow> perf_new_entry s | Some e \<Rightarrow> e)
      in m(k \<mapsto> perf_observe now s e))"

definition perf_List :: "string list \<Rightarrow> string \<Rightarrow> perf_store \<Rightarrow> ModelStats list" where
  "perf_List ord model m = concat (map (\<lambda>k. case m k of
       None \<Rightarrow> []
     | Some e \<Rightarrow> if model \<noteq> [] \<and> \<not> HasPrefix k (model @ '':'') then [] else [pe_stats e]) ord)"

section \<open>Policy store\<close>

record RoutingPolicy =
  rp_Intent :: string
  rp_CostWeight :: float64
  rp_LatencyWeight :: float64
  rp_ReliabilityWeight :: float64
  rp_MaxCostUSD :: float64
  rp_MaxLatencyMS :: int
  rp_ShadowEnabled :: bool
  rp_ShadowModels :: "string list"

definition weights_policy :: "string \<Rightarrow> float64 \<times> float64 \<times> float64 \<Rightarrow> RoutingPolicy" where
  "weights_policy intent w = (case w of (w0, w1, w2) \<Rightarrow>
     \<lparr>rp_Intent = intent, rp_CostWeight = w0, rp_LatencyWeight = w1, rp_ReliabilityWeight = w2,
      rp_MaxCostUSD = 0, rp_MaxLatencyMS = 0, rp_ShadowEnabled = False, rp_ShadowModels = []\<rparr>)"

type_synonym policy_store = "(string, RoutingPolicy) gomap"

definition policy_NewMemory :: "(string, float64 \<times> float64 \<times> float64) gomap \<Rightarrow> policy_store" where
  "policy_NewMemory weights = (\<lambda>intent. map_option (weights_policy intent) (weights intent))"

definition GetPolicy :: "policy_store \<Rightarrow> string \<Rightarrow> goerror + RoutingPolicy" where
  "GetPolicy m intent = Inr (case m intent of
      None \<Rightarrow> weights_policy intent (3 / 10, 3 / 10, 4 / 10)
    | Some p \<Rightarrow> p)"

definition SetPolicy :: "RoutingPolicy \<Rightarrow> policy_store \<Rightarrow> policy_store" where
  "SetPolicy p m = m(rp_Intent p \<mapsto> p)"

section \<open>Engine\<close>

definition intentFromHint :: "TaskHint \<Rightarrow> string" where
  "intentFromHint hint =
     (if hint_ReasoningScore hint > 0 then ''reasoning''
      else if hint_CodingScore hint > 0 then ''coding''
      else if hint_MathScore hint > 0 then ''math''
      else if hint_MultilingualScore hint > 0 then ''multilingual''
      else ''general'')"

text \<open>
  The two stores are the functions the engine calls, the bandit its \<^verbatim>\<open>Select\<close>. \<^verbatim>\<open>sort.Slice\<close> is
  an insertion sort on the at most twelve models that the default catalog can leave.
\<close>

definition Engine_candidates :: "(string \<Rightarrow> string \<Rightarrow> ModelStats) \<Rightarrow> RoutingPolicy \<Rightarrow> TaskHint \<Rightarrow> ModelCard list \<Rightarrow> Candidate list" where
  "Engine_candidates stats policy hint filtered =
     (let inputShare = estimateInputShare (hint_PromptChars hint);
          weights = (rp_CostWeight policy, rp_LatencyWeight policy, rp_ReliabilityWeight policy)
      in insertion_sort (\<lambda>a b. cand_Score a > cand_Score b)
           (map (\<lambda>m. \<lparr>cand_Provider = [], cand_Model = card_ID m,
                       cand_Score = Score m hint (stats (card_ID m) (intentFromHint hint)) weights inputShare\<rparr>) filtered))"

definition Engine_primary :: "(Candidate list \<Rightarrow> string) option \<Rightarrow> Candidate list \<Rightarrow> string" where
  "Engine_primary band candidates =
     (let primary = cand_Model (candidates ! 0)
      in case band of
           None \<Rightarrow> primary
         | Some select \<Rightarrow> (let picked = select candidates in if picked \<noteq> [] then picked else primary))"

definition Engine_Decide :: "(string \<Rightarrow> goerror + RoutingPolicy) \<Rightarrow> (string \<Rightarrow> string \<Rightarrow> ModelStats) \<Rightarrow>
    ModelCard list \<Rightarrow> (Candidate list \<Rightarrow> string) option \<Rightarrow> time \<Rightarrow> TaskHint \<Rightarrow> Registry option \<Rightarrow>
    (goerror + RoutingDecision) \<times> Registry option" where
  "Engine_Decide getPolicy stats models band now hint cb = (case getPolicy (intentFromHint hint) of
      Inl err \<Rightarrow> (Inl (err\<lparr>err_msg := ''scoring engine: get policy: '' @ err_msg err\<rparr>), cb)
    | Inr policy \<Rightarrow>
        (case Filter now models hint cb of (filtered, cb) \<Rightarrow>
          if filtered = [] then (Inl (plain_error ''scoring engine: no models pass filter constraints''), cb)
          else let candidates = Engine_candidates stats policy hint filtered;
                   primary = Engine_primary band candidates
               in (Inr \<lparr>rd_Provider = [], rd_Model = primary,
                        rd_FallbackChain = BuildFallbackChain candidates primary 2\<rparr>, cb)))"

section \<open>What feeds the stores\<close>

definition floatBool :: "bool \<Rightarrow> float64" where
  "floatBool b = (if b then 1 else 0)"

text \<open>
  \<^verbatim>\<open>Orchestrator.Record\<close>: the statistics it upserts and the reward it gives the bandit. The
  bandit is its \<^verbatim>\<open>Update\<close> at the time of the call, a function of model and reward.
\<close>

definition shadow_stats :: "string \<Rightarrow> bool \<Rightarrow> duration \<Rightarrow> ModelStats" where
  "shadow_stats model success latency = zero_stats\<lparr>ms_Model := model, ms_SuccessRate := floatBool success,
     ms_P50LatencyMS := real_of_int (EventLatency_Milliseconds latency),
     ms_P95LatencyMS := real_of_int (EventLatency_Milliseconds latency)\<rparr>"

definition shadow_reward :: "RewardWeights \<Rightarrow> bool \<Rightarrow> duration \<Rightarrow> Choice list \<Rightarrow> float64" where
  "shadow_reward w success latency choices =
     floatBool success * (7 / 10) + (if latency < 2 * Second then 3 / 10 else 0) +
     rw_Delta w * QualityFromFinishReason choices"

definition Orchestrator_Record :: "RewardWeights \<Rightarrow> (string \<Rightarrow> float64 \<Rightarrow> 'b \<Rightarrow> 'b) option \<Rightarrow> time \<Rightarrow> string \<Rightarrow> bool \<Rightarrow>
    duration \<Rightarrow> Choice list \<Rightarrow> perf_store \<times> 'b \<Rightarrow> perf_store \<times> 'b" where
  "Orchestrator_Record w update now model success latency choices st =
     (case st of (perf, b) \<Rightarrow>
        (perf_Upsert now (shadow_stats model success latency) perf,
         case update of None \<Rightarrow> b | Some u \<Rightarrow> u model (shadow_reward w success latency choices) b))"

text \<open>The bandit-reward plugin.\<close>

definition banditreward_reward :: "CallEvent \<Rightarrow> float64" where
  "banditreward_reward ev =
     (if ev_Error ev = [] then 7 / 10 else 0) + (if ev_Latency ev < 2 * Second then 3 / 10 else 0) +
     rw_Delta DefaultRewardWeights * QualityFromFinishReason (resp_Choices (ev_Response ev))"

definition banditreward_OnEvent :: "(string \<Rightarrow> float64 \<Rightarrow> 'b \<Rightarrow> 'b) \<Rightarrow> CallEvent \<Rightarrow> 'b \<Rightarrow> 'b" where
  "banditreward_OnEvent update ev b =
     (if \<not> ev_AutoRouted ev \<or> ev_Shadow ev \<noteq> None then b else update (ev_Model ev) (banditreward_reward ev) b)"

text \<open>The telemetry plugin: the record it writes and the statistics it upserts.\<close>

record TelemetryRecord =
  tr_RequestID :: string
  tr_UseCaseID :: string
  tr_TenantID :: string
  tr_Intent :: string
  tr_Model :: string
  tr_ResponseModel :: string
  tr_Provider :: string
  tr_LatencyMS :: int
  tr_TokensIn :: int
  tr_TokensOut :: int
  tr_MaxTokens :: int
  tr_CostUSD :: float64
  tr_Success :: bool
  tr_ErrorMessage :: string
  tr_FinishReason :: string
  tr_FallbackUsed :: bool
  tr_FallbackFrom :: string
  tr_Shadow :: bool
  tr_ShadowOf :: string
  tr_Timestamp :: time

definition telemetry_record :: "CallEvent \<Rightarrow> TelemetryRecord" where
  "telemetry_record ev = \<lparr>tr_RequestID = ev_ID ev, tr_UseCaseID = ev_UseCaseID ev, tr_TenantID = ev_TenantID ev,
     tr_Intent = [], tr_Model = ev_Model ev, tr_ResponseModel = resp_Model (ev_Response ev), tr_Provider = ev_Provider ev,
     tr_LatencyMS = EventLatency_Milliseconds (ev_Latency ev), tr_TokensIn = ev_TokensIn ev, tr_TokensOut = ev_TokensOut ev,
     tr_MaxTokens = req_MaxTokens (ev_Request ev), tr_CostUSD = TotalUSD (ev_Cost ev), tr_Success = (ev_Error ev = []),
     tr_ErrorMessage = ev_Error ev,
     tr_FinishReason = (case resp_Choices (ev_Response ev) of [] \<Rightarrow> [] | c # _ \<Rightarrow> ch_FinishReason c),
     tr_FallbackUsed = ev_FallbackUsed ev, tr_FallbackFrom = ev_FallbackFrom ev,
     tr_Shadow = (ev_Shadow ev \<noteq> None),
     tr_ShadowOf = (case ev_Shadow ev of None \<Rightarrow> [] | Some sh \<Rightarrow> PrimaryModel sh),
     tr_Timestamp = ev_Timestamp ev\<rparr>"

definition telemetry_stats :: "CallEvent \<Rightarrow> ModelStats" where
  "telemetry_stats ev = zero_stats\<lparr>ms_Model := ev_Model ev, ms_Intent := ev_UseCaseID ev,
     ms_SuccessRate := floatBool (ev_Error ev = []),
     ms_P50LatencyMS := real_of_int (EventLatency_Milliseconds (ev_Latency ev)),
     ms_P95LatencyMS := real_of_int (EventLatency_Milliseconds (ev_Latency ev))\<rparr>"

text \<open>The sink is the list of records written; \<open>None\<close> is no sink.\<close>

definition telemetry_OnEvent :: "time \<Rightarrow> CallEvent \<Rightarrow> perf_store \<times> TelemetryRecord list option \<Rightarrow> perf_store \<times> TelemetryRecord list option" where
  "telemetry_OnEvent now ev st = (case st of (perf, sink) \<Rightarrow>
     (perf_Upsert now (telemetry_stats ev) perf, map_option (\<lambda>rs. rs @ [telemetry_record ev]) sink))"

section \<open>Feedback\<close>

record CallInfo =
  ci_Model :: string
  ci_AutoRouted :: bool

record feedback_entry =
  fe_info :: CallInfo
  fe_expiresAt :: "time option"

record FeedbackStore =
  fs_entries :: "(string, feedback_entry) gomap"
  fs_maxSize :: int
  fs_ttl :: duration

definition Feedback_NewStore :: "int \<Rightarrow> duration \<Rightarrow> FeedbackStore" where
  "Feedback_NewStore maxSize ttl = \<lparr>fs_entries = Map.empty, fs_maxSize = maxSize, fs_ttl = ttl\<rparr>"

definition evictOldestLocked :: "string list \<Rightarrow> FeedbackStore \<Rightarrow> FeedbackStore" where
  "evictOldestLocked ord s = (case ord of [] \<Rightarrow> s | ident # _ \<Rightarrow> s\<lparr>fs_entries := gomap_delete ident (fs_entries s)\<rparr>)"

definition Feedback_Record :: "string list \<Rightarrow> time \<Rightarrow> string \<Rightarrow> CallInfo \<Rightarrow> FeedbackStore \<Rightarrow> FeedbackStore" where
  "Feedback_Record ord now callID info s =
     (if callID = [] then s
      else let e = (if fs_ttl s > 0 then Some (now + fs_ttl s) else None);
               s = (if fs_maxSize s > 0 \<and> int (gomap_len (fs_entries s)) \<ge> fs_maxSize s then evictOldestLocked ord s else s)
           in s\<lparr>fs_entries := (fs_entries s)(callID \<mapsto> \<lparr>fe_info = info, fe_expiresAt = e\<rparr>)\<rparr>)"

definition Feedback_Lookup :: "time \<Rightarrow> string \<Rightarrow> FeedbackStore \<Rightarrow> CallInfo option \<times> FeedbackStore" where
  "Feedback_Lookup now callID s = (case fs_entries s callID of
      None \<Rightarrow> (None, s)
    | Some e \<Rightarrow> if expired (fe_expiresAt e) now then (None, s\<lparr>fs_entries := gomap_delete callID (fs_entries s)\<rparr>)
                else (Some (fe_info e), s))"

definition Feedback_Len :: "FeedbackStore \<Rightarrow> int" where
  "Feedback_Len s = int (gomap_len (fs_entries s))"

definition feedback_OnEvent :: "string list \<Rightarrow> time \<Rightarrow> CallEvent \<Rightarrow> FeedbackStore \<Rightarrow> FeedbackStore" where
  "feedback_OnEvent ord now ev s =
     (if ev_Shadow ev \<noteq> None then s
      else Feedback_Record ord now (ev_ID ev) \<lparr>ci_Model = ev_Model ev, ci_AutoRouted = ev_AutoRouted ev\<rparr> s)"

text \<open>
  The handler: the HTTP status with the error code, if any. The body is \<open>None\<close> when it does not
  parse, otherwise the call id and the rating, whose reward is \<^verbatim>\<open>positiveReward\<close> or \<^verbatim>\<open>negativeReward\<close>.
\<close>

definition FeedbackHandler_ServeHTTP :: "(string \<Rightarrow> float64 \<Rightarrow> 'b \<Rightarrow> 'b) \<Rightarrow> time \<Rightarrow> bool \<Rightarrow> (string \<times> string) option \<Rightarrow>
    FeedbackStore \<Rightarrow> 'b \<Rightarrow> (int \<times> string) \<times> FeedbackStore \<times> 'b" where
  "FeedbackHandler_ServeHTTP update now isPost body s b =
     (if \<not> isPost then ((405, ''method_not_allowed''), s, b)
      else case body of
        None \<Rightarrow> ((400, ''invalid_request_body''), s, b)
      | Some (callID, rating) \<Rightarrow>
          if callID = [] then ((400, ''missing_call_id''), s, b)
          else if rating \<noteq> ''positive'' \<and> rating \<noteq> ''negative'' then ((400, ''invalid_rating''), s, b)
          else let reward = (if rating = ''positive'' then 1 else 0)
               in case Feedback_Lookup now callID s of
                    (None, s) \<Rightarrow> ((404, ''unknown_call_id''), s, b)
                  | (Some info, s) \<Rightarrow>
                      ((204, []), s, if ci_AutoRouted info then update (ci_Model info) reward b else b))"

section \<open>The success window\<close>

text \<open>
  The ring buffer holds the last hundred outcomes: with fewer it is filled from the start, and
  once full it is the window rotated by the write position.
\<close>

definition ring_holds :: "bool list \<Rightarrow> bool list \<Rightarrow> bool" where
  "ring_holds os ring \<longleftrightarrow> length ring = 100 \<and>
     (if length os < 100 then take (length os) ring = os
      else drop (length os mod 100) ring @ take (length os mod 100) ring = drop (length os - 100) os)"

lemma ring_write:
  assumes "ring_holds os ring"
  shows "ring_holds (os @ [x]) (ring[length os mod 100 := x])"
proof -
  have len: "length ring = 100" using assms by (simp add: ring_holds_def)
  let ?n = "length os" let ?h = "length os mod 100"
  show ?thesis
  proof (cases "?n < 100")
    case True
    then have "take ?n ring = os" using assms by (simp add: ring_holds_def)
    then have t: "take (Suc ?n) (ring[?n := x]) = os @ [x]"
      using True len by (simp add: take_Suc_conv_app_nth)
    show ?thesis
    proof (cases "Suc ?n < 100")
      case True
      with t len show ?thesis by (simp add: ring_holds_def)
    next
      case False
      with True have "Suc ?n = 100" "?n = 99" by auto
      with t len show ?thesis by (simp add: ring_holds_def)
    qed
  next
    case False
    then have w: "drop ?h ring @ take ?h ring = drop (?n - 100) os" using assms by (simp add: ring_holds_def)
    have h: "?h < 100" by simp
    have "drop (Suc ?h) ring @ take ?h ring = tl (drop (?n - 100) os)"
      using h len by (subst w [symmetric]) (simp add: drop_Suc tl_append2 tl_drop)
    moreover have "tl (drop (?n - 100) os) = drop (Suc ?n - 100) os"
      using False by (metis Suc_diff_le drop_Suc not_less tl_drop)
    moreover have "drop (Suc ?h) (ring[?h := x]) = drop (Suc ?h) ring" by simp
    moreover have "take (Suc ?h) (ring[?h := x]) = take ?h ring @ [x]"
      using h len by (simp add: take_Suc_conv_app_nth)
    ultimately have w': "drop (Suc ?h) (ring[?h := x]) @ take (Suc ?h) (ring[?h := x]) = drop (Suc ?n - 100) (os @ [x])"
      using False by simp
    have "Suc ?n mod 100 = (if Suc ?h = 100 then 0 else Suc ?h)" by (simp add: mod_Suc)
    with w' len False show ?thesis by (auto simp: ring_holds_def split: if_splits)
  qed
qed

lemma ring_count:
  assumes "ring_holds os ring"
  shows "length (filter P (take (min 100 (length os)) ring)) = length (filter P (drop (length os - 100) os))"
proof (cases "length os < 100")
  case True
  with assms show ?thesis by (simp add: ring_holds_def)
next
  case False
  let ?h = "length os mod 100"
  have "length (filter P (drop (length os - 100) os)) = length (filter P (drop ?h ring @ take ?h ring))"
    using False assms by (simp add: ring_holds_def)
  also have "\<dots> = length (filter P (take ?h ring @ drop ?h ring))" by (simp del: append_take_drop_id)
  also have "\<dots> = length (filter P ring)" by simp
  finally show ?thesis using False assms by (simp add: ring_holds_def)
qed

text \<open>The entry a sequence of observations should lead to, as far as routing reads it.\<close>

definition perf_entry_ok :: "bool list \<Rightarrow> perf_entry \<Rightarrow> bool" where
  "perf_entry_ok os e \<longleftrightarrow> ring_holds os (pe_recentResults e) \<and> pe_resultHead e = length os \<and>
     pe_resultCount e = min 100 (length os) \<and> ms_SampleCount (pe_stats e) = int (length os) \<and>
     ms_SuccessRate (pe_stats e) =
       real (length (filter (\<lambda>ok. ok) (drop (length os - 100) os))) / real (min 100 (length os))"

lemma perf_entry_new: "perf_entry_ok [] (perf_new_entry s)"
  by (simp add: perf_entry_ok_def perf_new_entry_def ring_holds_def zero_stats_def)

lemma perf_entry_observe:
  assumes "perf_entry_ok os e"
  shows "perf_entry_ok (os @ [ms_SuccessRate s \<ge> 1]) (perf_observe now s e)"
proof -
  let ?os = "os @ [ms_SuccessRate s \<ge> 1]"
  have ring: "ring_holds os (pe_recentResults e)" "length (pe_recentResults e) = 100" and
    hd: "pe_resultHead e = length os" "pe_resultCount e = min 100 (length os)" "ms_SampleCount (pe_stats e) = int (length os)"
    using assms by (simp_all add: perf_entry_ok_def ring_holds_def)
  have n: "(if pe_resultCount e < 100 then pe_resultCount e + 1 else pe_resultCount e) = min 100 (length ?os)"
    by (simp add: hd)
  from ring_write [OF ring(1), of "ms_SuccessRate s \<ge> 1"]
  have r: "ring_holds ?os ((pe_recentResults e)[length os mod 100 := ms_SuccessRate s \<ge> 1])" .
  from ring_count [OF r, of "\<lambda>ok. ok"] r n show ?thesis
    unfolding perf_observe_def perf_entry_ok_def by (simp add: Let_def ring(2) hd)
qed

definition perf_run :: "(time \<times> ModelStats) list \<Rightarrow> perf_store" where
  "perf_run us = foldl (\<lambda>m (now, s). perf_Upsert now s m) perf_NewMemory us"

definition outcomes_of :: "string \<Rightarrow> (time \<times> ModelStats) list \<Rightarrow> bool list" where
  "outcomes_of k us = map (\<lambda>(now, s). ms_SuccessRate s \<ge> 1)
     (filter (\<lambda>(now, s). perf_key (ms_Model s) (ms_Intent s) = k) us)"

lemma perf_run_entry:
  "if outcomes_of k us = [] then perf_run us k = None
   else \<exists>e. perf_run us k = Some e \<and> perf_entry_ok (outcomes_of k us) e"
proof (induction us rule: rev_induct)
  case Nil
  then show ?case by (simp add: outcomes_of_def perf_run_def perf_NewMemory_def)
next
  case (snoc u us)
  obtain now s where u: "u = (now, s)" by (cases u)
  have run: "perf_run (us @ [u]) = perf_Upsert now s (perf_run us)" by (simp add: perf_run_def u)
  show ?case
  proof (cases "perf_key (ms_Model s) (ms_Intent s) = k")
    case False
    then have "outcomes_of k (us @ [u]) = outcomes_of k us" "perf_run (us @ [u]) k = perf_run us k"
      unfolding run by (auto simp: outcomes_of_def u perf_Upsert_def Let_def)
    with snoc show ?thesis by simp
  next
    case True
    have os: "outcomes_of k (us @ [u]) = outcomes_of k us @ [ms_SuccessRate s \<ge> 1]"
      using True by (simp add: outcomes_of_def u)
    from snoc perf_entry_new [of s] have
      "perf_entry_ok (outcomes_of k us) (case perf_run us k of None \<Rightarrow> perf_new_entry s | Some e \<Rightarrow> e)"
      by (auto split: if_splits)
    from perf_entry_observe [OF this] show ?thesis
      unfolding os using True by (simp add: run perf_Upsert_def Let_def)
  qed
qed

text \<open>
  C37. The success rate routing reads is that of the last hundred calls: after any sequence of
  upserts the store returns, for a model and intent, the number of observations made under
  that key and the fraction of successes among the latest hundred of them.
\<close>

theorem perf_success_window:
  defines "os us model intent \<equiv> outcomes_of (perf_key model intent) us"
  shows "ms_SampleCount (perf_Get (perf_run us) model intent) = int (length (os us model intent)) \<and>
    ms_SuccessRate (perf_Get (perf_run us) model intent) =
      real (length (filter (\<lambda>ok. ok) (drop (length (os us model intent) - 100) (os us model intent)))) /
      real (min 100 (length (os us model intent)))"
  using perf_run_entry [of "perf_key model intent" us]
  by (auto simp: os_def perf_Get_def perf_entry_ok_def zero_stats_def split: if_splits)

text \<open>Latencies and costs are averages: they stay within the range of what was observed.\<close>

lemma ema_bounds: "lo \<le> x \<Longrightarrow> x \<le> hi \<Longrightarrow> lo \<le> y \<Longrightarrow> y \<le> hi \<Longrightarrow> lo \<le> ema x y \<and> ema x y \<le> (hi :: real)"
  by (simp add: ema_def emaAlpha_def)

section \<open>Decisions\<close>

lemma Filter_loop_None:
  "Filter_loop now hint share ms None = (filter (\<lambda>m. \<not> over_cap hint (blendedCost m share)) ms, None)"
  by (induction ms) auto

text \<open>
  With distinct model ids each breaker is asked once, in the state it had before the call, and
  every breaker of a model within the cap is asked, whether or not the model is chosen.
\<close>

lemma Filter_loop_Some:
  "distinct (map card_ID ms) \<Longrightarrow> \<exists>r'. Filter_loop now hint share ms (Some r) =
     (filter (\<lambda>m. \<not> over_cap hint (blendedCost m share) \<and> fst (Breaker_Allow now (Registry_view now r (card_ID m)))) ms, Some r') \<and>
   (\<forall>x. Registry_view now r' x =
      (if \<exists>m \<in> set ms. \<not> over_cap hint (blendedCost m share) \<and> card_ID m = x
       then snd (Breaker_Allow now (Registry_view now r x)) else Registry_view now r x))"
proof (induction ms arbitrary: r)
  case Nil
  then show ?case by simp
next
  case (Cons m ms)
  show ?case
  proof (cases "over_cap hint (blendedCost m share)")
    case True
    then show ?thesis using Cons.IH [of r] Cons.prems by auto
  next
    case False
    let ?r = "snd (Registry_IsAllowed now (card_ID m) r)"
    have v: "Registry_view now ?r = (Registry_view now r)(card_ID m := snd (Breaker_Allow now (Registry_view now r (card_ID m))))"
      by (simp add: IsAllowed_eq Registry_view_upd)
    have ne: "\<And>x. x \<in> set ms \<Longrightarrow> card_ID x \<noteq> card_ID m" using Cons.prems by (simp add: image_iff) metis
    from Cons.IH [of ?r] Cons.prems obtain r' where r':
      "Filter_loop now hint share ms (Some ?r) = (filter (\<lambda>x. \<not> over_cap hint (blendedCost x share) \<and>
         fst (Breaker_Allow now (Registry_view now ?r (card_ID x)))) ms, Some r')"
      "\<And>x. Registry_view now r' x = (if \<exists>m \<in> set ms. \<not> over_cap hint (blendedCost m share) \<and> card_ID m = x
        then snd (Breaker_Allow now (Registry_view now ?r x)) else Registry_view now ?r x)" by auto
    have "filter (\<lambda>x. \<not> over_cap hint (blendedCost x share) \<and> fst (Breaker_Allow now (Registry_view now ?r (card_ID x)))) ms =
          filter (\<lambda>x. \<not> over_cap hint (blendedCost x share) \<and> fst (Breaker_Allow now (Registry_view now r (card_ID x)))) ms"
      using ne by (intro filter_cong) (auto simp: v)
    moreover have "fst (Registry_IsAllowed now (card_ID m) r) = fst (Breaker_Allow now (Registry_view now r (card_ID m)))"
      by (simp add: IsAllowed_eq)
    ultimately show ?thesis
      using False r'(1) ne by (intro exI [of _ r']) (auto simp: r'(2) v Let_def case_prod_beta)
  qed
qed

definition passes :: "time \<Rightarrow> TaskHint \<Rightarrow> Registry option \<Rightarrow> ModelCard \<Rightarrow> bool" where
  "passes now hint cb m \<longleftrightarrow> in_cap hint m \<and>
     (case cb of None \<Rightarrow> True | Some r \<Rightarrow> fst (Breaker_Allow now (Registry_view now r (card_ID m))))"

lemma Filter_eq:
  assumes "distinct (map card_ID models)"
  shows "fst (Filter now models hint cb) = filter (passes now hint cb) models"
proof (cases cb)
  case None
  then show ?thesis by (simp add: Filter_def Filter_loop_None passes_def [abs_def] in_cap_def)
next
  case (Some r)
  then show ?thesis
    using Filter_loop_Some [OF assms, of now hint "estimateInputShare (hint_PromptChars hint)" r]
    by (auto simp: Filter_def passes_def [abs_def] in_cap_def)
qed

definition cand_of :: "(string \<Rightarrow> string \<Rightarrow> ModelStats) \<Rightarrow> RoutingPolicy \<Rightarrow> TaskHint \<Rightarrow> ModelCard \<Rightarrow> Candidate" where
  "cand_of stats policy hint m = \<lparr>cand_Provider = [], cand_Model = card_ID m,
     cand_Score = Score m hint (stats (card_ID m) (intentFromHint hint))
       (rp_CostWeight policy, rp_LatencyWeight policy, rp_ReliabilityWeight policy) (estimateInputShare (hint_PromptChars hint))\<rparr>"

lemma Engine_candidates_eq:
  "Engine_candidates stats policy hint ms = sort_key (\<lambda>c. - cand_Score c) (map (cand_of stats policy hint) ms)"
  using insertion_sort_eq_sort_key [of "\<lambda>c. - cand_Score c"]
  by (simp add: Engine_candidates_def Let_def cand_of_def [abs_def])

lemma Engine_candidates_set: "set (Engine_candidates stats policy hint ms) = cand_of stats policy hint ` set ms"
  by (simp add: Engine_candidates_eq)

lemma Engine_candidates_distinct:
  assumes "distinct (map card_ID ms)"
  shows "distinct (map cand_Model (Engine_candidates stats policy hint ms))"
proof -
  have "mset (map cand_Model (Engine_candidates stats policy hint ms)) = mset (map card_ID ms)"
    by (simp add: Engine_candidates_eq multiset.map_comp comp_def cand_of_def)
  then show ?thesis using assms mset_eq_imp_distinct_iff by blast
qed

lemma Engine_candidates_hd:
  assumes "Engine_candidates stats policy hint ms = c # cs" "x \<in> set (c # cs)"
  shows "cand_Score x \<le> cand_Score c"
  using sorted_sort_key [of "\<lambda>c. - cand_Score c" "map (cand_of stats policy hint) ms"] assms
  by (auto simp: Engine_candidates_eq [symmetric])

text \<open>The bandit may pick any candidate; without one the best score is the primary.\<close>

lemma Engine_primary_in:
  assumes "cs \<noteq> []" "\<And>sel. band = Some sel \<Longrightarrow> sel cs \<in> cand_Model ` set cs"
  shows "Engine_primary band cs \<in> cand_Model ` set cs"
  using assms by (auto simp: Engine_primary_def Let_def split: option.splits)

lemma Engine_Decide_error_iff:
  "isl (fst (Engine_Decide getPolicy stats models band now hint cb)) \<longleftrightarrow>
     isl (getPolicy (intentFromHint hint)) \<or> fst (Filter now models hint cb) = []"
  by (auto simp: Engine_Decide_def Let_def split: sum.splits prod.splits)

lemma Engine_Decide_candidates:
  assumes dec: "Engine_Decide getPolicy stats models band now hint cb = (Inr d, cb')"
    and models: "distinct (map card_ID models)"
    and band: "band \<in> {None, Some (EpsilonGreedy_Select coin draw now b), Some (UCB_Select now u)}"
  obtains policy where "getPolicy (intentFromHint hint) = Inr policy"
    "Engine_candidates stats policy hint (filter (passes now hint cb) models) \<noteq> []"
    "rd_Model d = Engine_primary band (Engine_candidates stats policy hint (filter (passes now hint cb) models))"
    "rd_Model d \<in> card_ID ` {m \<in> set models. passes now hint cb m}"
    "rd_FallbackChain d = take 2 (filter (\<lambda>c. cand_Model c \<noteq> rd_Model d)
       (Engine_candidates stats policy hint (filter (passes now hint cb) models)))"
proof -
  from dec obtain policy where pol: "getPolicy (intentFromHint hint) = Inr policy"
    by (auto simp: Engine_Decide_def split: sum.splits)
  let ?ms = "filter (passes now hint cb) models"
  let ?cs = "Engine_candidates stats policy hint ?ms"
  have ms: "?ms \<noteq> []" and d: "d = \<lparr>rd_Provider = [], rd_Model = Engine_primary band ?cs,
      rd_FallbackChain = BuildFallbackChain ?cs (Engine_primary band ?cs) 2\<rparr>"
    using dec pol Filter_eq [OF models, of now hint cb]
    by (auto simp: Engine_Decide_def Let_def split: prod.splits if_splits)
  have ne: "?cs \<noteq> []" using ms Engine_candidates_set [of stats policy hint ?ms] by (metis image_is_empty set_empty)
  have "Engine_primary band ?cs \<in> cand_Model ` set ?cs"
    using band greedy.sel_candidate [OF ne] ucb.sel_candidate [OF ne] by (intro Engine_primary_in [OF ne]) auto
  then have prim: "rd_Model d \<in> card_ID ` {m \<in> set models. passes now hint cb m}"
    by (auto simp: d Engine_candidates_set cand_of_def)
  show thesis
    using pol ne prim by (intro that [of policy]) (simp_all add: d BuildFallbackChain_eq numeral_2_eq_2)
qed

text \<open>
  C8. The scoring engine decides soundly, with either bandit or none: the primary is a model
  that is within the cost cap and whose breaker admits it; the chain holds the two best scores
  among the other such models (all of them, when there are fewer), none twice and none the
  primary; and without a bandit no admitted model scores higher than the primary.
\<close>

theorem Engine_Decide_sound:
  assumes dec: "Engine_Decide getPolicy stats models band now hint cb = (Inr d, cb')"
    and models: "distinct (map card_ID models)"
    and band: "band \<in> {None, Some (EpsilonGreedy_Select coin draw now b), Some (UCB_Select now u)}"
  shows "\<exists>policy. getPolicy (intentFromHint hint) = Inr policy \<and>
    rd_Model d \<in> card_ID ` {m \<in> set models. passes now hint cb m} \<and>
    rd_FallbackChain d = take 2 (filter (\<lambda>c. cand_Model c \<noteq> rd_Model d)
      (sort_key (\<lambda>c. - cand_Score c) (map (cand_of stats policy hint) (filter (passes now hint cb) models)))) \<and>
    distinct (rd_Model d # map cand_Model (rd_FallbackChain d)) \<and>
    (band = None \<longrightarrow> (\<exists>m \<in> set models. passes now hint cb m \<and> rd_Model d = card_ID m \<and>
       (\<forall>x \<in> set models. passes now hint cb x \<longrightarrow>
          cand_Score (cand_of stats policy hint x) \<le> cand_Score (cand_of stats policy hint m))))"
proof -
  from Engine_Decide_candidates [OF dec models band] obtain policy where
    pol: "getPolicy (intentFromHint hint) = Inr policy" and
    ne: "Engine_candidates stats policy hint (filter (passes now hint cb) models) \<noteq> []" and
    d: "rd_Model d = Engine_primary band (Engine_candidates stats policy hint (filter (passes now hint cb) models))" and
    prim: "rd_Model d \<in> card_ID ` {m \<in> set models. passes now hint cb m}" and
    chain: "rd_FallbackChain d = take 2 (filter (\<lambda>c. cand_Model c \<noteq> rd_Model d)
       (Engine_candidates stats policy hint (filter (passes now hint cb) models)))"
    by blast
  let ?ms = "filter (passes now hint cb) models"
  let ?cs = "Engine_candidates stats policy hint ?ms"
  have "distinct (map cand_Model ?cs)" by (rule Engine_candidates_distinct) (simp add: models distinct_map_filter)
  then have dist: "distinct (rd_Model d # map cand_Model (rd_FallbackChain d))"
    unfolding chain by (auto simp: take_map [symmetric] distinct_map_filter dest!: in_set_takeD)
  have best: "\<exists>m \<in> set models. passes now hint cb m \<and> rd_Model d = card_ID m \<and>
       (\<forall>x \<in> set models. passes now hint cb x \<longrightarrow>
          cand_Score (cand_of stats policy hint x) \<le> cand_Score (cand_of stats policy hint m))" if "band = None"
  proof -
    obtain c cs where c: "?cs = c # cs" using ne by (cases ?cs) auto
    then have "c \<in> cand_of stats policy hint ` set ?ms" by (metis Engine_candidates_set list.set_intros(1))
    then obtain m where m: "m \<in> set models" "passes now hint cb m" "c = cand_of stats policy hint m" by auto
    have "rd_Model d = card_ID m" using that c m(3) by (simp add: d Engine_primary_def cand_of_def)
    moreover have "cand_of stats policy hint x \<in> set (c # cs)" if "x \<in> set models" "passes now hint cb x" for x
      unfolding c [symmetric] Engine_candidates_set using that by simp
    ultimately show ?thesis using m Engine_candidates_hd [OF c] by blast
  qed
  show ?thesis using pol prim dist best chain by (intro exI [of _ policy]) (auto simp: Engine_candidates_eq)
qed

theorem Engine_Decide_sound_witness:
  defines "hint \<equiv> \<lparr>hint_PromptChars = 100, hint_ReasoningScore = 1, hint_CodingScore = 0, hint_MathScore = 0,
     hint_MultilingualScore = 0, hint_LatencySensitive = False, hint_MaxCostUSDPer1M = 0, hint_Tenant = []\<rparr>"
  shows "\<exists>d cb'. Engine_Decide (GetPolicy Map.empty) (perf_Get perf_NewMemory) catalog None 0 hint None = (Inr d, cb') \<and>
    rd_Model d \<in> card_ID ` set catalog \<and> distinct (rd_Model d # map cand_Model (rd_FallbackChain d))"
proof -
  obtain x cb' where x: "Engine_Decide (GetPolicy Map.empty) (perf_Get perf_NewMemory) catalog None 0 hint None = (x, cb')"
    by fastforce
  have "passes 0 hint None m" for m by (simp add: passes_def in_cap_def over_cap_def hint_def)
  moreover have "catalog \<noteq> []" by (simp add: catalog_def)
  ultimately have "fst (Filter 0 catalog hint None) \<noteq> []" by (simp add: Filter_eq [OF catalog_IDs(1)])
  then have "\<not> isl x"
    using Engine_Decide_error_iff [of "GetPolicy Map.empty" "perf_Get perf_NewMemory" catalog None 0 hint None]
    by (simp add: x GetPolicy_def)
  then obtain d where d: "x = Inr d" by (cases x) auto
  from Engine_Decide_sound [OF x [unfolded d] catalog_IDs(1), where coin = 0 and draw = 0 and b = "NewEpsilonGreedy 0" and u = "NewUCB 0"]
  show ?thesis using x d by auto
qed

text \<open>
  Asking for a decision uses up probes: when a model's breaker is half-open with one probe
  left and the engine decides for another model, the probe is gone although no request was
  sent, and the breaker refuses every later request until an outcome is recorded for the model.
\<close>

theorem Engine_Decide_spends_probe:
  assumes dec: "Engine_Decide getPolicy stats models band now hint (Some r) = (Inr d, cb')"
    and models: "distinct (map card_ID models)" "m \<in> set models" "in_cap hint m"
    and half: "br_state (Registry_view now r (card_ID m)) = StateHalfOpen"
      "br_probesSent (Registry_view now r (card_ID m)) + 1 = ProbeCount (br_policy (Registry_view now r (card_ID m)))"
    and other: "rd_Model d \<noteq> card_ID m"
  shows "\<exists>r'. cb' = Some r' \<and> fst (Breaker_Allow_run ts (Registry_view now r' (card_ID m))) = replicate (length ts) False"
proof -
  let ?b = "Registry_view now r (card_ID m)"
  let ?share = "estimateInputShare (hint_PromptChars hint)"
  from Filter_loop_Some [OF models(1), of now hint ?share r] obtain r' where
    r': "snd (Filter now models hint (Some r)) = Some r'"
    "\<forall>x. Registry_view now r' x = (if \<exists>m \<in> set models. \<not> over_cap hint (blendedCost m ?share) \<and> card_ID m = x
       then snd (Breaker_Allow now (Registry_view now r x)) else Registry_view now r x)"
    by (auto simp: Filter_def)
  have "cb' = Some r'"
    using dec r'(1) by (auto simp: Engine_Decide_def Let_def split: sum.splits prod.splits if_splits)
  moreover have "Registry_view now r' (card_ID m) = snd (Breaker_Allow now ?b)"
    using r'(2) models(2,3) by (auto simp: in_cap_def)
  then have "br_state (Registry_view now r' (card_ID m)) = StateHalfOpen"
    "ProbeCount (br_policy (Registry_view now r' (card_ID m))) \<le> br_probesSent (Registry_view now r' (card_ID m))"
    using half by (auto simp: Breaker_Allow_def Breaker_probe_def)
  then have "fst (Breaker_Allow_run ts (Registry_view now r' (card_ID m))) = replicate (length ts) False"
    by (induction ts) (auto simp: breaker_defs split: prod.splits)
  ultimately show ?thesis by blast
qed

theorem Engine_Decide_spends_probe_witness:
  defines "hint \<equiv> \<lparr>hint_PromptChars = 100, hint_ReasoningScore = 1, hint_CodingScore = 0, hint_MathScore = 0,
     hint_MultilingualScore = 0, hint_LatencySensitive = False, hint_MaxCostUSDPer1M = 0, hint_Tenant = []\<rparr>"
  defines "mk \<equiv> \<lambda>n r. \<lparr>card_ID = n, card_InputUSDPer1M = 1, card_OutputUSDPer1M = 1, card_CachedInputUSDPer1M = 1,
     card_CacheWriteUSDPer1M = 1, card_LatencySec = 1, card_FailureRate = 0, card_Reasoning = r, card_Coding = 1,
     card_Math = 1, card_Multilingual = 1, card_ContextWindow = 8192\<rparr>"
  defines "half \<equiv> (Breaker_New 0 DefaultPolicy)\<lparr>br_state := StateHalfOpen, br_probesSent := 2\<rparr>"
  defines "r \<equiv> (NewRegistry DefaultPolicy)\<lparr>rg_breakers := [''b'' \<mapsto> half]\<rparr>"
  shows "\<exists>d cb' r'. Engine_Decide (GetPolicy Map.empty) (perf_Get perf_NewMemory) [mk ''a'' 1, mk ''b'' 0] None 0 hint (Some r) = (Inr d, cb') \<and>
    cb' = Some r' \<and> fst (Breaker_Allow_run [1, 60 * Minute] (Registry_view 0 r' ''b'')) = [False, False]"
proof -
  let ?ms = "[mk ''a'' 1, mk ''b'' 0]"
  have dist: "distinct (map card_ID ?ms)" by (simp add: mk_def)
  have cap: "in_cap hint m" for m by (simp add: in_cap_def over_cap_def hint_def)
  have va: "Registry_view 0 r ''a'' = Breaker_New 0 DefaultPolicy" and vb: "Registry_view 0 r ''b'' = half"
    by (simp_all add: Registry_view_def Registry_get_def Registry_seed_def r_def NewRegistry_def Let_def)
  have "filter (passes 0 hint (Some r)) ?ms = ?ms"
    by (simp add: passes_def cap mk_def va vb half_def breaker_defs DefaultPolicy_def)
  then have fl: "fst (Filter 0 ?ms hint (Some r)) = ?ms" by (simp add: Filter_eq [OF dist])
  have cands: "Engine_candidates (perf_Get perf_NewMemory) p hint ?ms =
      map (cand_of (perf_Get perf_NewMemory) p hint) ?ms" for p
    by (simp add: Engine_candidates_eq cand_of_def Score_def perf_Get_def perf_NewMemory_def zero_stats_def mk_def
        capabilityMatch_def hint_def clamp01_def wCapability_def blendedCost_def Let_def)
  obtain cb' where fl': "Filter 0 ?ms hint (Some r) = (?ms, cb')" using fl by (metis prod.collapse)
  obtain d where dec: "Engine_Decide (GetPolicy Map.empty) (perf_Get perf_NewMemory) ?ms None 0 hint (Some r) = (Inr d, cb')"
    and "rd_Model d = cand_Model (map (cand_of (perf_Get perf_NewMemory) (weights_policy (intentFromHint hint) (3 / 10, 3 / 10, 4 / 10)) hint) ?ms ! 0)"
    by (simp add: Engine_Decide_def GetPolicy_def Let_def cands Engine_primary_def fl')
  then have d: "rd_Model d = ''a''" by (simp add: cand_of_def mk_def)
  from Engine_Decide_spends_probe [OF dec dist _ cap, of "mk ''b'' 0" "[1, 60 * Minute]"]
  show ?thesis using dec d by (auto simp: mk_def vb half_def Breaker_New_def DefaultPolicy_def)
qed

section \<open>Learning from calls\<close>

lemma perf_key_inject:
  assumes "CHR '':'' \<notin> set i" "CHR '':'' \<notin> set j"
  shows "perf_key m i = perf_key n j \<longleftrightarrow> m = n \<and> i = j"
proof -
  have "perf_key m i = perf_key n j \<longleftrightarrow> rev i @ CHR '':'' # rev m = rev j @ CHR '':'' # rev n"
    by (metis (no_types, opaque_lifting) append_Cons append_Nil append_assoc perf_key_def rev.simps(2) rev_append rev_is_rev_conv)
  also have "\<dots> \<longleftrightarrow> rev i = rev j \<and> rev m = rev n" using assms by (intro append_sep_cancel) simp_all
  finally show ?thesis by auto
qed

lemma intentFromHint_plain: "CHR '':'' \<notin> set (intentFromHint hint)" "intentFromHint hint \<noteq> []"
  by (simp_all add: intentFromHint_def)

lemma perf_Get_Upsert_other:
  assumes "CHR '':'' \<notin> set (ms_Intent s)" "ms_Intent s \<noteq> intentFromHint hint"
  shows "perf_Get (perf_Upsert now s perf) model (intentFromHint hint) = perf_Get perf model (intentFromHint hint)"
  using perf_key_inject [OF assms(1) intentFromHint_plain(1), of "ms_Model s" model hint] assms(2)
  by (auto simp: perf_Get_def perf_Upsert_def Let_def)

lemma Engine_Decide_cong:
  assumes "\<And>m. stats m (intentFromHint hint) = stats' m (intentFromHint hint)"
  shows "Engine_Decide getPolicy stats models band now hint cb = Engine_Decide getPolicy stats' models band now hint cb"
proof -
  have "Engine_candidates stats policy hint ms = Engine_candidates stats' policy hint ms" for policy ms
    using assms by (simp add: Engine_candidates_def)
  then show ?thesis by (simp add: Engine_Decide_def split: sum.splits prod.splits)
qed

text \<open>
  The engine does not see what is recorded for it: statistics of shadow calls are filed
  under the empty intent and those of the telemetry plugin under the use case of the caller,
  while decisions read them by task intent. Recording a shadow call never changes a decision,
  and neither does a call event whose use case (without a colon) is not the intent decided for.
\<close>

theorem live_stats_unread:
  assumes "CHR '':'' \<notin> set (ev_UseCaseID ev)" "ev_UseCaseID ev \<noteq> intentFromHint hint"
  shows "Engine_Decide getPolicy (perf_Get (fst (Orchestrator_Record w upd t model ok latency choices (perf, b)))) models band now hint cb =
       Engine_Decide getPolicy (perf_Get perf) models band now hint cb \<and>
     Engine_Decide getPolicy (perf_Get (fst (telemetry_OnEvent t ev (perf, sink)))) models band now hint cb =
       Engine_Decide getPolicy (perf_Get perf) models band now hint cb"
proof (intro conjI Engine_Decide_cong)
  fix m
  show "perf_Get (fst (Orchestrator_Record w upd t model ok latency choices (perf, b))) m (intentFromHint hint) =
      perf_Get perf m (intentFromHint hint)"
    using intentFromHint_plain(2) [of hint]
    by (simp add: Orchestrator_Record_def perf_Get_Upsert_other shadow_stats_def zero_stats_def)
  show "perf_Get (fst (telemetry_OnEvent t ev (perf, sink))) m (intentFromHint hint) = perf_Get perf m (intentFromHint hint)"
    using assms by (simp add: telemetry_OnEvent_def perf_Get_Upsert_other telemetry_stats_def zero_stats_def)
qed

theorem live_stats_unread_witness:
  defines "hint \<equiv> \<lparr>hint_PromptChars = 100, hint_ReasoningScore = 1, hint_CodingScore = 0, hint_MathScore = 0,
     hint_MultilingualScore = 0, hint_LatencySensitive = False, hint_MaxCostUSDPer1M = 0, hint_Tenant = []\<rparr>"
  defines "ev \<equiv> zero_event\<lparr>ev_Model := ''gpt-4o'', ev_Error := ''boom''\<rparr>"
  shows "Engine_Decide (GetPolicy Map.empty) (perf_Get (fst (telemetry_OnEvent 5 ev (perf_NewMemory, None)))) catalog None 9 hint None =
    Engine_Decide (GetPolicy Map.empty) (perf_Get perf_NewMemory) catalog None 9 hint None"
  using live_stats_unread [of ev hint "GetPolicy Map.empty" DefaultRewardWeights None 5 "''m''" True 0 "[]" perf_NewMemory "()" catalog None 9 None None]
  by (simp add: ev_def zero_event_def intentFromHint_def hint_def)

lemma quality_bounds: "0 \<le> QualityFromFinishReason cs" "QualityFromFinishReason cs \<le> 1"
  by (simp_all add: QualityFromFinishReason_def split: list.splits)

text \<open>
  The failure threshold separates outcomes: with the default weights the reward of a shadow
  call and of an auto-routed call reach the threshold exactly when the call succeeded, whatever
  its latency and finish reason, so the cooldown counts failures and nothing else. Rewards lie
  between 0 and 1.1.
\<close>

theorem reward_threshold_separates:
  "(failureRewardThreshold \<le> shadow_reward DefaultRewardWeights success latency choices) = success \<and>
   (failureRewardThreshold \<le> banditreward_reward ev) = (ev_Error ev = []) \<and>
   0 \<le> banditreward_reward ev \<and> banditreward_reward ev \<le> 11 / 10"
  using quality_bounds [of choices] quality_bounds [of "resp_Choices (ev_Response ev)"]
  by (auto simp: failureRewardThreshold_def shadow_reward_def banditreward_reward_def DefaultRewardWeights_def floatBool_def)

text \<open>
  A rating reaches the model that answered: after the call event was indexed, a rating of its
  id before it expires is accepted, and credits the model of that call with 1 or 0 exactly when
  the call was routed automatically.
\<close>

theorem feedback_credits_model:
  fixes ord :: "string list"
  assumes "ev_Shadow ev = None" "ev_ID ev \<noteq> []" "rating = ''positive'' \<or> rating = ''negative''"
    and "fs_ttl s \<le> 0 \<or> now' \<le> now + fs_ttl s"
  defines "s' \<equiv> feedback_OnEvent ord now ev s"
  shows "FeedbackHandler_ServeHTTP update now' True (Some (ev_ID ev, rating)) s' b =
    ((204, []), s', if ev_AutoRouted ev then update (ev_Model ev) (if rating = ''positive'' then 1 else 0) b else b)"
proof -
  have "\<exists>e. fs_entries s' (ev_ID ev) = Some \<lparr>fe_info = \<lparr>ci_Model = ev_Model ev, ci_AutoRouted = ev_AutoRouted ev\<rparr>, fe_expiresAt = e\<rparr> \<and>
      \<not> expired e now'"
    using assms(1,2,4) by (auto simp: s'_def feedback_OnEvent_def Feedback_Record_def Let_def)
  then show ?thesis using assms(2,3)
    by (auto simp: FeedbackHandler_ServeHTTP_def Feedback_Lookup_def Let_def)
qed

theorem feedback_credits_model_witness:
  defines "ev \<equiv> zero_event\<lparr>ev_ID := ''c1'', ev_Model := ''gpt-4o'', ev_AutoRouted := True\<rparr>"
  shows "\<exists>s. FeedbackHandler_ServeHTTP (\<lambda>m r us. (m, r) # us) 9 True (Some (''c1'', ''negative'')) s [] = ((204, []), s, [(''gpt-4o'', 0)])"
  using feedback_credits_model [of ev "''negative''" "Feedback_NewStore 10 60" 9 5 "\<lambda>m r us. (m, r) # us" "[]" "[]"]
  by (auto simp: ev_def zero_event_def Feedback_NewStore_def)

text \<open>
  Nothing limits how often one call is rated: three negative ratings of the same call put its
  model into cooldown for at least five seconds, whatever the bandit had learnt.
\<close>

definition rate_negative :: "string \<Rightarrow> FeedbackStore \<Rightarrow> EpsilonGreedy \<Rightarrow> time \<Rightarrow> EpsilonGreedy" where
  "rate_negative callID s b now = snd (snd (FeedbackHandler_ServeHTTP (\<lambda>m r b. EpsilonGreedy_Update [] now m r b) now True
     (Some (callID, ''negative'')) s b))"

lemma cooldown_backoff_ge: "5 * Second \<le> cooldown_backoff n"
proof -
  have "(1::int) \<le> 2 ^ (n - 3)" by simp
  then show ?thesis by (simp add: cooldown_backoff_def cooldown_values Second_def)
qed

theorem repeated_rating_cools:
  fixes us :: "bandit_update list" and epsilon :: float64
  assumes "fs_entries s callID = Some \<lparr>fe_info = \<lparr>ci_Model = m, ci_AutoRouted = True\<rparr>, fe_expiresAt = None\<rparr>" "callID \<noteq> []"
    and "now < t3 + 5 * Second"
  defines "b \<equiv> eg_run (NewEpsilonGreedy epsilon) us"
  shows "cooling (eg_arms (foldl (rate_negative callID s) b [t1, t2, t3])) now m"
proof -
  have one: "rate_negative callID s c t = EpsilonGreedy_Update [] t m 0 c" for c t
    using assms(1,2) by (simp add: rate_negative_def FeedbackHandler_ServeHTTP_def Feedback_Lookup_def Let_def)
  let ?us = "us @ [([], t1, m, 0), ([], t2, m, 0), ([], t3, m, 0)]"
  have run: "foldl (rate_negative callID s) b [t1, t2, t3] = eg_run (NewEpsilonGreedy epsilon) ?us"
    by (simp add: one b_def eg_run_def)
  let ?h = "rewards_of m us"
  have h: "rewards_of m ?us = ((?h @ [(t1, 0)]) @ [(t2, 0)]) @ [(t3, 0)]" by (simp add: rewards_of_def)
  have arm: "eg_arms (eg_run (NewEpsilonGreedy epsilon) ?us) m = Some (arm_spec (((?h @ [(t1, 0)]) @ [(t2, 0)]) @ [(t3, 0)]))"
    using greedy.arms_run [of "NewEpsilonGreedy epsilon" "\<lambda>_. []" ?us m]
    by (simp add: eg_run_def NewEpsilonGreedy_def h)
  have "fail_streak (((?h @ [(t1, 0)]) @ [(t2, 0)]) @ [(t3, 0)]) = 3 + fail_streak ?h"
    unfolding fail_streak_snoc by (simp add: failureRewardThreshold_def)
  then have "arm_cooldownUntil (arm_spec (((?h @ [(t1, 0)]) @ [(t2, 0)]) @ [(t3, 0)])) = Some (t3 + cooldown_backoff (3 + fail_streak ?h))"
    by (simp add: arm_spec_def)
  moreover have "now < t3 + cooldown_backoff (3 + fail_streak ?h)"
    using assms(3) cooldown_backoff_ge [of "3 + fail_streak ?h"] by simp
  ultimately show ?thesis unfolding run cooling_def arm by (simp add: armStats_inCooldown_def)
qed

end
