(* ===== verification/Compressor.thy ===== *)
theory Compressor
  imports Schema "HOL-Library.List_Lexorder" "HOL-Library.Char_ord"
begin

text \<open>
  Reversible request compression: the store of originals and the retrieval tool
  (\<^verbatim>\<open>internal/domain/retrieval\<close>, its Redis backend in \<^verbatim>\<open>adapters/store/retrievalstore\<close>) and the
  interceptor that shortens tool results and history (\<^verbatim>\<open>plugins/compressor\<close>). The sixteen random
  bytes of an identifier are an argument. The text of a JSON value is the business of
  \<^verbatim>\<open>encoding/json\<close>: its two functions are the arguments \<open>unmarshal\<close> and \<open>marshal\<close>.
\<close>

abbreviation nl :: string where
  "nl \<equiv> [CHR 0x0A]"

abbreviation em_dash :: string where
  "em_dash \<equiv> [CHR 0xE2, CHR 0x80, CHR 0x94]"

section \<open>Store of originals\<close>

record memEntry =
  me_content :: string
  me_expiresAt :: "time option"
  me_insertedAt :: time

record memoryBackend =
  mb_entries :: "(string, memEntry) gomap"
  mb_maxSize :: int

definition newMemoryBackend :: "int \<Rightarrow> memoryBackend" where
  "newMemoryBackend maxSize = \<lparr>mb_entries = Map.empty, mb_maxSize = maxSize\<rparr>"

text \<open>The scan for the oldest entry, in the order the map is ranged over.\<close>

definition oldest_step :: "(string, memEntry) gomap \<Rightarrow> string \<times> time \<Rightarrow> string \<Rightarrow> string \<times> time" where
  "oldest_step es best k = (case es k of None \<Rightarrow> best
     | Some e \<Rightarrow> if fst best = [] \<or> me_insertedAt e < snd best then (k, me_insertedAt e) else best)"

definition memoryBackend_evictOldestLocked :: "string list \<Rightarrow> memoryBackend \<Rightarrow> memoryBackend" where
  "memoryBackend_evictOldestLocked ord b =
     (let oldestID = fst (foldl (oldest_step (mb_entries b)) ([], zero_time) ord) in
      if oldestID \<noteq> [] then b\<lparr>mb_entries := gomap_delete oldestID (mb_entries b)\<rparr> else b)"

definition memoryBackend_Put ::
    "((string, memEntry) gomap \<Rightarrow> string list) \<Rightarrow> time \<Rightarrow> string \<Rightarrow> string \<Rightarrow> duration \<Rightarrow> memoryBackend \<Rightarrow> memoryBackend" where
  "memoryBackend_Put ord now key content ttl b =
     (let b = (if mb_maxSize b > 0 \<and> int (gomap_len (mb_entries b)) \<ge> mb_maxSize b
               then memoryBackend_evictOldestLocked (ord (mb_entries b)) b else b)
      in b\<lparr>mb_entries := (mb_entries b)(key \<mapsto> \<lparr>me_content = content,
             me_expiresAt = (if ttl > 0 then Some (now + ttl) else None), me_insertedAt = now\<rparr>)\<rparr>)"

definition memoryBackend_Get :: "time \<Rightarrow> string \<Rightarrow> memoryBackend \<Rightarrow> string option \<times> memoryBackend" where
  "memoryBackend_Get now key b = (case mb_entries b key of
      None \<Rightarrow> (None, b)
    | Some e \<Rightarrow> if expired (me_expiresAt e) now
        then (None, b\<lparr>mb_entries := gomap_delete key (mb_entries b)\<rparr>)
        else (Some (me_content e), b))"

definition memoryBackend_Len :: "memoryBackend \<Rightarrow> int" where
  "memoryBackend_Len b = int (gomap_len (mb_entries b))"

definition randomID :: "string \<Rightarrow> string" where
  "randomID bytes = hex_encode bytes"

text \<open>
  \<^verbatim>\<open>Store.Put\<close> drops the error of the backend, \<^verbatim>\<open>Store.Get\<close> turns one into a miss. A backend is a
  pair of functions on a state of its own.
\<close>

definition Store_ID :: "string \<Rightarrow> string" where
  "Store_ID bytes = ''ret_'' @ randomID bytes"

definition Store_Put ::
    "(string \<Rightarrow> string \<Rightarrow> duration \<Rightarrow> 'b \<Rightarrow> goerror option \<times> 'b) \<Rightarrow> string \<Rightarrow> string \<Rightarrow> duration \<Rightarrow> 'b \<Rightarrow> string \<times> 'b" where
  "Store_Put backend_put bytes content ttl b =
     (let id = Store_ID bytes in (id, snd (backend_put id content ttl b)))"

definition Store_Get :: "(string \<Rightarrow> 'b \<Rightarrow> (goerror + string option) \<times> 'b) \<Rightarrow> string \<Rightarrow> 'b \<Rightarrow> string option \<times> 'b" where
  "Store_Get backend_get key b = (case backend_get key b of
      (Inl err, b) \<Rightarrow> (None, b)
    | (Inr content, b) \<Rightarrow> (content, b))"

definition NewStore_Put ::
    "((string, memEntry) gomap \<Rightarrow> string list) \<Rightarrow> string \<Rightarrow> time \<Rightarrow> string \<Rightarrow> duration \<Rightarrow> memoryBackend \<Rightarrow> string \<times> memoryBackend" where
  "NewStore_Put ord bytes now =
     Store_Put (\<lambda>id content ttl b. (None, memoryBackend_Put ord now id content ttl b)) bytes"

definition NewStore_Get :: "time \<Rightarrow> string \<Rightarrow> memoryBackend \<Rightarrow> string option \<times> memoryBackend" where
  "NewStore_Get now = Store_Get (\<lambda>id b. case memoryBackend_Get now id b of (c, b) \<Rightarrow> (Inr c, b))"

text \<open>The Redis backend: the write it asks the client for, and what it makes of the client's answer.\<close>

datatype redis_reply = RedisNil | RedisErr goerror | RedisVal string

definition retrieval_keyPrefix :: string where
  "retrieval_keyPrefix = ''retrieval:''"

definition RetrievalRedis_Put :: "(string \<Rightarrow> string \<Rightarrow> duration \<Rightarrow> 'r \<Rightarrow> goerror option \<times> 'r) \<Rightarrow>
    string \<Rightarrow> string \<Rightarrow> duration \<Rightarrow> 'r \<Rightarrow> goerror option \<times> 'r" where
  "RetrievalRedis_Put client_set key content ttl r =
     client_set (retrieval_keyPrefix @ key) content (if ttl < 0 then 0 else ttl) r"

definition RetrievalRedis_Get :: "(string \<Rightarrow> 'r \<Rightarrow> redis_reply) \<Rightarrow> string \<Rightarrow> 'r \<Rightarrow> (goerror + string option) \<times> 'r" where
  "RetrievalRedis_Get client_get key r = (case client_get (retrieval_keyPrefix @ key) r of
      RedisNil \<Rightarrow> (Inr None, r)
    | RedisErr e \<Rightarrow> (Inl e, r)
    | RedisVal v \<Rightarrow> (Inr (Some v), r))"

section \<open>Retrieval tool\<close>

definition ToolName :: string where
  "ToolName = ''ixr_retrieve''"

definition RetrievalTool :: Tool where
  "RetrievalTool = \<lparr>tool_Type = ''function'', tool_Function = \<lparr>fn_Name = ToolName,
     fn_Description = ''Retrieve the full, uncompressed content that was shortened for context efficiency. Only call this if the shortened version doesn'' @ [CHR 0x27] @ ''t have enough detail to answer accurately '' @ em_dash @ '' most of the time it does, and calling this costs an extra round trip.'',
     fn_Parameters = [(''type'', JStr ''object''),
       (''properties'', JObj [(''id'', JObj [(''type'', JStr ''string''),
          (''description'', JStr (''The retrieval ID from the truncation marker, e.g. '' @ [CHR 0x22] @ ''ret_42'' @ [CHR 0x22] @ ''.''))])]),
       (''required'', JArr [JStr ''id''])],
     fn_Strict = False\<rparr>\<rparr>"

text \<open>An identifier is made of letters, digits and an underscore: \<^verbatim>\<open>%q\<close> only adds the quotes.\<close>

definition Marker :: "string \<Rightarrow> int \<Rightarrow> string" where
  "Marker key omittedChars = nl @ ''['' @ Itoa omittedChars @ '' more characters omitted '' @ em_dash @
     '' call '' @ ToolName @ '' with id='' @ [CHR 0x22] @ key @ [CHR 0x22] @ '' to retrieve the full content]''"

definition ParseArgs :: "(string \<Rightarrow> json option) \<Rightarrow> string \<Rightarrow> string option" where
  "ParseArgs unmarshal argsJSON = (case unmarshal argsJSON of
      Some (JObj obj) \<Rightarrow> (case json_string ''id'' obj of
          Some key \<Rightarrow> if key = [] then None else Some key
        | None \<Rightarrow> None)
    | _ \<Rightarrow> None)"

definition FindCall :: "ToolCall list \<Rightarrow> ToolCall option" where
  "FindCall calls = find (\<lambda>c. tf_Name (tc_Function c) = ToolName) calls"

section \<open>JSON content\<close>

definition jsonArrayDedupMinEntries :: nat where
  "jsonArrayDedupMinEntries = 3"

definition object_keys :: "json \<Rightarrow> string list option" where
  "object_keys v = (case v of JObj obj \<Rightarrow> Some (remdups (map fst obj)) | _ \<Rightarrow> None)"

definition same_schema :: "string list \<Rightarrow> json \<Rightarrow> bool" where
  "same_schema keys item = (case object_keys item of
      None \<Rightarrow> False
    | Some ks \<Rightarrow> length ks = length keys \<and> list_all (\<lambda>k. k \<in> set ks) keys)"

definition commonObjectSchema :: "json list \<Rightarrow> string list option" where
  "commonObjectSchema arr = (case arr of
      [] \<Rightarrow> None
    | first # rest \<Rightarrow> (case object_keys first of
        None \<Rightarrow> None
      | Some ks \<Rightarrow> let keys = sort ks in if list_all (same_schema keys) rest then Some keys else None))"

text \<open>The fields of one row; a key the object does not have reads as \<^verbatim>\<open>null\<close>.\<close>

definition row_values :: "string list \<Rightarrow> json \<Rightarrow> json list" where
  "row_values keys item = (case item of
      JObj obj \<Rightarrow> map (\<lambda>k. case json_field k obj of None \<Rightarrow> JNull | Some v \<Rightarrow> v) keys
    | _ \<Rightarrow> [])"

definition render_value :: "(json \<Rightarrow> string option) \<Rightarrow> json \<Rightarrow> string" where
  "render_value marshal v = (case marshal v of None \<Rightarrow> ''null'' | Some s \<Rightarrow> s)"

definition renderSchemaForm :: "(json \<Rightarrow> string option) \<Rightarrow> string list \<Rightarrow> json list \<Rightarrow> string" where
  "renderSchemaForm marshal keys arr = ''schema: '' @ Join keys '', '' @
     concat (map (\<lambda>item. nl @ ''['' @ Join (map (render_value marshal) (row_values keys item)) '', '' @ '']'') arr)"

definition compressJSON :: "(string \<Rightarrow> json option) \<Rightarrow> (json \<Rightarrow> string option) \<Rightarrow> string \<Rightarrow> string option" where
  "compressJSON unmarshal marshal content = (case unmarshal content of
      None \<Rightarrow> None
    | Some data \<Rightarrow>
        let result = (case data of
              JArr arr \<Rightarrow> if length arr \<ge> jsonArrayDedupMinEntries
                then (case commonObjectSchema arr of Some keys \<Rightarrow> renderSchemaForm marshal keys arr | None \<Rightarrow> [])
                else []
            | _ \<Rightarrow> []);
            result = (if result = [] then marshal data else Some result)
        in case result of None \<Rightarrow> None
           | Some r \<Rightarrow> if length r \<ge> length content then None else Some r)"

section \<open>Code content\<close>

definition codeSignals :: "string list" where
  "codeSignals = [''func '', ''def '', ''class '', ''import '', ''package '', ''public '', ''private '',
     ''function '', ''const '', ''let '', ''var '', ''#include'', ''using '']"

definition looksLikeCode :: "string \<Rightarrow> bool" where
  "looksLikeCode content \<longleftrightarrow>
     list_ex (Contains content) codeSignals \<or>
     (let braces = count_list content (CHR 0x7B) + count_list content (CHR 0x7D);
          lines = count_list content (CHR 0x0A) + 1
      in braces \<noteq> 0 \<and> braces * 4 \<ge> lines)"

definition isLineComment :: "string \<Rightarrow> bool" where
  "isLineComment trimmed \<longleftrightarrow> HasPrefix trimmed ''//'' \<or> HasPrefix trimmed ''#'' \<or> HasPrefix trimmed ''--''"

text \<open>The loop over the lines: those kept, and whether one was dropped.\<close>

fun strip_loop :: "bool \<Rightarrow> string list \<Rightarrow> string list \<times> bool" where
  "strip_loop inBlock [] = ([], False)"
| "strip_loop inBlock (line # lines) =
     (let trimmed = TrimSpace line in
      if inBlock then (fst (strip_loop (\<not> HasSuffix trimmed ''*/'') lines), True)
      else if isLineComment trimmed then (fst (strip_loop False lines), True)
      else if HasPrefix trimmed ''/*''
      then (fst (strip_loop (\<not> HasSuffix trimmed ''*/'' \<or> length trimmed < 4) lines), True)
      else (case strip_loop False lines of (out, stripped) \<Rightarrow> (line # out, stripped)))"

definition stripComments :: "string \<Rightarrow> string option" where
  "stripComments content =
     (if \<not> looksLikeCode content then None
      else case strip_loop False (split_at (CHR 0x0A) content) of (out, stripped) \<Rightarrow>
        if \<not> stripped then None else Some (Join out nl))"

section \<open>Line-oriented content\<close>

definition trim_line :: "string \<Rightarrow> string" where
  "trim_line line = TrimRightIf (\<lambda>c. c \<in> {CHR '' '', CHR 0x09, CHR 0x0D}) line"

fun blank_loop :: "bool \<Rightarrow> string list \<Rightarrow> string list" where
  "blank_loop blankRun [] = []"
| "blank_loop blankRun (line # lines) =
     (let trimmed = trim_line line in
      if trimmed = [] then (if blankRun then blank_loop True lines else trimmed # blank_loop True lines)
      else trimmed # blank_loop False lines)"

definition collapseBlankLines :: "string \<Rightarrow> string" where
  "collapseBlankLines content = Join (blank_loop False (split_at (CHR 0x0A) content)) nl"

definition run_text :: "string \<Rightarrow> nat \<Rightarrow> string list" where
  "run_text line runLen =
     (if line \<noteq> [] \<and> runLen \<ge> 3 then [line, ''... (repeated '' @ Itoa (int runLen) @ '' times)'']
      else replicate runLen line)"

function repeat_loop :: "string list \<Rightarrow> string list" where
  "repeat_loop [] = []"
| "repeat_loop (line # lines) =
     (let j = length (takeWhile (\<lambda>l. l = line) lines) in
      run_text line (Suc j) @ repeat_loop (drop j lines))"
  by pat_completeness auto
termination
  by (relation "measure length") auto

definition collapseRepeatedLines :: "string \<Rightarrow> string" where
  "collapseRepeatedLines content = Join (repeat_loop (split_at (CHR 0x0A) content)) nl"

definition compress :: "(string \<Rightarrow> json option) \<Rightarrow> (json \<Rightarrow> string option) \<Rightarrow> string \<Rightarrow> int \<Rightarrow> string \<times> int" where
  "compress unmarshal marshal content maxChars =
     (let collapsed = (case compressJSON unmarshal marshal content of
            Some c \<Rightarrow> c
          | None \<Rightarrow> collapseRepeatedLines (collapseBlankLines
              (case stripComments content of Some stripped \<Rightarrow> stripped | None \<Rightarrow> content)))
      in if int (length collapsed) \<le> maxChars then (collapsed, 0)
         else let omitted = int (length collapsed) - maxChars in
           (take (nat maxChars) collapsed @ nl @ ''... [truncated '' @ Itoa omitted @ '' chars]'', omitted))"

section \<open>Interceptor\<close>

definition defaultMaxChars :: int where
  "defaultMaxChars = 4000"

record compressor_plugin =
  cp_maxChars :: int
  cp_ttl :: duration

definition Compressor_New :: "int \<Rightarrow> duration \<Rightarrow> compressor_plugin" where
  "Compressor_New maxChars ttl = \<lparr>cp_maxChars = (if maxChars \<le> 0 then defaultMaxChars else maxChars), cp_ttl = ttl\<rparr>"

definition eligible_message :: "Message \<Rightarrow> bool" where
  "eligible_message m \<longleftrightarrow>
     (if msg_Parts m \<noteq> [] \<or> msg_Role m = ''system'' then False else msg_Content m \<noteq> [])"

fun last_user_from :: "nat \<Rightarrow> Message list \<Rightarrow> int" where
  "last_user_from 0 messages = -1"
| "last_user_from (Suc i) messages = (if msg_Role (messages ! i) = ''user'' then int i else last_user_from i messages)"

definition lastUserMessageIndex :: "Message list \<Rightarrow> int" where
  "lastUserMessageIndex messages = last_user_from (length messages) messages"

text \<open>
  The loop over the messages. \<open>st\<close> is the store when compression is reversible for this request,
  \<open>bytes i\<close> the random bytes drawn for message \<open>i\<close>.
\<close>

fun compress_loop ::
    "(string \<Rightarrow> json option) \<Rightarrow> (json \<Rightarrow> string option) \<Rightarrow> (string \<Rightarrow> time \<Rightarrow> string \<Rightarrow> duration \<Rightarrow> 's \<Rightarrow> string \<times> 's) \<Rightarrow>
     compressor_plugin \<Rightarrow> time \<Rightarrow> (nat \<Rightarrow> string) \<Rightarrow> int \<Rightarrow> nat \<Rightarrow> Message list \<Rightarrow> Tool list \<Rightarrow> bool \<Rightarrow> 's option \<Rightarrow>
     Message list \<times> Tool list \<times> 's option" where
  "compress_loop unmarshal marshal put p now bytes live i [] tools injected st = ([], tools, st)"
| "compress_loop unmarshal marshal put p now bytes live i (m # ms) tools injected st =
     (if int i = live \<or> \<not> eligible_message m
      then (case compress_loop unmarshal marshal put p now bytes live (Suc i) ms tools injected st of
              (out, tools, st) \<Rightarrow> (m # out, tools, st))
      else (case compress unmarshal marshal (msg_Content m) (cp_maxChars p) of (result, omitted) \<Rightarrow>
        (case (if omitted > 0 then st else None) of
           Some s \<Rightarrow>
             (case put (bytes i) now (msg_Content m) (cp_ttl p) s of (key, s) \<Rightarrow>
               (case compress_loop unmarshal marshal put p now bytes live (Suc i) ms
                       (if injected then tools else tools @ [RetrievalTool]) True (Some s) of
                  (out, tools, st) \<Rightarrow> (m\<lparr>msg_Content := result @ Marker key omitted\<rparr> # out, tools, st)))
         | None \<Rightarrow>
             (case compress_loop unmarshal marshal put p now bytes live (Suc i) ms tools injected st of
                (out, tools, st) \<Rightarrow> (m\<lparr>msg_Content := result\<rparr> # out, tools, st)))))"

definition Compressor_Intercept ::
    "(string \<Rightarrow> json option) \<Rightarrow> (json \<Rightarrow> string option) \<Rightarrow> (string \<Rightarrow> time \<Rightarrow> string \<Rightarrow> duration \<Rightarrow> 's \<Rightarrow> string \<times> 's) \<Rightarrow>
     compressor_plugin \<Rightarrow> time \<Rightarrow> (nat \<Rightarrow> string) \<Rightarrow> RequestEnvelope \<Rightarrow> 's option \<Rightarrow> RequestEnvelope \<times> 's option" where
  "Compressor_Intercept unmarshal marshal put p now bytes req store =
     (let reversible = (if req_Stream req then None else store) in
      case compress_loop unmarshal marshal put p now bytes (lastUserMessageIndex (req_Messages req)) 0
             (req_Messages req) (req_Tools req) False reversible of
        (msgs, tools, st) \<Rightarrow>
          (req\<lparr>req_Messages := msgs, req_Tools := tools\<rparr>, if req_Stream req then store else st))"

section \<open>Line passes\<close>

text \<open>Stripping comments only removes whole lines, and without block comments exactly the comment lines.\<close>

lemma strip_loop_subseq: "subseq (fst (strip_loop b ls)) ls"
proof (induction ls arbitrary: b)
  case (Cons l ls)
  have "subseq (fst (strip_loop c ls)) (l # ls)" for c
    by (rule list_emb_Cons) (rule Cons)
  moreover have "subseq (l # fst (strip_loop False ls)) (l # ls)"
    using Cons by simp
  ultimately show ?case by (simp add: Let_def case_prod_beta)
qed simp

lemma strip_loop_line_comments:
  "list_all (\<lambda>l. \<not> HasPrefix (TrimSpace l) ''/*'') ls \<Longrightarrow>
   fst (strip_loop False ls) = filter (\<lambda>l. \<not> isLineComment (TrimSpace l)) ls"
  by (induction ls) (auto simp: Let_def split: prod.splits)

lemma strip_loop_open_block:
  "list_all (\<lambda>l. \<not> HasSuffix (TrimSpace l) ''*/'') ls \<Longrightarrow> fst (strip_loop True ls) = []"
  by (induction ls) (auto simp: Let_def)

text \<open>Blank lines: what is left has no two blank lines in a row and the same non-blank lines.\<close>

fun blank_pair :: "string list \<Rightarrow> bool" where
  "blank_pair (a # b # ls) \<longleftrightarrow> (a = [] \<and> b = []) \<or> blank_pair (b # ls)"
| "blank_pair _ \<longleftrightarrow> False"

lemma blank_loop_lines: "filter (\<lambda>l. l \<noteq> []) (blank_loop b ls) = filter (\<lambda>l. l \<noteq> []) (map trim_line ls)"
  by (induction ls arbitrary: b) (auto simp: Let_def)

lemma blank_loop_head: "blank_loop True ls = [] # rest \<Longrightarrow> False"
  by (induction ls) (auto simp: Let_def split: if_splits)

lemma blank_loop_no_pair: "\<not> blank_pair (blank_loop b ls)"
proof (induction ls arbitrary: b)
  case (Cons l ls)
  have T: "\<not> blank_pair ([] # blank_loop True ls)"
    using Cons [of True] blank_loop_head [of ls] by (cases "blank_loop True ls") auto
  have F: "\<not> blank_pair (t # blank_loop False ls)" if "t \<noteq> []" for t
    using Cons [of False] that by (cases "blank_loop False ls") auto
  show ?case using Cons T F by (auto simp: Let_def)
qed simp

text \<open>Repeated lines: the run-length encoding of the lines, each run written by \<^const>\<open>run_text\<close>.\<close>

function runs :: "string list \<Rightarrow> (string \<times> nat) list" where
  "runs [] = []"
| "runs (l # ls) =
     (let j = length (takeWhile (\<lambda>x. x = l) ls) in (l, Suc j) # runs (drop j ls))"
  by pat_completeness auto
termination
  by (relation "measure length") auto

lemma takeWhile_eq_replicate: "takeWhile (\<lambda>x. x = l) ls = replicate (length (takeWhile (\<lambda>x. x = l) ls)) l"
  by (induction ls) auto

lemma runs_expand: "concat (map (\<lambda>(l, n). replicate n l) (runs ls)) = ls"
proof (induction ls rule: runs.induct)
  case (2 l ls)
  let ?j = "length (takeWhile (\<lambda>x. x = l) ls)"
  have "replicate ?j l @ drop ?j ls = ls"
    by (metis dropWhile_eq_drop takeWhile_dropWhile_id takeWhile_eq_replicate)
  with 2 show ?case by (simp add: Let_def)
qed simp

lemma repeat_loop_runs: "repeat_loop ls = concat (map (\<lambda>(l, n). run_text l n) (runs ls))"
  by (induction ls rule: runs.induct) (auto simp: Let_def)

lemma runs_distinct: "distinct_adj (map fst (runs ls))"
proof (induction ls rule: runs.induct)
  case (2 l ls)
  let ?j = "length (takeWhile (\<lambda>x. x = l) ls)"
  have "drop ?j ls = dropWhile (\<lambda>x. x = l) ls" by (simp add: dropWhile_eq_drop)
  then have "drop ?j ls = [] \<or> hd (drop ?j ls) \<noteq> l"
    by (metis (mono_tags, lifting) hd_dropWhile)
  with 2 show ?case by (cases "drop ?j ls") (auto simp: Let_def distinct_adj_Cons)
qed simp

lemmas collapse_defs = collapseBlankLines_def collapseRepeatedLines_def

lemma collapse_empty [simp]: "collapseRepeatedLines (collapseBlankLines []) = []"
  by (simp add: collapse_defs trim_line_def TrimRightIf_def run_text_def)

text \<open>
  On lines without the marks of a longer run nothing is lost but trailing blanks and blank lines
  in excess: the text after both passes is the run-length form of the trimmed lines.
\<close>

theorem collapse_lines:
  fixes content :: string
  defines "trimmed \<equiv> blank_loop False (split_at (CHR 0x0A) content)"
  shows "split_at (CHR 0x0A) (collapseBlankLines content) = trimmed \<and> \<not> blank_pair trimmed \<and>
    filter (\<lambda>l. l \<noteq> []) trimmed = filter (\<lambda>l. l \<noteq> []) (map trim_line (split_at (CHR 0x0A) content)) \<and>
    collapseRepeatedLines (collapseBlankLines content) = Join (concat (map (\<lambda>(l, n). run_text l n) (runs trimmed))) nl \<and>
    concat (map (\<lambda>(l, n). replicate n l) (runs trimmed)) = trimmed \<and> distinct_adj (map fst (runs trimmed))"
proof -
  have ne: "blank_loop False ls \<noteq> []" if "ls \<noteq> []" for ls
    using that by (cases ls) (auto simp: Let_def)
  have sep: "CHR 0x0A \<notin> set (trim_line l)" if "CHR 0x0A \<notin> set l" for l
    using that by (auto simp: trim_line_def TrimRightIf_def dest: set_dropWhileD)
  have nosep: "p \<in> set (blank_loop b ls) \<Longrightarrow> (\<And>l. l \<in> set ls \<Longrightarrow> CHR 0x0A \<notin> set l) \<Longrightarrow> CHR 0x0A \<notin> set p" for p b ls
    by (induction ls arbitrary: b) (auto simp: Let_def sep split: if_splits)
  have "split_at (CHR 0x0A) (collapseBlankLines content) = trimmed"
    unfolding collapseBlankLines_def trimmed_def
    by (rule split_at_Join [OF ne nosep]) (simp, assumption, erule split_at_no_sep)
  then show ?thesis
    unfolding collapseRepeatedLines_def trimmed_def
    by (simp add: blank_loop_no_pair blank_loop_lines repeat_loop_runs runs_expand runs_distinct)
qed

section \<open>JSON pass\<close>

lemma same_schema_iff:
  assumes "distinct keys"
  shows "same_schema keys v \<longleftrightarrow> (\<exists>obj. v = JObj obj \<and> fst ` set obj = set keys)"
proof (cases "\<exists>obj. v = JObj obj")
  case True
  then obtain obj where v: "v = JObj obj" by blast
  let ?ks = "remdups (map fst obj)"
  have "length ?ks = length keys \<and> set keys \<subseteq> set ?ks \<longleftrightarrow> set ?ks = set keys"
    using assms distinct_card [OF assms] distinct_card [OF distinct_remdups, of "map fst obj"]
    by (metis List.finite_set card_subset_eq order_refl)
  then show ?thesis by (auto simp: v same_schema_def object_keys_def list_all_iff)
next
  case False
  then show ?thesis by (cases v) (auto simp: same_schema_def object_keys_def)
qed

lemma commonObjectSchema_iff:
  "arr \<noteq> [] \<Longrightarrow> commonObjectSchema arr = Some keys \<longleftrightarrow> sorted keys \<and> distinct keys \<and>
     list_all (\<lambda>v. \<exists>obj. v = JObj obj \<and> fst ` set obj = set keys) arr"
proof (cases arr)
  case (Cons v vs)
  show ?thesis
  proof (cases "\<exists>obj. v = JObj obj")
    case True
    then obtain obj where v: "v = JObj obj" by blast
    let ?ks = "sort (remdups (map fst obj))"
    have d: "distinct ?ks" by simp
    have set: "set ?ks = fst ` set obj" by simp
    have code: "commonObjectSchema arr = Some keys \<longleftrightarrow> keys = ?ks \<and> list_all (same_schema keys) vs"
      by (auto simp: Cons v commonObjectSchema_def object_keys_def Let_def split: if_splits)
    have head: "(\<exists>obj'. v = JObj obj' \<and> fst ` set obj' = set keys) \<longleftrightarrow> set keys = set ?ks"
      by (auto simp: v)
    have "keys = ?ks \<longleftrightarrow> sorted keys \<and> distinct keys \<and> set keys = set ?ks"
    proof
      assume "sorted keys \<and> distinct keys \<and> set keys = set ?ks"
      then show "keys = ?ks" by (intro sorted_distinct_set_unique) simp_all
    qed simp
    moreover have "list_all (same_schema keys) vs \<longleftrightarrow> list_all (\<lambda>v. \<exists>obj. v = JObj obj \<and> fst ` set obj = set keys) vs"
      if "keys = ?ks"
      unfolding same_schema_iff [OF d, folded that, abs_def] ..
    ultimately show ?thesis
      using code unfolding Cons list.pred_inject(2) head by blast
  next
    case False
    then show ?thesis by (cases v) (auto simp: Cons commonObjectSchema_def object_keys_def)
  qed
qed simp

text \<open>
  The schema form keeps the objects: it is only used when all of them have the same keys, and
  the row of an object, read along the keys, is the object.
\<close>

theorem schema_form_lossless:
  assumes "commonObjectSchema arr = Some keys"
  shows "list_all (\<lambda>v. \<exists>obj. v = JObj obj \<and> (\<lambda>k. json_field k obj) = map_of (zip keys (row_values keys v))) arr"
proof -
  have "arr \<noteq> []" using assms by (auto simp: commonObjectSchema_def)
  with assms have all: "list_all (\<lambda>v. \<exists>obj. v = JObj obj \<and> fst ` set obj = set keys) arr"
    by (simp add: commonObjectSchema_iff)
  have "\<exists>obj. v = JObj obj \<and> (\<lambda>k. json_field k obj) = map_of (zip keys (row_values keys v))"
    if "v \<in> set arr" for v
  proof -
    from all that obtain obj where v: "v = JObj obj" "fst ` set obj = set keys" by (auto simp: list_all_iff)
    have "json_field k obj = map_of (zip keys (row_values keys v)) k" for k
    proof (cases "k \<in> set keys")
      case True
      then have "json_field k obj \<noteq> None"
        using v(2) by (auto simp: json_field_def map_of_eq_None_iff)
      with True v(1) show ?thesis by (auto simp: row_values_def map_of_zip_map)
    next
      case False
      then have "json_field k obj = None"
        using v(2) by (auto simp: json_field_def map_of_eq_None_iff)
      with False v(1) show ?thesis by (simp add: row_values_def map_of_zip_map)
    qed
    with v(1) show ?thesis by blast
  qed
  then show ?thesis by (simp add: list_all_iff)
qed

section \<open>What a request becomes\<close>

definition truncates :: "(string \<Rightarrow> json option) \<Rightarrow> (json \<Rightarrow> string option) \<Rightarrow> compressor_plugin \<Rightarrow> int \<Rightarrow> nat \<Rightarrow> Message \<Rightarrow> bool" where
  "truncates unmarshal marshal p live i m \<longleftrightarrow> int i \<noteq> live \<and> eligible_message m \<and>
     snd (compress unmarshal marshal (msg_Content m) (cp_maxChars p)) > 0"

definition shortened :: "(string \<Rightarrow> json option) \<Rightarrow> (json \<Rightarrow> string option) \<Rightarrow> compressor_plugin \<Rightarrow> (nat \<Rightarrow> string) \<Rightarrow>
    int \<Rightarrow> bool \<Rightarrow> nat \<Rightarrow> Message \<Rightarrow> Message" where
  "shortened unmarshal marshal p bytes live reversible i m =
     (if int i = live \<or> \<not> eligible_message m then m
      else case compress unmarshal marshal (msg_Content m) (cp_maxChars p) of (result, omitted) \<Rightarrow>
        m\<lparr>msg_Content := (if omitted > 0 \<and> reversible then result @ Marker (Store_ID (bytes i)) omitted else result)\<rparr>)"

lemma compress_size:
  assumes "compress unmarshal marshal content maxChars = (result, omitted)" "0 \<le> maxChars"
  shows "0 \<le> omitted" "omitted = 0 \<Longrightarrow> int (length result) \<le> maxChars"
    and "omitted > 0 \<Longrightarrow> int (length result) = maxChars + 23 + int (length (Itoa omitted))"
  using assms by (auto simp: compress_def Let_def split: if_splits)

text \<open>
  The contract of a store of originals: an original is found under its identifier until it
  expires, and storing another one loses none while there is room.
\<close>

locale original_store =
  fixes put :: "string \<Rightarrow> time \<Rightarrow> string \<Rightarrow> duration \<Rightarrow> 's \<Rightarrow> string \<times> 's"
    and get :: "time \<Rightarrow> string \<Rightarrow> 's \<Rightarrow> string option \<times> 's"
    and room :: "nat \<Rightarrow> 's \<Rightarrow> bool"
  assumes put_id: "fst (put bytes now c ttl s) = Store_ID bytes"
    and put_room: "room (Suc n) s \<Longrightarrow> room n (snd (put bytes now c ttl s))"
    and room_less: "room n s \<Longrightarrow> m \<le> n \<Longrightarrow> room m s"
    and get_put: "(ttl > 0 \<Longrightarrow> now' \<le> now + ttl) \<Longrightarrow>
      fst (get now' (Store_ID bytes) (snd (put bytes now c ttl s))) = Some c"
    and get_put_other: "room (Suc n) s \<Longrightarrow> Store_ID bytes \<noteq> key \<Longrightarrow>
      fst (get now' key (snd (put bytes now c ttl s))) = fst (get now' key s)"
begin

lemma loop_messages:
  "fst (compress_loop unmarshal marshal put p now bytes live i ms tools given st) =
     map2 (shortened unmarshal marshal p bytes live (st \<noteq> None)) [i..<i + length ms] ms"
proof (induction ms arbitrary: i tools given st)
  case (Cons m ms)
  have upt: "[i..<i + length (m # ms)] = i # [Suc i..<Suc i + length ms]"
    using upt_conv_Cons [of i "i + length (m # ms)"] by simp
  show ?case
  proof (cases "int i = live \<or> \<not> eligible_message m")
    case True
    then show ?thesis unfolding upt by (simp add: case_prod_beta Cons.IH shortened_def)
  next
    case False
    obtain r om where c: "compress unmarshal marshal (msg_Content m) (cp_maxChars p) = (r, om)" by fastforce
    show ?thesis
    proof (cases "om > 0 \<and> st \<noteq> None")
      case True
      then obtain s where st: "st = Some s" "om > 0" by blast
      show ?thesis unfolding upt
        using False by (simp add: c st put_id case_prod_beta Cons.IH shortened_def)
    next
      case stay: False
      then have "(if om > 0 then st else None) = None" by (cases st) auto
      with stay show ?thesis unfolding upt
        using False by (auto simp: c case_prod_beta Cons.IH shortened_def)
    qed
  qed
qed simp

lemma loop_cons_store:
  "snd (snd (compress_loop unmarshal marshal put p now bytes live i (m # ms) tools given (Some s))) =
     (if truncates unmarshal marshal p live i m
      then snd (snd (compress_loop unmarshal marshal put p now bytes live (Suc i) ms
             (if given then tools else tools @ [RetrievalTool]) True
             (Some (snd (put (bytes i) now (msg_Content m) (cp_ttl p) s)))))
      else snd (snd (compress_loop unmarshal marshal put p now bytes live (Suc i) ms tools given (Some s))))"
  by (auto simp: truncates_def case_prod_beta)

lemma loop_store_keeps:
  assumes "room (length ms) s" "key \<notin> (Store_ID \<circ> bytes) ` {i..<i + length ms}"
  shows "\<exists>s'. snd (snd (compress_loop unmarshal marshal put p now bytes live i ms tools given (Some s))) = Some s' \<and>
    fst (get now' key s') = fst (get now' key s)"
  using assms
proof (induction ms arbitrary: i tools given s)
  case (Cons m ms)
  have key: "key \<notin> (Store_ID \<circ> bytes) ` {Suc i..<Suc i + length ms}" "Store_ID (bytes i) \<noteq> key"
    using Cons.prems(2) by auto
  have room: "room (Suc (length ms)) s" using Cons.prems(1) by simp
  have "room (length ms) s" by (rule room_less [OF room]) simp
  note skip = Cons.IH [OF this key(1), of tools given]
  note stored = Cons.IH [OF put_room [OF room, of "bytes i" now "msg_Content m" "cp_ttl p"] key(1),
      of "if given then tools else tools @ [RetrievalTool]" True,
    unfolded get_put_other [OF room key(2)]]
  show ?case unfolding loop_cons_store using skip stored by (cases "truncates unmarshal marshal p live i m") simp_all
qed simp

lemma loop_store_holds:
  assumes "room (length ms) s" "inj_on (Store_ID \<circ> bytes) {i..<i + length ms}" "j < length ms"
    and "truncates unmarshal marshal p live (i + j) (ms ! j)" "cp_ttl p > 0 \<Longrightarrow> now' \<le> now + cp_ttl p"
  shows "\<exists>s'. snd (snd (compress_loop unmarshal marshal put p now bytes live i ms tools given (Some s))) = Some s' \<and>
    fst (get now' (Store_ID (bytes (i + j))) s') = Some (msg_Content (ms ! j))"
  using assms
proof (induction ms arbitrary: i j tools given s)
  case (Cons m ms)
  have room: "room (Suc (length ms)) s" using Cons.prems(1) by simp
  have inj: "inj_on (Store_ID \<circ> bytes) {Suc i..<Suc i + length ms}"
    using Cons.prems(2) by (rule inj_on_subset) auto
  show ?case
  proof (cases j)
    case 0
    then have t: "truncates unmarshal marshal p live i m" using Cons.prems(4) by simp
    have "Store_ID (bytes i) \<notin> (Store_ID \<circ> bytes) ` {Suc i..<Suc i + length ms}"
    proof
      assume "Store_ID (bytes i) \<in> (Store_ID \<circ> bytes) ` {Suc i..<Suc i + length ms}"
      then obtain k where "k \<in> {Suc i..<Suc i + length ms}" "(Store_ID \<circ> bytes) i = (Store_ID \<circ> bytes) k" by auto
      with inj_onD [OF Cons.prems(2), of i k] show False by auto
    qed
    moreover have "fst (get now' (Store_ID (bytes i)) (snd (put (bytes i) now (msg_Content m) (cp_ttl p) s))) =
        Some (msg_Content m)"
      by (rule get_put) (rule Cons.prems(5))
    ultimately show ?thesis
      unfolding loop_cons_store using t 0
        loop_store_keeps [OF put_room [OF room, of "bytes i" now "msg_Content m" "cp_ttl p"],
          of "Store_ID (bytes i)" bytes "Suc i" unmarshal marshal p now live "if given then tools else tools @ [RetrievalTool]" True now']
      by simp
  next
    case (Suc k)
    then have k: "k < length ms" "truncates unmarshal marshal p live (Suc i + k) (ms ! k)"
      using Cons.prems(3,4) by simp_all
    have "room (length ms) s" by (rule room_less [OF room]) simp
    note skip = Cons.IH [OF this inj k Cons.prems(5), of tools given]
    note stored = Cons.IH [OF put_room [OF room, of "bytes i" now "msg_Content m" "cp_ttl p"] inj k Cons.prems(5),
      of "if given then tools else tools @ [RetrievalTool]" True]
    show ?thesis
      unfolding loop_cons_store using skip stored by (cases "truncates unmarshal marshal p live i m") (simp_all add: Suc)
  qed
qed simp

end

lemma loop_tools:
  "fst (snd (compress_loop unmarshal marshal put p now bytes live i ms tools given st)) =
     (if \<not> given \<and> st \<noteq> None \<and> (\<exists>j < length ms. truncates unmarshal marshal p live (i + j) (ms ! j))
      then tools @ [RetrievalTool] else tools)"
proof (induction ms arbitrary: i tools given st)
  case (Cons m ms)
  have ex: "(\<exists>j < length (m # ms). truncates unmarshal marshal p live (i + j) ((m # ms) ! j)) \<longleftrightarrow>
      truncates unmarshal marshal p live i m \<or> (\<exists>j < length ms. truncates unmarshal marshal p live (Suc i + j) (ms ! j))"
    by (auto simp: less_Suc_eq_0_disj)
  show ?case
    unfolding ex by (cases st) (auto simp: truncates_def case_prod_beta Cons.IH)
qed simp

section \<open>The in-memory store\<close>

definition store_room :: "nat \<Rightarrow> memoryBackend \<Rightarrow> bool" where
  "store_room n b \<longleftrightarrow> finite (dom (mb_entries b)) \<and>
     (mb_maxSize b > 0 \<longrightarrow> int (gomap_len (mb_entries b)) + int n \<le> mb_maxSize b)"

lemma Store_ID_inj: "Store_ID b = Store_ID c \<Longrightarrow> b = c"
  by (simp add: Store_ID_def randomID_def hex_encode_inj)

lemmas store_defs = NewStore_Put_def NewStore_Get_def Store_Put_def Store_Get_def
  memoryBackend_Put_def memoryBackend_Get_def

lemma store_room_put: "store_room (Suc n) b \<Longrightarrow> store_room n (memoryBackend_Put ord now key c ttl b)"
  by (auto simp: store_room_def memoryBackend_Put_def Let_def gomap_len_upd)

interpretation originals: original_store "NewStore_Put ord" NewStore_Get store_room for ord
proof unfold_locales
  fix bytes c and now ttl :: int and s :: memoryBackend
  show "fst (NewStore_Put ord bytes now c ttl s) = Store_ID bytes"
    by (simp add: NewStore_Put_def Store_Put_def Let_def)
next
  fix n bytes c and now ttl :: int and s :: memoryBackend
  assume "store_room (Suc n) s"
  then show "store_room n (snd (NewStore_Put ord bytes now c ttl s))"
    by (simp add: NewStore_Put_def Store_Put_def Let_def store_room_put)
next
  fix n m :: nat and s :: memoryBackend
  assume "store_room n s" "m \<le> n"
  then show "store_room m s" by (auto simp: store_room_def)
next
  fix bytes c and ttl now' now :: int and s :: memoryBackend
  assume "0 < ttl \<Longrightarrow> now' \<le> now + ttl"
  then show "fst (NewStore_Get now' (Store_ID bytes) (snd (NewStore_Put ord bytes now c ttl s))) = Some c"
    by (auto simp: store_defs Let_def)
next
  fix n bytes key c and now' now ttl :: int and s :: memoryBackend
  assume "store_room (Suc n) s" "Store_ID bytes \<noteq> key"
  then have "mb_entries (snd (NewStore_Put ord bytes now c ttl s)) key = mb_entries s key"
    by (auto simp: store_room_def NewStore_Put_def Store_Put_def memoryBackend_Put_def Let_def)
  then show "fst (NewStore_Get now' key (snd (NewStore_Put ord bytes now c ttl s))) = fst (NewStore_Get now' key s)"
    by (auto simp: NewStore_Get_def Store_Get_def memoryBackend_Get_def split: option.splits)
qed

text \<open>A store with a capacity never holds more originals than that.\<close>

definition store_inv :: "memoryBackend \<Rightarrow> bool" where
  "store_inv b \<longleftrightarrow> finite (dom (mb_entries b)) \<and> [] \<notin> dom (mb_entries b) \<and>
     (mb_maxSize b > 0 \<longrightarrow> int (gomap_len (mb_entries b)) \<le> mb_maxSize b)"

lemma oldest_fold_mem:
  "set ord \<subseteq> dom es \<Longrightarrow> [] \<notin> dom es \<Longrightarrow> fst best \<in> insert [] (dom es) \<Longrightarrow> ord \<noteq> [] \<or> fst best \<noteq> [] \<Longrightarrow>
   fst (foldl (oldest_step es) best ord) \<in> dom es"
proof (induction ord arbitrary: best)
  case (Cons k ord)
  then obtain e where e: "es k = Some e" by auto
  have "k \<in> dom es" using e by blast
  then have "fst (oldest_step es best k) \<in> dom es"
    using Cons.prems(3) by (auto simp: oldest_step_def e)
  moreover from this have "fst (oldest_step es best k) \<noteq> []" using Cons.prems(2) by metis
  ultimately show ?case
    using Cons.IH [of "oldest_step es best k"] Cons.prems(1,2) by simp
qed auto

lemma store_inv_put:
  assumes "store_inv b" "iteration_order (ord (mb_entries b)) (mb_entries b)"
  shows "store_inv (snd (NewStore_Put ord bytes now c ttl b))"
proof -
  let ?id = "Store_ID bytes"
  have id: "?id \<noteq> []" by (simp add: Store_ID_def)
  have fin: "finite (dom (mb_entries b))" "[] \<notin> dom (mb_entries b)" using assms(1) by (simp_all add: store_inv_def)
  show ?thesis
  proof (cases "mb_maxSize b > 0 \<and> int (gomap_len (mb_entries b)) \<ge> mb_maxSize b")
    case True
    let ?k = "fst (foldl (oldest_step (mb_entries b)) ([], zero_time) (ord (mb_entries b)))"
    have "ord (mb_entries b) \<noteq> []"
      using True iteration_order_len [OF assms(2)] by auto
    then have k: "?k \<in> dom (mb_entries b)"
      using assms(2) fin by (intro oldest_fold_mem) (auto simp: iteration_order_def)
    have len: "gomap_len (gomap_delete ?k (mb_entries b)) = gomap_len (mb_entries b) - 1"
      by (rule gomap_len_delete [OF fin(1) k])
    have pos: "0 < gomap_len (mb_entries b)" using True by linarith
    have put: "snd (NewStore_Put ord bytes now c ttl b) = b\<lparr>mb_entries := (gomap_delete ?k (mb_entries b))(?id \<mapsto>
        \<lparr>me_content = c, me_expiresAt = (if ttl > 0 then Some (now + ttl) else None), me_insertedAt = now\<rparr>)\<rparr>"
      using True k fin(2) by (auto simp: NewStore_Put_def Store_Put_def memoryBackend_Put_def memoryBackend_evictOldestLocked_def Let_def)
    show ?thesis
      using assms(1) True fin id len pos
      unfolding put by (auto simp: store_inv_def gomap_len_upd)
  next
    case False
    then show ?thesis
      using assms(1) fin id
      by (auto simp: NewStore_Put_def Store_Put_def memoryBackend_Put_def Let_def store_inv_def gomap_len_upd)
  qed
qed

section \<open>Properties\<close>

lemma shortened_rest [simp]:
  "(shortened u m p by lv rv i x)\<lparr>msg_Content := c\<rparr> = x\<lparr>msg_Content := c\<rparr>"
  "msg_Role (shortened u m p by lv rv i x) = msg_Role x"
  "msg_Parts (shortened u m p by lv rv i x) = msg_Parts x"
  by (auto simp: shortened_def case_prod_beta)

lemma map_map2_shift: "length ns = length xs \<Longrightarrow> (\<And>i x. f (g i x) = f x) \<Longrightarrow> map f (map2 g ns xs) = map f xs"
  by (induction ns xs rule: list_induct2) auto

lemma filter_map2_fixed:
  "length ns = length xs \<Longrightarrow> (\<And>i x. P (g i x) = P x) \<Longrightarrow> (\<And>i x. P x \<Longrightarrow> g i x = x) \<Longrightarrow>
   filter P (map2 g ns xs) = filter P xs"
  by (induction ns xs rule: list_induct2) auto

lemma last_user_from_eq:
  "i < n \<Longrightarrow> msg_Role (ms ! i) = ''user'' \<Longrightarrow> (\<And>j. i < j \<Longrightarrow> j < n \<Longrightarrow> msg_Role (ms ! j) \<noteq> ''user'') \<Longrightarrow>
   last_user_from n ms = int i"
proof (induction n)
  case (Suc n)
  then show ?case by (cases "i = n") auto
qed simp

lemma lastUserMessageIndex_split:
  assumes "msg_Role u = ''user''" "list_all (\<lambda>m. msg_Role m \<noteq> ''user'') ys"
  shows "lastUserMessageIndex (xs @ u # ys) = int (length xs)"
  unfolding lastUserMessageIndex_def
proof (rule last_user_from_eq)
  fix j assume "length xs < j" "j < length (xs @ u # ys)"
  then have "(xs @ u # ys) ! j \<in> set ys" by (simp add: nth_append nth_Cons')
  with assms(2) show "msg_Role ((xs @ u # ys) ! j) \<noteq> ''user''" by (auto simp: list_all_iff)
qed (use assms(1) in \<open>simp_all\<close>)

lemma map2_shortened_last_user:
  defines "user \<equiv> \<lambda>m. msg_Role m = ''user''"
  shows "last (filter user (map2 (shortened u m p b (lastUserMessageIndex ms) rv) [0..<length ms] ms)) = last (filter user ms)"
proof (cases "\<exists>x \<in> set ms. user x")
  case True
  then obtain xs x ys where ms: "ms = xs @ x # ys" "user x" "\<forall>y \<in> set ys. \<not> user y"
    using split_list_last_prop by metis
  let ?g = "shortened u m p b (int (length xs)) rv"
  have live: "lastUserMessageIndex ms = int (length xs)"
    unfolding ms(1) by (rule lastUserMessageIndex_split) (use ms(2,3) in \<open>auto simp: user_def list_all_iff\<close>)
  have upt: "[0..<length ms] = [0..<length xs] @ length xs # [Suc (length xs)..<length ms]"
    by (metis add_Suc_right length_append length_Cons le_add1 less_add_Suc1 ms(1) upt_add_eq_append upt_conv_Cons zero_le add_0)
  have x: "?g (length xs) x = x" by (simp add: shortened_def)
  have ys: "filter user (map2 ?g [Suc (length xs)..<length ms] ys) = []"
    using ms(3) by (auto simp: filter_empty_conv user_def set_zip)
  have "zip [0..<length ms] ms = zip [0..<length xs] xs @ (length xs, x) # zip [Suc (length xs)..<length ms] ys"
    unfolding upt by (simp add: ms(1) del: upt_Suc)
  then have "map2 ?g [0..<length ms] ms = map2 ?g [0..<length xs] xs @ x # map2 ?g [Suc (length xs)..<length ms] ys"
    by (simp only: x map_append list.map prod.case)
  moreover have "filter user ys = []" using ms(3) by (auto simp: filter_empty_conv)
  ultimately show ?thesis
    unfolding live using ms(2) by (simp only: ys filter_append filter.simps if_True last_snoc) (simp add: ms(1,2))
next
  case False
  then have "filter user ms = []" by (auto simp: filter_empty_conv)
  moreover have "filter user (map2 (shortened u m p b (lastUserMessageIndex ms) rv) [0..<length ms] ms) = []"
    using False by (auto simp: filter_empty_conv user_def set_zip)
  ultimately show ?thesis by simp
qed

text \<open>
  C40. The compressor touches only what it may: request options, roles, tool calls, system
  messages, multi-part messages and the caller's last message stay as they are, no message
  is added or removed, and the only tool it may add is the retrieval tool, last.
\<close>

theorem compressor_scope:
  fixes unmarshal :: "string \<Rightarrow> json option" and marshal :: "json \<Rightarrow> string option"
    and ord :: "(string, memEntry) gomap \<Rightarrow> string list" and p :: compressor_plugin and now :: time
    and bytes :: "nat \<Rightarrow> string" and req :: RequestEnvelope and store :: "memoryBackend option"
  defines "req' \<equiv> fst (Compressor_Intercept unmarshal marshal (NewStore_Put ord) p now bytes req store)"
  shows "req'\<lparr>req_Messages := [], req_Tools := []\<rparr> = req\<lparr>req_Messages := [], req_Tools := []\<rparr> \<and>
    map (\<lambda>m. m\<lparr>msg_Content := []\<rparr>) (req_Messages req') = map (\<lambda>m. m\<lparr>msg_Content := []\<rparr>) (req_Messages req) \<and>
    filter (\<lambda>m. msg_Role m = ''system'' \<or> 0 < length (msg_Parts m)) (req_Messages req') =
      filter (\<lambda>m. msg_Role m = ''system'' \<or> 0 < length (msg_Parts m)) (req_Messages req) \<and>
    last (filter (\<lambda>m. msg_Role m = ''user'') (req_Messages req')) = last (filter (\<lambda>m. msg_Role m = ''user'') (req_Messages req)) \<and>
    (req_Tools req' = req_Tools req \<or> req_Tools req' = req_Tools req @ [RetrievalTool])"
proof -
  let ?rv = "if req_Stream req then None else store"
  let ?live = "lastUserMessageIndex (req_Messages req)"
  let ?g = "shortened unmarshal marshal p bytes ?live (?rv \<noteq> None)"
  have msgs: "req_Messages req' = map2 ?g [0..<length (req_Messages req)] (req_Messages req)"
    unfolding req'_def Compressor_Intercept_def Let_def
    by (simp add: case_prod_beta originals.loop_messages del: not_None_eq)
  have fixed: "?g i m = m" if "msg_Role m = ''system'' \<or> 0 < length (msg_Parts m)" for i m
    using that by (auto simp: shortened_def eligible_message_def)
  have "filter (\<lambda>m. msg_Role m = ''system'' \<or> 0 < length (msg_Parts m)) (req_Messages req') =
      filter (\<lambda>m. msg_Role m = ''system'' \<or> 0 < length (msg_Parts m)) (req_Messages req)"
    unfolding msgs by (rule filter_map2_fixed) (use fixed in simp_all)
  moreover have "map (\<lambda>m. m\<lparr>msg_Content := []\<rparr>) (req_Messages req') = map (\<lambda>m. m\<lparr>msg_Content := []\<rparr>) (req_Messages req)"
    unfolding msgs by (rule map_map2_shift) simp_all
  moreover have "last (filter (\<lambda>m. msg_Role m = ''user'') (req_Messages req')) = last (filter (\<lambda>m. msg_Role m = ''user'') (req_Messages req))"
    unfolding msgs by (rule map2_shortened_last_user)
  moreover have "req_Tools req' = req_Tools req \<or> req_Tools req' = req_Tools req @ [RetrievalTool]"
    unfolding req'_def Compressor_Intercept_def Let_def by (simp add: case_prod_beta loop_tools)
  moreover have "req'\<lparr>req_Messages := [], req_Tools := []\<rparr> = req\<lparr>req_Messages := [], req_Tools := []\<rparr>"
    unfolding req'_def Compressor_Intercept_def Let_def by (simp add: case_prod_beta)
  ultimately show ?thesis by blast
qed

lemma originals_kept:
  fixes req :: RequestEnvelope
  assumes "\<not> req_Stream req" "j < length (req_Messages req)"
    and "truncates unmarshal marshal p (lastUserMessageIndex (req_Messages req)) j (req_Messages req ! j)"
    and "store_room (length (req_Messages req)) s" "inj_on bytes {..<length (req_Messages req)}"
    and "cp_ttl p > 0 \<Longrightarrow> later \<le> now + cp_ttl p"
  shows "\<exists>req' s' text omitted. Compressor_Intercept unmarshal marshal (NewStore_Put ord) p now bytes req (Some s) = (req', Some s') \<and>
    msg_Content (req_Messages req' ! j) = text @ Marker (Store_ID (bytes j)) omitted \<and>
    RetrievalTool \<in> set (req_Tools req') \<and>
    fst (NewStore_Get later (Store_ID (bytes j)) s') = Some (msg_Content (req_Messages req ! j))"
proof -
  let ?ms = "req_Messages req"
  let ?live = "lastUserMessageIndex ?ms"
  let ?run = "compress_loop unmarshal marshal (NewStore_Put ord) p now bytes ?live 0 ?ms (req_Tools req) False (Some s)"
  have inj: "inj_on (Store_ID \<circ> bytes) {0..<0 + length ?ms}"
    using assms(5) by (auto simp: inj_on_def dest: Store_ID_inj)
  obtain s' where s': "snd (snd ?run) = Some s'" "fst (NewStore_Get later (Store_ID (bytes (0 + j))) s') = Some (msg_Content (?ms ! j))"
    using originals.loop_store_holds [OF assms(4) inj assms(2), of unmarshal marshal p ?live later now ord] assms(3,6) by auto
  obtain r om where c: "compress unmarshal marshal (msg_Content (?ms ! j)) (cp_maxChars p) = (r, om)" by fastforce
  have "fst ?run ! j = shortened unmarshal marshal p bytes ?live True j (?ms ! j)"
    unfolding originals.loop_messages using assms(2) by simp
  then have "msg_Content (fst ?run ! j) = r @ Marker (Store_ID (bytes j)) om"
    using assms(3) c by (simp add: shortened_def truncates_def)
  moreover have "fst (snd ?run) = req_Tools req @ [RetrievalTool]"
    unfolding loop_tools using assms(2,3) by auto
  moreover have "Compressor_Intercept unmarshal marshal (NewStore_Put ord) p now bytes req (Some s) =
      (req\<lparr>req_Messages := fst ?run, req_Tools := fst (snd ?run)\<rparr>, Some s')"
    using assms(1) s'(1) by (simp add: Compressor_Intercept_def case_prod_beta Let_def)
  ultimately show ?thesis using s'(2) by auto
qed

text \<open>
  C21. Truncation is reversible: with a store, room in it and distinct identifiers, the shortened
  message names an identifier under which the store returns the whole original until it expires,
  and the request offers the retrieval tool.
\<close>

theorem compression_reversible:
  fixes req :: RequestEnvelope
  assumes "\<not> req_Stream req" "j < length (req_Messages req)"
    and "truncates unmarshal marshal p (lastUserMessageIndex (req_Messages req)) j (req_Messages req ! j)"
    and "store_room (length (req_Messages req)) s" "inj_on bytes {..<length (req_Messages req)}"
    and "cp_ttl p > 0 \<Longrightarrow> later \<le> now + cp_ttl p"
  shows "\<exists>req' s' text omitted. Compressor_Intercept unmarshal marshal (NewStore_Put ord) p now bytes req (Some s) = (req', Some s') \<and>
    msg_Content (req_Messages req' ! j) = text @ Marker (Store_ID (bytes j)) omitted \<and>
    RetrievalTool \<in> set (req_Tools req') \<and>
    fst (NewStore_Get later (Store_ID (bytes j)) s') = Some (msg_Content (req_Messages req ! j))"
  using assms by (rule originals_kept)

definition sample_history :: RequestEnvelope where
  "sample_history = zero_request\<lparr>req_Model := ''m'', req_Messages :=
     [text_message ''tool'' ''abcdefgh'', text_message ''user'' ''abcdefgh'']\<rparr>"

definition sample_plugin :: compressor_plugin where
  "sample_plugin = Compressor_New 5 (10 * Minute)"

definition sample_bytes :: "nat \<Rightarrow> string" where
  "sample_bytes i = replicate 16 (if i = 0 then CHR ''a'' else CHR ''b'')"

lemma sample_truncates:
  "truncates (\<lambda>_. None) (\<lambda>_. None) sample_plugin (lastUserMessageIndex (req_Messages sample_history)) 0
     (req_Messages sample_history ! 0)"
  unfolding truncates_def by code_simp

theorem compression_reversible_witness:
  "\<exists>req' s' text omitted. Compressor_Intercept (\<lambda>_. None) (\<lambda>_. None) (NewStore_Put (\<lambda>_. [])) sample_plugin 0
      sample_bytes sample_history (Some (newMemoryBackend 0)) = (req', Some s') \<and>
    msg_Content (req_Messages req' ! 0) = text @ Marker (Store_ID (sample_bytes 0)) omitted \<and>
    RetrievalTool \<in> set (req_Tools req') \<and>
    fst (NewStore_Get Minute (Store_ID (sample_bytes 0)) s') = Some ''abcdefgh''"
proof -
  have ms: "length (req_Messages sample_history) = 2" "msg_Content (req_Messages sample_history ! 0) = ''abcdefgh''"
    "\<not> req_Stream sample_history"
    by (simp_all add: sample_history_def text_message_def zero_request_def)
  have "store_room 2 (newMemoryBackend 0)" by (simp add: store_room_def newMemoryBackend_def)
  moreover have "inj_on sample_bytes {..<2}"
    by (auto simp: inj_on_def sample_bytes_def split: if_splits)
  moreover have "Minute \<le> 0 + cp_ttl sample_plugin"
    by (simp add: sample_plugin_def Compressor_New_def Minute_def)
  ultimately show ?thesis
    using compression_reversible [OF ms(3) _ sample_truncates, of "newMemoryBackend 0" sample_bytes Minute 0 "\<lambda>_. []"]
    by (simp add: ms)
qed

text \<open>
  What comment stripping removes is not counted as omitted, so it cannot be asked back: after a
  line that starts with a one-line block comment and goes on with code, every line up to the
  next end of a block comment is gone, without a marker.
\<close>

theorem code_after_comment_lost:
  assumes "unmarshal content = None" "looksLikeCode content" "split_at (CHR 0x0A) content = l # ls"
    and "HasPrefix (TrimSpace l) ''/*''" "\<not> HasSuffix (TrimSpace l) ''*/''"
    and "list_all (\<lambda>l. \<not> HasSuffix (TrimSpace l) ''*/'') ls" "0 \<le> maxChars"
  shows "compress unmarshal marshal content maxChars = ([], 0)"
proof -
  have "\<not> isLineComment (TrimSpace l)"
    using assms(4) by (cases "TrimSpace l") (auto simp: HasPrefix_def isLineComment_def)
  then have "strip_loop False (l # ls) = ([], True)"
    using assms(4,5) strip_loop_open_block [OF assms(6)] by (simp add: Let_def)
  then have "stripComments content = Some []"
    using assms(2,3) by (simp add: stripComments_def)
  with assms(1,7) show ?thesis by (simp add: compress_def compressJSON_def Let_def)
qed

theorem code_after_comment_lost_witness:
  "compress (\<lambda>_. None) (\<lambda>_. None) (''/* note */ f();'' @ nl @ ''func g() {}'') 4000 = ([], 0)"
  by (rule code_after_comment_lost [where l = "''/* note */ f();''" and ls = "[''func g() {}'']"]) (simp, code_simp+)

text \<open>An include line is dropped as a comment.\<close>

lemma include_stripped: "stripComments (''#include <a.h>'' @ nl @ ''int x;'') = Some ''int x;''"
  by code_simp

end
