(* ===== verification/Guardrail.thy ===== *)
theory Guardrail
  imports Budget Compressor ResponseCache
begin

text \<open>
  What a request passes before it reaches the cache: the body limit and the replayable body
  (\<^verbatim>\<open>internal/ingress/body_limit_middleware.go\<close>, \<^verbatim>\<open>bodyCapture\<close> of \<^verbatim>\<open>cache_middleware.go\<close>), admission
  control (\<^verbatim>\<open>admission_middleware.go\<close>), the interceptor chain (\<^verbatim>\<open>pkg/guardrail/interceptor.go\<close>,
  \<^verbatim>\<open>interceptor_middleware.go\<close>) and the brevity interceptor (\<^verbatim>\<open>plugins/brevity\<close>). Interceptors act on
  the request and on a state they share; the handler behind them is a parameter.
\<close>

section \<open>Bodies\<close>

text \<open>A reader returns the bytes of one call and whether it reports the end of the body.\<close>

type_synonym 'r read_fn = "nat \<Rightarrow> 'r \<Rightarrow> string \<times> bool \<times> 'r"

record bytesReader =
  br_data :: string
  br_pos :: nat

definition bytesReader_Read :: "bytesReader read_fn" where
  "bytesReader_Read n br =
     (if br_pos br \<ge> length (br_data br) then ([], True, br)
      else let chunk = take n (drop (br_pos br) (br_data br)) in
        (chunk, False, br\<lparr>br_pos := br_pos br + length chunk\<rparr>))"

definition readCloser :: "string \<Rightarrow> bytesReader" where
  "readCloser data = \<lparr>br_data = data, br_pos = 0\<rparr>"

record 'r bodyCapture =
  bc_body :: 'r
  bc_buf :: string

definition bodyCapture_Read :: "'r read_fn \<Rightarrow> 'r bodyCapture read_fn" where
  "bodyCapture_Read read n b = (case read n (bc_body b) of (chunk, eof, r) \<Rightarrow>
     (chunk, eof, b\<lparr>bc_body := r, bc_buf := bc_buf b @ chunk\<rparr>))"

definition bodyCapture_replay :: "'r bodyCapture \<Rightarrow> bytesReader" where
  "bodyCapture_replay b = readCloser (bc_buf b)"

text \<open>Reading a body to its end, as a decoder that waits for more input does.\<close>

partial_function (option) drain :: "('r \<Rightarrow> string \<times> bool \<times> 'r) \<Rightarrow> 'r \<Rightarrow> (string \<times> 'r) option" where
  "drain read r = (case read r of (chunk, eof, r) \<Rightarrow>
     if eof then Some (chunk, r)
     else Option.bind (drain read r) (\<lambda>(rest, r). Some (chunk @ rest, r)))"

text \<open>
  \<^verbatim>\<open>http.MaxBytesReader\<close>: the bytes up to the limit, and an error in place of the rest. A body
  is its bytes with the error that ends it, if any.
\<close>

record body =
  body_bytes :: string
  body_error :: bool

definition MaxBytesReader :: "int \<Rightarrow> body \<Rightarrow> body" where
  "MaxBytesReader n b =
     (if int (length (body_bytes b)) \<le> n then b
      else \<lparr>body_bytes = take (nat n) (body_bytes b), body_error = True\<rparr>)"

definition BodyLimit_Handler :: "int \<Rightarrow> (body \<Rightarrow> 'a) \<Rightarrow> body \<Rightarrow> 'a" where
  "BodyLimit_Handler maxBytes nxt b = (if maxBytes \<le> 0 then nxt b else nxt (MaxBytesReader maxBytes b))"

section \<open>Admission control\<close>

text \<open>The semaphore: \<^verbatim>\<open>nil\<close>, or its capacity and the slots taken.\<close>

record AdmissionMiddleware =
  am_sem :: "nat option"
  am_taken :: nat

definition NewAdmissionMiddleware :: "int \<Rightarrow> AdmissionMiddleware" where
  "NewAdmissionMiddleware maxInFlight =
     \<lparr>am_sem = (if maxInFlight \<le> 0 then None else Some (nat maxInFlight)), am_taken = 0\<rparr>"

definition Admission_enter :: "AdmissionMiddleware \<Rightarrow> bool \<times> AdmissionMiddleware" where
  "Admission_enter m = (case am_sem m of
      None \<Rightarrow> (True, m)
    | Some capacity \<Rightarrow> if am_taken m < capacity then (True, m\<lparr>am_taken := Suc (am_taken m)\<rparr>) else (False, m))"

text \<open>The deferred receive, which runs when the wrapped handler returns or panics.\<close>

definition Admission_leave :: "AdmissionMiddleware \<Rightarrow> AdmissionMiddleware" where
  "Admission_leave m = (case am_sem m of None \<Rightarrow> m | Some _ \<Rightarrow> m\<lparr>am_taken := am_taken m - 1\<rparr>)"

section \<open>Interceptors\<close>

record BlockedError =
  be_Interceptor :: string
  be_Category :: string
  be_Message :: string

definition BlockedError_Error :: "BlockedError \<Rightarrow> string" where
  "BlockedError_Error e =
     (if be_Category e \<noteq> [] then be_Interceptor e @ '': blocked '' @ em_dash @ '' '' @ be_Category e @ '': '' @ be_Message e
      else be_Interceptor e @ '': '' @ be_Message e)"

datatype intercept_error = Blocked BlockedError | Failed goerror

fun intercept_text :: "intercept_error \<Rightarrow> string" where
  "intercept_text (Blocked e) = BlockedError_Error e"
| "intercept_text (Failed e) = err_msg e"

type_synonym 's interceptor = "RequestEnvelope \<Rightarrow> 's \<Rightarrow> intercept_error option \<times> RequestEnvelope \<times> 's"

fun Chain_Intercept :: "'s interceptor list \<Rightarrow> 's interceptor" where
  "Chain_Intercept [] req s = (None, req, s)"
| "Chain_Intercept (i # is) req s = (case i req s of
      (Some err, req, s) \<Rightarrow> (Some err, req, s)
    | (None, req, s) \<Rightarrow> Chain_Intercept is req s)"

definition escape_byte :: "char \<Rightarrow> string" where
  "escape_byte c =
     (if c = CHR 0x22 then [CHR 0x5C, CHR 0x22]
      else if c = CHR 0x5C then [CHR 0x5C, CHR 0x5C]
      else if c = CHR 0x0A then [CHR 0x5C, CHR ''n'']
      else if c = CHR 0x0D then [CHR 0x5C, CHR ''r'']
      else if c = CHR 0x09 then [CHR 0x5C, CHR ''t'']
      else [c])"

definition jsonEscape :: "string \<Rightarrow> string" where
  "jsonEscape s = concat (map escape_byte s)"

fun blocked_message :: "intercept_error \<Rightarrow> string" where
  "blocked_message (Blocked e) = be_Message e"
| "blocked_message (Failed e) = err_msg e"

abbreviation quote_char :: string where
  "quote_char \<equiv> [CHR 0x22]"

definition WriteBlockedResponse :: "intercept_error \<Rightarrow> recorded" where
  "WriteBlockedResponse err = \<lparr>rec_status = 403, rec_body = RawBody (
     ''{'' @ quote_char @ ''error'' @ quote_char @ '':{'' @ quote_char @ ''type'' @ quote_char @ '':'' @
     quote_char @ ''request_blocked'' @ quote_char @ '','' @ quote_char @ ''message'' @ quote_char @ '':'' @
     quote_char @ jsonEscape (blocked_message err) @ quote_char @ ''}}'')\<rparr>"

text \<open>
  The request that goes on is written as JSON and read again by the next handler: messages go
  through their codec.
\<close>

definition reencode :: "RequestEnvelope \<Rightarrow> RequestEnvelope" where
  "reencode req = (case json_list Message_UnmarshalJSON (map Message_MarshalJSON (req_Messages req)) of
      Some ms \<Rightarrow> req\<lparr>req_Messages := ms\<rparr>
    | None \<Rightarrow> req)"

definition blocked_event :: "time \<Rightarrow> Identity option \<Rightarrow> string \<Rightarrow> RequestEnvelope \<Rightarrow> intercept_error \<Rightarrow> CallEvent" where
  "blocked_event now ctx useCase req err = zero_event\<lparr>ev_Timestamp := now,
     ev_TenantID := TenantID (FromContext ctx), ev_UseCaseID := useCase, ev_Model := req_Model req,
     ev_Request := req, ev_Error := intercept_text err\<rparr>"

text \<open>The reply, the events published, and the state; \<open>decoded\<close> is the body as JSON.\<close>

definition InterceptorMiddleware_ServeHTTP ::
    "'s interceptor list \<Rightarrow> bool \<Rightarrow> (RequestEnvelope option \<Rightarrow> 's \<Rightarrow> recorded \<times> CallEvent list \<times> 's) \<Rightarrow>
     string \<Rightarrow> time \<Rightarrow> Identity option \<Rightarrow> string \<Rightarrow> RequestEnvelope option \<Rightarrow> 's \<Rightarrow> recorded \<times> CallEvent list \<times> 's" where
  "InterceptorMiddleware_ServeHTTP chain hasBus nxt method now ctx useCase decoded s =
     (if chain = [] \<or> method \<noteq> ''POST'' then nxt decoded s
      else case decoded of
        None \<Rightarrow> nxt None s
      | Some req \<Rightarrow>
          (case Chain_Intercept chain req s of
             (Some err, req, s) \<Rightarrow>
               (WriteBlockedResponse err, if hasBus then [blocked_event now ctx useCase req err] else [], s)
           | (None, req, s) \<Rightarrow> nxt (Some (reencode req)) s))"

section \<open>Brevity\<close>

definition defaultInstruction :: string where
  "defaultInstruction = ''Be terse: drop filler and narrative explanation, prefer fragments over full sentences. Preserve code blocks, commands, error messages, paths, and URLs exactly '' @ em_dash @ '' never compress or paraphrase those.''"

definition Brevity_New :: "string \<Rightarrow> string" where
  "Brevity_New instruction = (if instruction = [] then defaultInstruction else instruction)"

fun system_from :: "nat \<Rightarrow> Message list \<Rightarrow> int" where
  "system_from i [] = -1"
| "system_from i (m # ms) = (if msg_Role m = ''system'' then int i else system_from (Suc i) ms)"

definition systemMessageIndex :: "Message list \<Rightarrow> int" where
  "systemMessageIndex messages = system_from 0 messages"

definition appendInstruction :: "string \<Rightarrow> string \<Rightarrow> string" where
  "appendInstruction existing instruction =
     (let existing = TrimRightIf (\<lambda>c. c = CHR 0x0A) existing in
      if existing = [] then instruction else existing @ nl @ nl @ instruction)"

definition Brevity_Intercept :: "string \<Rightarrow> 's interceptor" where
  "Brevity_Intercept instruction req s =
     (let idx = systemMessageIndex (req_Messages req) in
      if idx < 0 then (None, req\<lparr>req_Messages := text_message ''system'' instruction # req_Messages req\<rparr>, s)
      else let m = req_Messages req ! nat idx in
        (None, req\<lparr>req_Messages := (req_Messages req)[nat idx :=
           m\<lparr>msg_Content := appendInstruction (msg_Content m) instruction\<rparr>]\<rparr>, s))"

text \<open>
  The budget plugin as an interceptor: \<open>render\<close> is the formatted message of its error, in which
  the amounts are printed with four decimals.
\<close>

definition budget_interceptor :: "(BudgetBlocked \<Rightarrow> string) \<Rightarrow> Identity option \<Rightarrow> BudgetPlugin interceptor" where
  "budget_interceptor render ctx req p = (case Budget_Intercept ctx p of
      (Some b, p) \<Rightarrow> (Some (Blocked \<lparr>be_Interceptor = bb_Interceptor b, be_Category = bb_Category b, be_Message = render b\<rparr>), req, p)
    | (None, p) \<Rightarrow> (None, req, p))"

section \<open>Properties of bodies\<close>

lemma take_short: "length (take (Suc n) xs) = 0 \<longleftrightarrow> xs = []"
  by (cases xs) auto

lemma drain_bytes:
  "drain (bytesReader_Read (Suc n)) br = Some (drop (br_pos br) (br_data br), br\<lparr>br_pos := max (br_pos br) (length (br_data br))\<rparr>)"
proof (induction "length (br_data br) - br_pos br" arbitrary: br rule: less_induct)
  case less
  show ?case
  proof (cases "br_pos br \<ge> length (br_data br)")
    case True
    then show ?thesis by (subst drain.simps) (simp add: bytesReader_Read_def max_absorb1)
  next
    case False
    let ?chunk = "take (Suc n) (drop (br_pos br) (br_data br))"
    let ?br = "br\<lparr>br_pos := br_pos br + length ?chunk\<rparr>"
    have pos: "0 < length ?chunk" using False by simp
    have "length (br_data ?br) - br_pos ?br < length (br_data br) - br_pos br"
      using False pos by simp
    note IH = less [OF this]
    have le: "br_pos ?br \<le> length (br_data br)" using False by simp
    have "?chunk @ drop (br_pos ?br) (br_data br) = drop (br_pos br) (br_data br)"
      using append_take_drop_id [of "Suc n" "drop (br_pos br) (br_data br)"]
      by (cases "Suc n \<le> length (br_data br) - br_pos br") (simp_all add: min_def add.commute)
    moreover have "drain (bytesReader_Read (Suc n)) br =
        Option.bind (drain (bytesReader_Read (Suc n)) ?br) (\<lambda>(rest, r). Some (?chunk @ rest, r))"
      using False by (subst drain.simps) (simp add: bytesReader_Read_def Let_def)
    ultimately show ?thesis
      unfolding IH using le False by (simp add: max_def)
  qed
qed

lemma drain_capture_raw:
  assumes "drain read r = Some y" "bc_body b = r"
  shows "drain (\<lambda>b. case read (bc_body b) of (chunk, eof, r) \<Rightarrow> (chunk, eof, b\<lparr>bc_body := r, bc_buf := bc_buf b @ chunk\<rparr>)) b =
    Some (fst y, b\<lparr>bc_body := snd y, bc_buf := bc_buf b @ fst y\<rparr>)"
  using assms
proof (induction arbitrary: b rule: drain.raw_induct [rotated, consumes 1])
  case (1 drain' read r y)
  obtain chunk eof r' where r: "read r = (chunk, eof, r')" by (cases "read r") auto
  show ?case
  proof (cases eof)
    case True
    with 1 r show ?thesis by (subst drain.simps) auto
  next
    case False
    with 1(2) r obtain z where z: "drain' read r' = Some z" "y = (chunk @ fst z, snd z)"
      by (auto split: bind_splits prod.splits)
    let ?b = "b\<lparr>bc_body := r', bc_buf := bc_buf b @ chunk\<rparr>"
    have "bc_body ?b = r'" by simp
    from 1(1) [OF z(1) this] show ?thesis
      using 1(3) r False z(2) by (subst drain.simps) simp
  qed
qed

text \<open>
  C32. A body is read to its end in finitely many reads, and what was captured on the way is
  replayed, to its end again, as the same bytes: the reader signals the end of the data.
\<close>

theorem body_replay:
  "\<exists>b. drain (bodyCapture_Read bytesReader_Read (Suc m)) \<lparr>bc_body = readCloser bytes, bc_buf = []\<rparr> = Some (bytes, b) \<and>
     map_option fst (drain (bytesReader_Read (Suc n)) (bodyCapture_replay b)) = Some bytes"
proof -
  have "bodyCapture_Read bytesReader_Read (Suc m) = (\<lambda>b. case bytesReader_Read (Suc m) (bc_body b) of
      (chunk, eof, r) \<Rightarrow> (chunk, eof, b\<lparr>bc_body := r, bc_buf := bc_buf b @ chunk\<rparr>))"
    by (simp add: bodyCapture_Read_def fun_eq_iff)
  moreover have "drain (bytesReader_Read (Suc m)) (readCloser bytes) = Some (bytes, readCloser bytes\<lparr>br_pos := length bytes\<rparr>)"
    by (simp add: drain_bytes readCloser_def)
  ultimately show ?thesis
    using drain_capture_raw [of "bytesReader_Read (Suc m)" "readCloser bytes" _ "\<lparr>bc_body = readCloser bytes, bc_buf = []\<rparr>"]
    by (simp add: drain_bytes bodyCapture_replay_def readCloser_def)
qed

lemma body_limited: "0 < n \<Longrightarrow> int (length (body_bytes (MaxBytesReader n b))) \<le> n"
  by (simp add: MaxBytesReader_def)

section \<open>Admission\<close>

text \<open>Requests arrive and leave; the state also lists the admitted ones still running.\<close>

datatype admission_event = Arrives nat | Leaves nat

fun admission_step :: "AdmissionMiddleware \<times> nat list \<Rightarrow> admission_event \<Rightarrow> AdmissionMiddleware \<times> nat list" where
  "admission_step (m, running) (Arrives r) = (case Admission_enter m of
      (True, m) \<Rightarrow> (m, r # running) | (False, m) \<Rightarrow> (m, running))"
| "admission_step (m, running) (Leaves r) =
     (if r \<in> set running then (Admission_leave m, remove1 r running) else (m, running))"

definition admission_inv :: "nat option \<Rightarrow> AdmissionMiddleware \<times> nat list \<Rightarrow> bool" where
  "admission_inv cap s \<longleftrightarrow> am_sem (fst s) = cap \<and>
     (case cap of None \<Rightarrow> True | Some c \<Rightarrow> am_taken (fst s) = length (snd s) \<and> length (snd s) \<le> c)"

interpretation admission: invariant_run admission_step "admission_inv cap" for cap
proof unfold_locales
  fix s e
  assume "admission_inv cap s"
  then show "admission_inv cap (admission_step s e)"
    by (cases s; cases e; cases cap)
      (auto simp: admission_inv_def Admission_enter_def Admission_leave_def length_remove1)
qed

text \<open>
  With a cap, at most that many admitted requests run at once, whatever the order of arrivals
  and departures, and a request is refused exactly when that many run.
\<close>

theorem admission_cap:
  fixes es :: "admission_event list" and n :: nat
  defines "s \<equiv> foldl admission_step (NewAdmissionMiddleware (int (Suc n)), []) es"
  shows "length (snd s) \<le> Suc n \<and> (fst (Admission_enter (fst s)) \<longleftrightarrow> length (snd s) < Suc n)"
proof -
  have "admission_inv (Some (Suc n)) (NewAdmissionMiddleware (int (Suc n)), [])"
    by (simp add: admission_inv_def NewAdmissionMiddleware_def nat_int_add)
  then have "admission_inv (Some (Suc n)) s" unfolding s_def by (rule admission.run_inv)
  then show ?thesis by (auto simp: admission_inv_def Admission_enter_def)
qed

section \<open>The interceptor chain\<close>

text \<open>The text between the quotes of a JSON string, as a decoder reads it.\<close>

fun json_unescape :: "string \<Rightarrow> string option" where
  "json_unescape [] = Some []"
| "json_unescape (c # s) =
     (if c = CHR 0x5C then
        (case s of [] \<Rightarrow> None
         | d # t \<Rightarrow>
            (if d = CHR 0x22 \<or> d = CHR 0x5C then map_option ((#) d) (json_unescape t)
             else if d = CHR ''n'' then map_option ((#) (CHR 0x0A)) (json_unescape t)
             else if d = CHR ''r'' then map_option ((#) (CHR 0x0D)) (json_unescape t)
             else if d = CHR ''t'' then map_option ((#) (CHR 0x09)) (json_unescape t)
             else None))
      else if c = CHR 0x22 \<or> (of_char c :: nat) < 32 then None
      else map_option ((#) c) (json_unescape s))"

definition raw_control :: "char \<Rightarrow> bool" where
  "raw_control c \<longleftrightarrow> (of_char c :: nat) < 32 \<and> c \<noteq> CHR 0x0A \<and> c \<noteq> CHR 0x0D \<and> c \<noteq> CHR 0x09"

lemma json_unescape_byte:
  "json_unescape (escape_byte c @ s) = (if raw_control c then None else map_option ((#) c) (json_unescape s))"
  by (auto simp: escape_byte_def raw_control_def)

text \<open>
  The message of a blocked request reads back as written exactly when it has no control
  character besides newline, return and tab; with one the reply is not JSON.
\<close>

theorem jsonEscape_roundtrip:
  "json_unescape (jsonEscape s) = (if list_ex raw_control s then None else Some s)"
  by (induction s) (simp_all add: jsonEscape_def json_unescape_byte)

lemma Chain_Intercept_append:
  "Chain_Intercept (is @ js) req s = (case Chain_Intercept is req s of
      (Some err, req, s) \<Rightarrow> (Some err, req, s)
    | (None, req, s) \<Rightarrow> Chain_Intercept js req s)"
  by (induction "is" arbitrary: req s) (auto split: prod.splits option.splits)

lemma reencode_eq:
  "reencode req = req\<lparr>req_Messages := map (\<lambda>m. if msg_Parts m = [] then m
     else m\<lparr>msg_Content := flatten_text (msg_Parts m)\<rparr>) (req_Messages req)\<rparr>"
proof -
  have "json_list Message_UnmarshalJSON (map Message_MarshalJSON ms) =
      Some (map (\<lambda>m. if msg_Parts m = [] then m else m\<lparr>msg_Content := flatten_text (msg_Parts m)\<rparr>) ms)" for ms
    by (induction ms) (simp_all add: message_codec)
  then show ?thesis by (simp add: reencode_def)
qed

section \<open>Brevity\<close>

lemma system_from_none: "list_all (\<lambda>m. msg_Role m \<noteq> ''system'') ms \<Longrightarrow> system_from i ms = -1"
  by (induction ms arbitrary: i) auto

lemma system_from_split:
  "list_all (\<lambda>m. msg_Role m \<noteq> ''system'') xs \<Longrightarrow> msg_Role m = ''system'' \<Longrightarrow>
   system_from i (xs @ m # ys) = int (i + length xs)"
  by (induction xs arbitrary: i) auto

text \<open>
  The brevity interceptor never blocks. It puts the instruction at the end of the first system
  message, or adds one in front when there is none, and leaves every other message alone.
\<close>

theorem brevity_instruction:
  "\<exists>xs old ys. (case Brevity_Intercept instruction req s of (err, req', s') \<Rightarrow>
     err = None \<and> s' = s \<and> req'\<lparr>req_Messages := []\<rparr> = req\<lparr>req_Messages := []\<rparr> \<and>
     list_all (\<lambda>m. msg_Role m \<noteq> ''system'') xs \<and>
     (if list_ex (\<lambda>m. msg_Role m = ''system'') (req_Messages req)
      then msg_Role old = ''system'' \<and> req_Messages req = xs @ old # ys \<and>
        req_Messages req' = xs @ old\<lparr>msg_Content := appendInstruction (msg_Content old) instruction\<rparr> # ys
      else req_Messages req' = text_message ''system'' instruction # req_Messages req))"
proof (cases "list_ex (\<lambda>m. msg_Role m = ''system'') (req_Messages req)")
  case True
  then have "\<exists>m \<in> set (req_Messages req). msg_Role m = ''system''" by (simp add: list_ex_iff)
  then obtain xs m ys where ms: "req_Messages req = xs @ m # ys" "msg_Role m = ''system''"
      "\<forall>x \<in> set xs. msg_Role x \<noteq> ''system''"
    using split_list_first_prop [of "req_Messages req" "\<lambda>m. msg_Role m = ''system''"] by blast
  have all: "list_all (\<lambda>m. msg_Role m \<noteq> ''system'') xs" using ms(3) by (simp add: list_all_iff)
  have "systemMessageIndex (req_Messages req) = int (length xs)"
    unfolding systemMessageIndex_def ms(1) using system_from_split [OF all ms(2), of 0] by simp
  then show ?thesis
    using True all ms(1,2) by (intro exI [of _ xs] exI [of _ m] exI [of _ ys]) (simp add: Brevity_Intercept_def Let_def)
next
  case False
  then have "list_all (\<lambda>m. msg_Role m \<noteq> ''system'') (req_Messages req)"
    by (simp add: list_ex_iff list_all_iff)
  then have "systemMessageIndex (req_Messages req) = -1"
    by (simp add: systemMessageIndex_def system_from_none)
  then show ?thesis
    using False by (intro exI [of _ "[]"]) (simp add: Brevity_Intercept_def)
qed

text \<open>When the system message has parts, the instruction is lost: only the parts are written.\<close>

lemma brevity_lost_on_parts:
  assumes "req_Messages req = m # ms" "msg_Role m = ''system''" "msg_Parts m \<noteq> []"
  shows "reencode (fst (snd (Brevity_Intercept instruction req s))) = reencode req"
  using assms by (simp add: Brevity_Intercept_def systemMessageIndex_def reencode_eq Let_def)

section \<open>The budget behind the middleware\<close>

definition tenant_only :: "Identity option \<Rightarrow> string \<Rightarrow> bool" where
  "tenant_only ctx k \<longleftrightarrow> k \<noteq> [] \<and> FromContext ctx = \<lparr>TenantID = k, TeamID = [], UserID = [], UseCaseID = UseCaseID (FromContext ctx)\<rparr>"

lemma tenant_only_scopes: "tenant_only ctx k \<Longrightarrow> scopeKeys (FromContext ctx) = [k]"
  by (simp add: tenant_only_def scopeKeys_def) (metis Identity.select_convs(1-3))

text \<open>
  A blocked request holds no reservation, but the event published for it releases one: the
  reservation of a call in flight.
\<close>

theorem blocked_request_releases_reservation:
  assumes "tenant_only ctx k" "Budget_Intercept ctx p = (Some b, p)" "bp_limits p k = Some cap"
    and "0 < avgCost_of p k" "avgCost_of p k \<le> reserved_of p k"
  shows "\<exists>ev. InterceptorMiddleware_ServeHTTP [budget_interceptor render ctx] True nxt ''POST'' now ctx uc (Some req) p =
      (WriteBlockedResponse (Blocked \<lparr>be_Interceptor = bb_Interceptor b, be_Category = bb_Category b, be_Message = render b\<rparr>), [ev], p) \<and>
    reserved_of (snd (Budget_OnEvent now ev p)) k = reserved_of p k - avgCost_of p k"
proof -
  define err where "err = Blocked \<lparr>be_Interceptor = bb_Interceptor b, be_Category = bb_Category b, be_Message = render b\<rparr>"
  define ev where "ev = blocked_event now ctx uc req err"
  have serve: "InterceptorMiddleware_ServeHTTP [budget_interceptor render ctx] True nxt ''POST'' now ctx uc (Some req) p =
      (WriteBlockedResponse err, [ev], p)"
    using assms(2) by (simp add: InterceptorMiddleware_ServeHTTP_def budget_interceptor_def err_def ev_def)
  have "intercept_text err \<noteq> []" by (simp add: err_def BlockedError_Error_def)
  then have err: "ev_Error ev \<noteq> []" "ev_Shadow ev = None"
    by (simp_all add: ev_def blocked_event_def zero_event_def)
  have "event_identity ev = \<lparr>TenantID = k, TeamID = [], UserID = [], UseCaseID = []\<rparr>"
    using assms(1) by (simp add: event_identity_def ev_def blocked_event_def zero_event_def tenant_only_def) (metis Identity.select_convs(1))
  then have "scopeKeys (event_identity ev) = [k]"
    using assms(1) by (simp add: scopeKeys_def tenant_only_def)
  with err have "snd (Budget_OnEvent now ev p) = Budget_release None p k"
    by (simp add: Budget_OnEvent_def event_hasCost_def)
  then have "reserved_of (snd (Budget_OnEvent now ev p)) k = reserved_of p k - avgCost_of p k"
    using assms(3-5) by (simp add: Budget_release_def Let_def)
  with serve show ?thesis unfolding err_def by blast
qed

definition serve_cached :: "(BudgetBlocked \<Rightarrow> string) \<Rightarrow> Identity option \<Rightarrow> RequestEnvelope \<Rightarrow> recorded \<Rightarrow> BudgetPlugin \<Rightarrow> recorded \<times> CallEvent list \<times> BudgetPlugin" where
  "serve_cached render ctx req hit p =
     InterceptorMiddleware_ServeHTTP [budget_interceptor render ctx] True (\<lambda>_ p. (hit, [], p)) ''POST'' 0 ctx [] (Some req) p"

lemma serve_cached_admitted:
  assumes "tenant_only ctx k" "bp_limits p k = Some cap" "rec_status (fst (serve_cached render ctx req hit p)) \<noteq> 403"
  shows "snd (snd (serve_cached render ctx req hit p)) = Budget_reserve p k"
    "spent_of p k + reserved_of p k + avgCost_of p k \<le> LimitUSD cap"
proof -
  have "fst (Budget_Intercept ctx p) = None"
    using assms(3) by (auto simp: serve_cached_def InterceptorMiddleware_ServeHTTP_def budget_interceptor_def
        WriteBlockedResponse_def split: option.splits prod.splits)
  then have check: "Budget_check p [k] = None"
    by (simp add: Budget_Intercept_def Let_def tenant_only_scopes [OF assms(1)] split: option.splits del: Budget_check.simps)
  then show "spent_of p k + reserved_of p k + avgCost_of p k \<le> LimitUSD cap"
    using assms(2) by (simp add: Let_def split: if_splits)
  show "snd (snd (serve_cached render ctx req hit p)) = Budget_reserve p k"
    using check by (simp add: serve_cached_def InterceptorMiddleware_ServeHTTP_def budget_interceptor_def
        Budget_Intercept_def Let_def tenant_only_scopes [OF assms(1)] del: Budget_check.simps)
qed

text \<open>
  A request answered without an event never gives its reservation back. A handler that
  answers from the cache publishes none, so cached answers alone, which cost nothing, bring a
  tenant with a positive average cost to its limit.
\<close>

theorem cached_answers_exhaust_budget:
  assumes "tenant_only ctx k" "bp_limits p k = Some cap" "0 < avgCost_of p k"
  shows "\<exists>n. rec_status (fst (serve_cached render ctx req hit (((\<lambda>p. snd (snd (serve_cached render ctx req hit p))) ^^ n) p))) = 403"
proof (rule ccontr)
  let ?f = "\<lambda>p. snd (snd (serve_cached render ctx req hit p))"
  assume "\<not> ?thesis"
  then have ok: "rec_status (fst (serve_cached render ctx req hit ((?f ^^ n) p))) \<noteq> 403" for n by blast
  have run: "bp_limits ((?f ^^ n) p) k = Some cap \<and> spent_of ((?f ^^ n) p) k = spent_of p k \<and>
      avgCost_of ((?f ^^ n) p) k = avgCost_of p k \<and> reserved_of ((?f ^^ n) p) k = reserved_of p k + real n * avgCost_of p k" for n
  proof (induction n)
    case (Suc n)
    then have cap: "bp_limits ((?f ^^ n) p) k = Some cap" by blast
    have "(?f ^^ Suc n) p = Budget_reserve ((?f ^^ n) p) k"
      using serve_cached_admitted(1) [OF assms(1) cap ok] by simp
    moreover define q where "q = (?f ^^ n) p"
    ultimately show ?case
      using Suc unfolding q_def [symmetric] by (simp add: Budget_reserve_def algebra_simps) (simp add: gomap_get_def)
  qed (simp add: assms(2))
  obtain n where n: "LimitUSD cap - spent_of p k - reserved_of p k < real n * avgCost_of p k"
    using ex_less_of_nat_mult [OF assms(3)] by blast
  have "spent_of p k + (reserved_of p k + real n * avgCost_of p k) + avgCost_of p k \<le> LimitUSD cap"
    using serve_cached_admitted(2) [OF assms(1) _ ok [of n], of cap] run [of n] by metis
  with n assms(3) show False by linarith
qed

definition sample_tenant :: "Identity option" where
  "sample_tenant = Some \<lparr>TenantID = ''acme'', TeamID = [], UserID = [], UseCaseID = []\<rparr>"

definition sample_budget :: BudgetPlugin where
  "sample_budget = (Budget_New [''acme'' \<mapsto> \<lparr>LimitUSD = 1, WarnAt = 0\<rparr>] True None)\<lparr>
     bp_avgCost := [''acme'' \<mapsto> 1], bp_reserved := [''acme'' \<mapsto> 1]\<rparr>"

lemma sample_tenant_only: "tenant_only sample_tenant ''acme''"
  by (simp add: tenant_only_def sample_tenant_def FromContext_def)

lemma sample_budget_fields:
  "bp_limits sample_budget ''acme'' = Some \<lparr>LimitUSD = 1, WarnAt = 0\<rparr>" "avgCost_of sample_budget ''acme'' = 1"
  "reserved_of sample_budget ''acme'' = 1" "spent_of sample_budget ''acme'' = 0"
  by (simp_all add: sample_budget_def Budget_New_def)

lemma sample_budget_blocks: "\<exists>b. Budget_Intercept sample_tenant sample_budget = (Some b, sample_budget)"
  by (simp add: Budget_Intercept_def tenant_only_scopes [OF sample_tenant_only] sample_budget_fields)

theorem blocked_request_releases_reservation_witness:
  "\<exists>b ev. InterceptorMiddleware_ServeHTTP [budget_interceptor (\<lambda>_. []) sample_tenant] True (\<lambda>_ p. (\<lparr>rec_status = 200, rec_body = EmptyBody\<rparr>, [], p))
      ''POST'' 0 sample_tenant [] (Some zero_request) sample_budget = (WriteBlockedResponse b, [ev], sample_budget) \<and>
    reserved_of (snd (Budget_OnEvent 0 ev sample_budget)) ''acme'' = 0"
proof -
  obtain b where b: "Budget_Intercept sample_tenant sample_budget = (Some b, sample_budget)"
    using sample_budget_blocks by blast
  show ?thesis
    using blocked_request_releases_reservation [OF sample_tenant_only b sample_budget_fields(1),
      of "\<lambda>_. []" "\<lambda>_ p. (\<lparr>rec_status = 200, rec_body = EmptyBody\<rparr>, [], p)" 0 "[]" zero_request]
    by (auto simp: sample_budget_fields)
qed

theorem cached_answers_exhaust_budget_witness:
  "\<exists>n. rec_status (fst (serve_cached (\<lambda>_. []) sample_tenant zero_request \<lparr>rec_status = 200, rec_body = EmptyBody\<rparr>
     (((\<lambda>p. snd (snd (serve_cached (\<lambda>_. []) sample_tenant zero_request \<lparr>rec_status = 200, rec_body = EmptyBody\<rparr> p))) ^^ n)
       (sample_budget\<lparr>bp_reserved := Map.empty\<rparr>)))) = 403"
  by (rule cached_answers_exhaust_budget [OF sample_tenant_only]) (simp_all add: sample_budget_fields)

end
