(* ===== verification/Chat.thy ===== *)
theory Chat
  imports Executor Scoring Guardrail
begin

text \<open>
  The chat handler (\<^verbatim>\<open>internal/ingress/chat.go\<close>, \<^verbatim>\<open>stream.go\<close>), model chains
  (\<^verbatim>\<open>internal/domain/chain\<close>, \<^verbatim>\<open>internal/ingress/chain.go\<close>) and the token budget of reasoning models
  (\<^verbatim>\<open>internal/domain/reasoning\<close>). Providers, the client connection and the clock are functions on a
  world the handler threads through; what it does to breakers, event bus, metrics and the store
  of originals is explicit state. A panic is \<open>None\<close>. Log lines are not modelled.
\<close>

section \<open>Reasoning models\<close>

definition reasoningOverhead :: "(string \<times> float64) list" where
  "reasoningOverhead = [(''o3-mini'', 80 / 100), (''o3'', 90 / 100), (''o1-mini'', 75 / 100), (''o1'', 85 / 100),
     (''gemini-2.0-flash-thinking'', 85 / 100), (''gemini-2.5-flash-thinking'', 85 / 100),
     (''gemini-2.5-pro'', 80 / 100), (''deepseek-r1'', 82 / 100)]"

definition overhead_step :: "string \<Rightarrow> string \<times> float64 \<Rightarrow> string \<times> float64 \<Rightarrow> string \<times> float64" where
  "overhead_step lower best m =
     (if HasPrefix lower (fst m) \<and> length (fst m) > length (fst best) then m else best)"

definition overheadFor :: "string \<Rightarrow> float64" where
  "overheadFor model = snd (foldl (overhead_step (ToLower model)) ([], 0) reasoningOverhead)"

definition IsReasoningModel :: "string \<Rightarrow> bool" where
  "IsReasoningModel model \<longleftrightarrow> overheadFor model > 0"

definition maxAdjusted :: int where
  "maxAdjusted = 100000"

definition AdjustTokenBudget :: "RequestEnvelope \<Rightarrow> RequestEnvelope" where
  "AdjustTokenBudget req =
     (let overhead = overheadFor (req_Model req) in
      if overhead = 0 \<or> req_MaxTokens req \<le> 0 then req
      else let adjusted = go_trunc (real_of_int (req_MaxTokens req) / (1 - overhead) + 999 / 1000) in
        req\<lparr>req_MaxTokens := (if adjusted > maxAdjusted then maxAdjusted else adjusted)\<rparr>)"

section \<open>Chain registry\<close>

datatype Strategy = StrategySequential | StrategyFusion

record Chain =
  chain_Name :: string
  chain_Strategy :: Strategy
  chain_Models :: "string list"
  chain_Prompts :: "string list"
  chain_Judge :: string

record ChainDef =
  def_Strategy :: string
  def_Models :: "string list"
  def_Prompts :: "string list"
  def_Judge :: string

definition chain_error :: "string \<Rightarrow> string \<Rightarrow> goerror" where
  "chain_error name what = plain_error (''chain '' @ [CHR 0x22] @ name @ [CHR 0x22] @ '': '' @ what)"

text \<open>One round of the loop: the chain of a definition, or why it is refused.\<close>

definition build_chain :: "string \<Rightarrow> ChainDef \<Rightarrow> goerror + Chain" where
  "build_chain name d =
     (let strategy = (if def_Strategy d = [] then ''sequential'' else def_Strategy d);
          chain = (\<lambda>s. \<lparr>chain_Name = name, chain_Strategy = s, chain_Models = def_Models d,
                     chain_Prompts = def_Prompts d, chain_Judge = def_Judge d\<rparr>)
      in if strategy = ''sequential'' then
           (if def_Models d = [] then Inl (chain_error name ''must define at least one model'')
            else if length (def_Prompts d) \<noteq> length (def_Models d)
            then Inl (chain_error name (''models ('' @ Itoa (int (length (def_Models d))) @ '') and prompts ('' @
                   Itoa (int (length (def_Prompts d))) @ '') must be the same length''))
            else Inr (chain StrategySequential))
         else if strategy = ''fusion'' then
           (if length (def_Models d) < 2 then Inl (chain_error name ''fusion strategy needs at least 2 panel models'')
            else if def_Judge d = [] then Inl (chain_error name ''fusion strategy requires a judge model'')
            else Inr (chain StrategyFusion))
         else Inl (chain_error name (''unknown strategy '' @ [CHR 0x22] @ def_Strategy d @ [CHR 0x22] @ '' (want '' @ [CHR 0x22] @ ''sequential'' @
           [CHR 0x22] @ '' or '' @ [CHR 0x22] @ ''fusion'' @ [CHR 0x22] @ '')'')))"

text \<open>The definitions in the order the map is ranged over.\<close>

fun BuildRegistry :: "(string \<times> ChainDef) list \<Rightarrow> goerror + (string, Chain) gomap" where
  "BuildRegistry [] = Inr Map.empty"
| "BuildRegistry ((name, d) # defs) = (case build_chain name d of
      Inl err \<Rightarrow> Inl err
    | Inr c \<Rightarrow> (case BuildRegistry defs of Inl err \<Rightarrow> Inl err | Inr reg \<Rightarrow> Inr (reg(name \<mapsto> c))))"

section \<open>Server-sent events\<close>

definition writeSSEChunk :: "time \<Rightarrow> StreamChunk \<Rightarrow> json" where
  "writeSSEChunk now chunk = JObj [(''id'', JStr (chunk_ID chunk)), (''object'', JStr ''chat.completion.chunk''),
     (''created'', JInt (now div Second)), (''model'', JStr (chunk_Model chunk)),
     (''choices'', JArr [JObj [(''index'', JInt 0),
        (''delta'', JObj (omitempty ''role'' (msg_Role (chunk_Delta chunk)) @ omitempty ''content'' (msg_Content (chunk_Delta chunk)) @
           (if msg_ToolCalls (chunk_Delta chunk) = [] then []
            else [(''tool_calls'', JArr (map marshal_tool_call (msg_ToolCalls (chunk_Delta chunk))))]))),
        (''finish_reason'', if chunk_FinishReason chunk = [] then JNull else JStr (chunk_FinishReason chunk))]])]"

datatype sse_event = SSEData json | SSEDone

section \<open>Handler\<close>

datatype chat_reply = ErrorReply int string string | JsonReply ResponseEnvelope | StreamReply "sse_event list"

record metric =
  mt_provider :: string
  mt_model :: string
  mt_status :: int
  mt_latency :: duration
  mt_tokensIn :: int
  mt_tokensOut :: int

record ('w, 's) chat_state =
  cs_world :: 'w
  cs_cb :: "Registry option"
  cs_saves :: "(string \<times> State) list"
  cs_events :: "CallEvent list"
  cs_metrics :: "metric list"
  cs_store :: 's
  cs_shadows :: "(string \<times> string \<times> string \<times> RequestEnvelope) list"

text \<open>
  The handler's parts. \<open>h_now\<close> reads the clock of the world, \<open>h_write\<close> sends one chunk to the
  client, \<open>h_flusher\<close> says whether the response writer can stream, \<open>h_engine\<close> is \<^verbatim>\<open>Engine.Decide\<close>,
  \<open>h_retrieval\<close> is \<^verbatim>\<open>Store.Get\<close> at a time with the decoder of tool arguments.
\<close>

record ('p, 'w, 's) ChatHandler =
  h_router :: "'p lookup"
  h_name :: "'p \<Rightarrow> string"
  h_chat :: "('p, 'w) chat_fn"
  h_stream :: "('p, 'w) stream_fn"
  h_wait :: "'w wait_fn"
  h_now :: "'w \<Rightarrow> time"
  h_write :: "StreamChunk \<Rightarrow> 'w \<Rightarrow> goerror option \<times> 'w"
  h_flusher :: bool
  h_bus :: bool
  h_engine :: "(time \<Rightarrow> TaskHint \<Rightarrow> Registry option \<Rightarrow> (goerror + RoutingDecision) \<times> Registry option) option"
  h_retryCfg :: RetryConfig
  h_metrics :: bool
  h_chains :: "(string, Chain) gomap"
  h_retrieval :: "((time \<Rightarrow> string \<Rightarrow> 's \<Rightarrow> string option \<times> 's) \<times> (string \<Rightarrow> json option)) option"

text \<open>What the handler reads of the HTTP request: \<^verbatim>\<open>Header.Get\<close>, the caller, the decoded body.\<close>

record http_request =
  hr_method :: string
  hr_header :: "string \<Rightarrow> string"
  hr_identity :: "Identity option"
  hr_decoded :: "RequestEnvelope option"

definition shouldRecordOutcome :: "goerror option \<Rightarrow> bool" where
  "shouldRecordOutcome err = (case err of None \<Rightarrow> True | Some e \<Rightarrow> \<not> context_error e)"

definition is_allowed :: "('p, 'w, 's) ChatHandler \<Rightarrow> string \<Rightarrow> ('w, 's) chat_state \<Rightarrow> bool \<times> ('w, 's) chat_state" where
  "is_allowed h model st = (case cs_cb st of
      None \<Rightarrow> (True, st)
    | Some cb \<Rightarrow> (case Registry_IsAllowed (h_now h (cs_world st)) model cb of (ok, cb) \<Rightarrow> (ok, st\<lparr>cs_cb := Some cb\<rparr>)))"

definition record_outcome :: "('p, 'w, 's) ChatHandler \<Rightarrow> string \<Rightarrow> goerror option \<Rightarrow> ('w, 's) chat_state \<Rightarrow> ('w, 's) chat_state" where
  "record_outcome h model err st = (case cs_cb st of
      None \<Rightarrow> st
    | Some cb \<Rightarrow>
        if shouldRecordOutcome err
        then (case Registry_RecordOutcome (h_now h (cs_world st)) model (err = None) cb of
                (saves, cb) \<Rightarrow> st\<lparr>cs_cb := Some cb, cs_saves := cs_saves st @ saves\<rparr>)
        else st)"

definition record_metric :: "('p, 'w, 's) ChatHandler \<Rightarrow> metric \<Rightarrow> ('w, 's) chat_state \<Rightarrow> ('w, 's) chat_state" where
  "record_metric h m st = (if h_metrics h then st\<lparr>cs_metrics := cs_metrics st @ [m]\<rparr> else st)"

definition publish :: "('p, 'w, 's) ChatHandler \<Rightarrow> CallEvent \<Rightarrow> ('w, 's) chat_state \<Rightarrow> ('w, 's) chat_state" where
  "publish h ev st = (if h_bus h then st\<lparr>cs_events := cs_events st @ [ev]\<rparr> else st)"

definition provider_name :: "('p, 'w, 's) ChatHandler \<Rightarrow> 'p option \<Rightarrow> string" where
  "provider_name h p = (case p of None \<Rightarrow> [] | Some p \<Rightarrow> h_name h p)"

text \<open>The fields of an event that every path fills in the same way.\<close>

definition base_event :: "http_request \<Rightarrow> time \<Rightarrow> string \<Rightarrow> string \<Rightarrow> duration \<Rightarrow> RequestEnvelope \<Rightarrow> CallEvent" where
  "base_event r start prov model latency req =
     (let i = FromContext (hr_identity r) in
      zero_event\<lparr>ev_Timestamp := start, ev_Provider := prov, ev_Model := model, ev_Latency := latency,
        ev_Request := req, ev_UseCaseID := hr_header r ''X-IXR-UseCase'', ev_TenantID := TenantID i,
        ev_TeamID := TeamID i, ev_UserID := UserID i\<rparr>)"

definition answered_event :: "string \<Rightarrow> ResponseEnvelope \<Rightarrow> CallEvent \<Rightarrow> CallEvent" where
  "answered_event model resp ev = ev\<lparr>ev_ID := resp_ID resp, ev_TokensIn := PromptTokens (resp_Usage resp),
     ev_TokensOut := CompletionTokens (resp_Usage resp), ev_Response := resp, ev_Cost := ForUsage model (resp_Usage resp)\<rparr>"

section \<open>Chains\<close>

datatype step_error = CircuitOpen | StepError goerror

record stepResult =
  sr_model :: string
  sr_outcome :: "step_error + ResponseEnvelope"

text \<open>
  A success without a response is a nil dereference; only a retry configuration without
  attempts gives one.
\<close>

definition runChainStep :: "('p, 'w, 's) ChatHandler \<Rightarrow> http_request \<Rightarrow> string \<Rightarrow> Message list \<Rightarrow> ('w, 's) chat_state \<Rightarrow>
    (stepResult \<times> ('w, 's) chat_state) option" where
  "runChainStep h r model stepMessages st =
     (let stepReq = zero_request\<lparr>req_Model := model, req_Messages := stepMessages\<rparr> in
      case is_allowed h model st of
        (False, st) \<Rightarrow> Some (\<lparr>sr_model = model, sr_outcome = Inl CircuitOpen\<rparr>, st)
      | (True, st) \<Rightarrow>
          let start = h_now h (cs_world st) in
          (case Execute (h_chat h) (h_wait h) \<lparr>rd_Provider = [], rd_Model = model, rd_FallbackChain = []\<rparr>
                  (AdjustTokenBudget stepReq) (h_router h) (h_retryCfg h) (cs_world st) of
             ((result, err), w) \<Rightarrow>
               let st = record_outcome h model err (st\<lparr>cs_world := w\<rparr>);
                   latency = h_now h w - start;
                   prov = provider_name h (er_Provider result);
                   ev = base_event r start prov model latency stepReq
               in (case (err, er_Response result) of
                     (Some e, _) \<Rightarrow>
                       Some (\<lparr>sr_model = model, sr_outcome = Inl (StepError e)\<rparr>,
                         publish h (ev\<lparr>ev_Error := err_msg e\<rparr>)
                           (record_metric h \<lparr>mt_provider = prov, mt_model = model, mt_status = 502, mt_latency = latency,
                              mt_tokensIn = 0, mt_tokensOut = 0\<rparr> st))
                   | (None, None) \<Rightarrow> None
                   | (None, Some resp) \<Rightarrow>
                       Some (\<lparr>sr_model = model, sr_outcome = Inr resp\<rparr>,
                         publish h (answered_event model resp ev)
                           (record_metric h \<lparr>mt_provider = prov, mt_model = model, mt_status = 200, mt_latency = latency,
                              mt_tokensIn = PromptTokens (resp_Usage resp),
                              mt_tokensOut = CompletionTokens (resp_Usage resp)\<rparr> st)))))"

text \<open>The callback of a stream: the usage last reported and the events written.\<close>

record sse_state =
  ss_usage :: Usage
  ss_out :: "sse_event list"

definition onChunk :: "('p, 'w, 's) ChatHandler \<Rightarrow> (StreamChunk \<Rightarrow> StreamChunk) \<Rightarrow> ('w \<times> sse_state) sink_fn" where
  "onChunk h relabel chunk ws = (case ws of (w, s) \<Rightarrow>
     (let s = (case chunk_Usage chunk of None \<Rightarrow> s | Some u \<Rightarrow> s\<lparr>ss_usage := u\<rparr>);
          chunk = relabel chunk
      in case h_write h chunk w of
           (Some e, w) \<Rightarrow> (Some e, (w, s))
         | (None, w) \<Rightarrow> (None, (w, s\<lparr>ss_out := ss_out s @ [SSEData (writeSSEChunk (h_now h w) chunk)]\<rparr>))))"

definition lift_stream :: "('p, 'w) stream_fn \<Rightarrow> ('p, 'w \<times> 'l) stream_fn" where
  "lift_stream stream p req ws = (case ws of (w, s) \<Rightarrow> (case stream p req w of (x, w) \<Rightarrow> (x, (w, s))))"

definition lift_wait :: "'w wait_fn \<Rightarrow> ('w \<times> 'l) wait_fn" where
  "lift_wait wait t ws = (case ws of (w, s) \<Rightarrow> (case wait t w of (x, w) \<Rightarrow> (x, (w, s))))"

definition empty_stream :: sse_state where
  "empty_stream = \<lparr>ss_usage = zero_usage, ss_out = []\<rparr>"

definition streamed_event :: "string \<Rightarrow> sse_state \<Rightarrow> goerror option \<Rightarrow> CallEvent \<Rightarrow> CallEvent" where
  "streamed_event model s err ev =
     (let ev = ev\<lparr>ev_TokensIn := PromptTokens (ss_usage s), ev_TokensOut := CompletionTokens (ss_usage s), ev_Streaming := True\<rparr>
      in case err of Some e \<Rightarrow> ev\<lparr>ev_Error := err_msg e\<rparr>
         | None \<Rightarrow> ev\<lparr>ev_Cost := ForUsage model ((ss_usage s)\<lparr>TotalTokens := 0\<rparr>)\<rparr>)"

definition circuit_open_reply :: "string \<Rightarrow> chat_reply" where
  "circuit_open_reply model = ErrorReply 503 ''circuit_open'' (''chain step for model '' @ model @ '' unavailable (circuit breaker open)'')"

definition streamChainStep :: "('p, 'w, 's) ChatHandler \<Rightarrow> http_request \<Rightarrow> string \<Rightarrow> string \<Rightarrow> Message list \<Rightarrow>
    ('w, 's) chat_state \<Rightarrow> chat_reply \<times> ('w, 's) chat_state" where
  "streamChainStep h r chainName model stepMessages st =
     (if \<not> h_flusher h then (ErrorReply 500 ''streaming_error'' ''server does not support streaming'', st)
      else case is_allowed h model st of
        (False, st) \<Rightarrow> (circuit_open_reply model, st)
      | (True, st) \<Rightarrow>
          let start = h_now h (cs_world st);
              stepReq = zero_request\<lparr>req_Model := model, req_Messages := stepMessages\<rparr>
          in (case ExecuteStream (lift_stream (h_stream h)) (onChunk h (\<lambda>c. c\<lparr>chunk_Model := chainName\<rparr>)) (lift_wait (h_wait h))
                     \<lparr>rd_Provider = [], rd_Model = model, rd_FallbackChain = []\<rparr> (AdjustTokenBudget stepReq) (h_router h)
                     (h_retryCfg h) (cs_world st, empty_stream) of
                ((result, err), (w, s)) \<Rightarrow>
                  let st = record_outcome h model err (st\<lparr>cs_world := w\<rparr>);
                      latency = h_now h w - start;
                      prov = provider_name h (er_Provider result);
                      st = record_metric h \<lparr>mt_provider = prov, mt_model = model, mt_status = (if err = None then 200 else 502),
                             mt_latency = latency, mt_tokensIn = PromptTokens (ss_usage s),
                             mt_tokensOut = CompletionTokens (ss_usage s)\<rparr> st
                  in (StreamReply (ss_out s @ [SSEDone]),
                      publish h (streamed_event model s err (base_event r start prov model latency stepReq)) st)))"

definition writeChainStepError :: "string \<Rightarrow> step_error \<Rightarrow> chat_reply" where
  "writeChainStepError model err = (case err of
      CircuitOpen \<Rightarrow> circuit_open_reply model
    | StepError _ \<Rightarrow> ErrorReply 502 ''chain_step_failed''
        (''chain step for model '' @ model @ '' failed: upstream provider returned an error''))"

text \<open>The first choice of a response: indexing an empty list panics.\<close>

definition first_content :: "ResponseEnvelope \<Rightarrow> string option" where
  "first_content resp = (case resp_Choices resp of [] \<Rightarrow> None | c # _ \<Rightarrow> Some (msg_Content (ch_Message c)))"

definition step_messages :: "Message list \<Rightarrow> ResponseEnvelope option \<Rightarrow> string \<Rightarrow> Message list option" where
  "step_messages base prev prompt =
     (let asked = (if prompt = [] then [] else [text_message ''user'' prompt]) in
      case prev of
        None \<Rightarrow> Some (base @ asked)
      | Some resp \<Rightarrow> (case first_content resp of
          None \<Rightarrow> None
        | Some c \<Rightarrow> Some (base @ [text_message ''assistant'' c] @ asked)))"

text \<open>The loop over the steps; indexing \<^verbatim>\<open>Prompts\<close> beyond its end panics.\<close>

fun sequential_loop :: "('p, 'w, 's) ChatHandler \<Rightarrow> http_request \<Rightarrow> string \<Rightarrow> bool \<Rightarrow> Message list \<Rightarrow> ResponseEnvelope option \<Rightarrow>
    string list \<Rightarrow> string list \<Rightarrow> ('w, 's) chat_state \<Rightarrow> (chat_reply \<times> ('w, 's) chat_state) option" where
  "sequential_loop h r name stream base prev [] prompts st =
     (case prev of None \<Rightarrow> None | Some resp \<Rightarrow> Some (JsonReply (resp\<lparr>resp_Model := name\<rparr>), st))"
| "sequential_loop h r name stream base prev (model # models) [] st = None"
| "sequential_loop h r name stream base prev (model # models) (prompt # prompts) st =
     (case step_messages base prev prompt of
        None \<Rightarrow> None
      | Some msgs \<Rightarrow>
          if models = [] \<and> stream then Some (streamChainStep h r name model msgs st)
          else (case runChainStep h r model msgs st of
              None \<Rightarrow> None
            | Some (res, st) \<Rightarrow>
                (case sr_outcome res of
                   Inl err \<Rightarrow> Some (writeChainStepError model err, st)
                 | Inr resp \<Rightarrow> sequential_loop h r name stream base (Some resp) models prompts st)))"

definition handleSequentialChain :: "('p, 'w, 's) ChatHandler \<Rightarrow> http_request \<Rightarrow> Chain \<Rightarrow> RequestEnvelope \<Rightarrow>
    ('w, 's) chat_state \<Rightarrow> (chat_reply \<times> ('w, 's) chat_state) option" where
  "handleSequentialChain h r c req st =
     sequential_loop h r (chain_Name c) (req_Stream req) (req_Messages req) None (chain_Models c) (chain_Prompts c) st"

text \<open>The panel runs in parallel: \<open>ord\<close> is the order in which the members finish.\<close>

fun fusion_panel :: "('p, 'w, 's) ChatHandler \<Rightarrow> http_request \<Rightarrow> Message list \<Rightarrow> string list \<Rightarrow> nat list \<Rightarrow> (nat, stepResult) gomap \<Rightarrow>
    ('w, 's) chat_state \<Rightarrow> ((nat, stepResult) gomap \<times> ('w, 's) chat_state) option" where
  "fusion_panel h r base models [] results st = Some (results, st)"
| "fusion_panel h r base models (i # ord) results st = (case runChainStep h r (models ! i) base st of
      None \<Rightarrow> None
    | Some (res, st) \<Rightarrow> fusion_panel h r base models ord (results(i \<mapsto> res)) st)"

definition judge_intro :: string where
  "judge_intro = ''You were given independent candidate answers from different models to the preceding request. Synthesize a single best final answer, combining their strengths and resolving any disagreements between them.'' @ nl @ nl"

fun candidates_text :: "stepResult list \<Rightarrow> string option" where
  "candidates_text [] = Some []"
| "candidates_text (res # results) = (case sr_outcome res of
      Inl err \<Rightarrow> candidates_text results
    | Inr resp \<Rightarrow> (case (first_content resp, candidates_text results) of
        (Some c, Some rest) \<Rightarrow> Some (''Candidate ('' @ sr_model res @ ''):'' @ nl @ c @ nl @ nl @ rest)
      | _ \<Rightarrow> None))"

definition buildJudgeMessages :: "Message list \<Rightarrow> stepResult list \<Rightarrow> Message list option" where
  "buildJudgeMessages original results =
     map_option (\<lambda>t. original @ [text_message ''user'' (judge_intro @ t)]) (candidates_text results)"

definition panel_results :: "string list \<Rightarrow> (nat, stepResult) gomap \<Rightarrow> stepResult list" where
  "panel_results models results =
     map (\<lambda>i. gomap_get \<lparr>sr_model = [], sr_outcome = Inr zero_response\<rparr> results i) [0..<length models]"

definition handleFusionChain :: "nat list \<Rightarrow> ('p, 'w, 's) ChatHandler \<Rightarrow> http_request \<Rightarrow> Chain \<Rightarrow> RequestEnvelope \<Rightarrow>
    ('w, 's) chat_state \<Rightarrow> (chat_reply \<times> ('w, 's) chat_state) option" where
  "handleFusionChain ord h r c req st =
     (case fusion_panel h r (req_Messages req) (chain_Models c) ord Map.empty st of
        None \<Rightarrow> None
      | Some (results, st) \<Rightarrow>
          let results = panel_results (chain_Models c) results in
          if list_all (\<lambda>res. isl (sr_outcome res)) results
          then Some (ErrorReply 502 ''fusion_panel_failed'' (''all fusion panel models failed for chain '' @ chain_Name c), st)
          else (case buildJudgeMessages (req_Messages req) results of
              None \<Rightarrow> None
            | Some msgs \<Rightarrow>
                if req_Stream req then Some (streamChainStep h r (chain_Name c) (chain_Judge c) msgs st)
                else (case runChainStep h r (chain_Judge c) msgs st of
                    None \<Rightarrow> None
                  | Some (res, st) \<Rightarrow>
                      (case sr_outcome res of
                         Inl err \<Rightarrow> Some (writeChainStepError (chain_Judge c) err, st)
                       | Inr resp \<Rightarrow> Some (JsonReply (resp\<lparr>resp_Model := chain_Name c\<rparr>), st)))))"

definition handleChain :: "nat list \<Rightarrow> ('p, 'w, 's) ChatHandler \<Rightarrow> http_request \<Rightarrow> Chain \<Rightarrow> RequestEnvelope \<Rightarrow>
    ('w, 's) chat_state \<Rightarrow> (chat_reply \<times> ('w, 's) chat_state) option" where
  "handleChain ord h r c req st = (case chain_Strategy c of
      StrategyFusion \<Rightarrow> handleFusionChain ord h r c req st
    | StrategySequential \<Rightarrow> handleSequentialChain h r c req st)"

section \<open>Chat completions\<close>

definition promptCharsFromMessages :: "RequestEnvelope \<Rightarrow> int" where
  "promptCharsFromMessages req = sum_list (map (\<lambda>m. int (length (msg_Content m)) +
     sum_list (map (\<lambda>tc. int (length (tc_ID tc) + length (tc_Type tc) + length (tf_Name (tc_Function tc)) +
       length (tf_Arguments (tc_Function tc)))) (msg_ToolCalls m))) (req_Messages req))"

text \<open>\<^verbatim>\<open>strconv.ParseFloat\<close> is an argument.\<close>

definition taskHintFromHeaders :: "(string \<Rightarrow> float64 option) \<Rightarrow> http_request \<Rightarrow> RequestEnvelope \<Rightarrow> TaskHint" where
  "taskHintFromHeaders parseFloat r req =
     (let task = ToLower (TrimSpace (hr_header r ''X-IXR-Task''));
          budget = TrimSpace (hr_header r ''X-IXR-Budget'')
      in \<lparr>hint_PromptChars = promptCharsFromMessages req,
          hint_ReasoningScore = (if task = ''reasoning'' then 1 else 0),
          hint_CodingScore = (if task = ''coding'' then 1 else 0),
          hint_MathScore = (if task = ''math'' then 1 else 0),
          hint_MultilingualScore = (if task = ''multilingual'' then 1 else 0),
          hint_LatencySensitive = (ToLower (TrimSpace (hr_header r ''X-IXR-Latency'')) = ''sensitive''),
          hint_MaxCostUSDPer1M = (if budget = [] then 0 else case parseFloat budget of None \<Rightarrow> 0 | Some f \<Rightarrow> f),
          hint_Tenant = []\<rparr>)"

definition add_usage :: "Usage \<Rightarrow> ResponseEnvelope \<Rightarrow> ResponseEnvelope" where
  "add_usage u final = final\<lparr>resp_Usage := (resp_Usage final)\<lparr>
     PromptTokens := PromptTokens (resp_Usage final) + PromptTokens u,
     CompletionTokens := CompletionTokens (resp_Usage final) + CompletionTokens u,
     TotalTokens := TotalTokens (resp_Usage final) + TotalTokens u\<rparr>\<rparr>"

definition resolveRetrieval :: "('p, 'w, 's) ChatHandler \<Rightarrow> (time \<Rightarrow> string \<Rightarrow> 's \<Rightarrow> string option \<times> 's) \<Rightarrow> (string \<Rightarrow> json option) \<Rightarrow>
    'p \<Rightarrow> RequestEnvelope \<Rightarrow> ResponseEnvelope \<Rightarrow> ('w, 's) chat_state \<Rightarrow> (goerror + ResponseEnvelope) \<times> ('w, 's) chat_state" where
  "resolveRetrieval h get unmarshal p req resp st = (case resp_Choices resp of
      [] \<Rightarrow> (Inr resp, st)
    | choice # _ \<Rightarrow>
        (case FindCall (msg_ToolCalls (ch_Message choice)) of
           None \<Rightarrow> (Inr resp, st)
         | Some call \<Rightarrow>
             (case ParseArgs unmarshal (tf_Arguments (tc_Function call)) of
                None \<Rightarrow> (Inr resp, st)
              | Some key \<Rightarrow>
                  (case get (h_now h (cs_world st)) key (cs_store st) of (found, store) \<Rightarrow>
                     let content = (case found of
                             None \<Rightarrow> ''This content is no longer available (expired or evicted). Answer with what you already have.''
                           | Some c \<Rightarrow> c);
                         expanded = req\<lparr>req_Messages := req_Messages req @ [ch_Message choice,
                           (text_message ''tool'' content)\<lparr>msg_ToolCallID := tc_ID call\<rparr>]\<rparr>
                     in (case h_chat h p expanded (cs_world st) of
                           (Inl err, w) \<Rightarrow> (Inl err, st\<lparr>cs_store := store, cs_world := w\<rparr>)
                         | (Inr final, w) \<Rightarrow> (Inr (add_usage (resp_Usage resp) final), st\<lparr>cs_store := store, cs_world := w\<rparr>))))))"

definition resolve_answer :: "('p, 'w, 's) ChatHandler \<Rightarrow> 'p \<Rightarrow> RequestEnvelope \<Rightarrow> goerror + ResponseEnvelope option \<Rightarrow>
    ('w, 's) chat_state \<Rightarrow> (goerror + ResponseEnvelope option) \<times> ('w, 's) chat_state" where
  "resolve_answer h p req out st = (case (out, h_retrieval h) of
      (Inr (Some resp), Some (get, unmarshal)) \<Rightarrow>
        (case resolveRetrieval h get unmarshal p req resp st of (out, st) \<Rightarrow>
           ((case out of Inl e \<Rightarrow> Inl e | Inr resp \<Rightarrow> Inr (Some resp)), st))
    | _ \<Rightarrow> (out, st))"

text \<open>Routing: the model to ask first and the fallback chain, or the error reply.\<close>

definition route_request :: "(string \<Rightarrow> float64 option) \<Rightarrow> ('p, 'w, 's) ChatHandler \<Rightarrow> http_request \<Rightarrow> RequestEnvelope \<Rightarrow>
    ('w, 's) chat_state \<Rightarrow> (chat_reply + RequestEnvelope \<times> Candidate list) \<times> ('w, 's) chat_state" where
  "route_request parseFloat h r req st =
     (let hint = taskHintFromHeaders parseFloat r req in
      if req_Model req = ''auto'' then
        (case h_engine h of
           Some decide \<Rightarrow>
             (case decide (h_now h (cs_world st)) hint (cs_cb st) of (decision, cb) \<Rightarrow>
                let st = st\<lparr>cs_cb := cb\<rparr> in
                (case decision of
                   Inl err \<Rightarrow> (Inl (ErrorReply 400 ''auto_route_failed'' ''no catalog model matched the given constraints''), st)
                 | Inr d \<Rightarrow> if rd_Model d = []
                     then (Inl (ErrorReply 400 ''auto_route_failed'' ''no catalog model matched the given constraints''), st)
                     else (Inr (req\<lparr>req_Model := rd_Model d\<rparr>, rd_FallbackChain d), st)))
         | None \<Rightarrow>
             let d = RouteWithDecision hint in
             if rd_Model d = []
             then (Inl (ErrorReply 400 ''auto_route_failed'' ''no catalog model matched the given budget and task constraints''), st)
             else (Inr (req\<lparr>req_Model := rd_Model d\<rparr>, rd_FallbackChain d), st))
      else if Lookup (req_Model req) \<noteq> None
      then (Inr (req, FallbackChainFor (req_Model req) hint 3), st)
      else (Inr (req, []), st))"

text \<open>One call or one walk of the fallback chain: the answer, the provider and the result.\<close>

definition direct_result :: "string \<Rightarrow> 'p ExecuteResult" where
  "direct_result model = \<lparr>er_Response = None, er_Provider = None, er_Model = model, er_FallbackUsed = False,
     er_FallbackFrom = [], er_Attempts = 0\<rparr>"

definition call_provider :: "('p, 'w, 's) ChatHandler \<Rightarrow> 'p \<Rightarrow> RequestEnvelope \<Rightarrow> Candidate list \<Rightarrow> 'w \<Rightarrow>
    ((goerror + ResponseEnvelope option) \<times> 'p \<times> 'p ExecuteResult) \<times> 'w" where
  "call_provider h p req fallbackChain w =
     (if fallbackChain \<noteq> [] then
        (case Execute (h_chat h) (h_wait h) \<lparr>rd_Provider = [], rd_Model = req_Model req, rd_FallbackChain = fallbackChain\<rparr>
                (AdjustTokenBudget req) (h_router h) (h_retryCfg h) w of
           ((result, err), w) \<Rightarrow>
             (((case err of Some e \<Rightarrow> Inl e | None \<Rightarrow> Inr (er_Response result)),
               (case er_Provider result of None \<Rightarrow> p | Some q \<Rightarrow> q), result), w))
      else (case h_chat h p (AdjustTokenBudget req) w of (out, w) \<Rightarrow>
        (((case out of Inl e \<Rightarrow> Inl e | Inr resp \<Rightarrow> Inr (Some resp)), p, direct_result (req_Model req)), w)))"

definition used_model :: "RequestEnvelope \<Rightarrow> 'p ExecuteResult \<Rightarrow> string" where
  "used_model req result = (if er_Model result \<noteq> [] then er_Model result else req_Model req)"

definition start_shadow :: "('p, 'w, 's) ChatHandler \<Rightarrow> http_request \<Rightarrow> string \<Rightarrow> RequestEnvelope \<Rightarrow> ('w, 's) chat_state \<Rightarrow> ('w, 's) chat_state" where
  "start_shadow h r primaryID req st =
     (let shadowModel = hr_header r ''X-IXR-Shadow-Model'' in
      if h_bus h \<and> shadowModel \<noteq> [] \<and> shadowModel \<noteq> req_Model req
      then st\<lparr>cs_shadows := cs_shadows st @ [(primaryID, req_Model req, shadowModel, req)]\<rparr> else st)"

text \<open>The non-streaming path from the breaker check on.\<close>

definition answer_request :: "('p, 'w, 's) ChatHandler \<Rightarrow> http_request \<Rightarrow> bool \<Rightarrow> 'p \<Rightarrow> RequestEnvelope \<Rightarrow> Candidate list \<Rightarrow>
    ('w, 's) chat_state \<Rightarrow> (chat_reply \<times> ('w, 's) chat_state) option" where
  "answer_request h r autoRouted p req fallbackChain st =
     (case is_allowed h (req_Model req) st of
        (False, st) \<Rightarrow> Some (ErrorReply 503 ''circuit_open'' ''model temporarily unavailable (circuit breaker open)'', st)
      | (True, st) \<Rightarrow>
          let start = h_now h (cs_world st) in
          (case call_provider h p req fallbackChain (cs_world st) of ((out, p, result), w) \<Rightarrow>
             let st = st\<lparr>cs_world := w\<rparr> in
             (case resolve_answer h p req out st of (out, st) \<Rightarrow>
                let latency = h_now h (cs_world st) - start;
                    model = used_model req result;
                    prov = h_name h p;
                    ev = (base_event r start prov model latency req)\<lparr>ev_AutoRouted := autoRouted\<rparr>;
                    st = record_outcome h (req_Model req) (case out of Inl e \<Rightarrow> Some e | Inr _ \<Rightarrow> None) st
                in (case out of
                      Inl e \<Rightarrow>
                        Some (ErrorReply 502 ''provider_error'' ''upstream provider returned an error'',
                          start_shadow h r [] req
                            (publish h (ev\<lparr>ev_Error := err_msg e\<rparr>)
                              (record_metric h \<lparr>mt_provider = prov, mt_model = model, mt_status = 502, mt_latency = latency,
                                 mt_tokensIn = 0, mt_tokensOut = 0\<rparr> st)))
                    | Inr None \<Rightarrow> None
                    | Inr (Some resp) \<Rightarrow>
                        Some (JsonReply resp,
                          start_shadow h r (resp_ID resp) req
                            (publish h ((answered_event model resp ev)\<lparr>ev_FallbackUsed := er_FallbackUsed result,
                                ev_FallbackFrom := er_FallbackFrom result\<rparr>)
                              (record_metric h \<lparr>mt_provider = prov, mt_model = model, mt_status = 200, mt_latency = latency,
                                 mt_tokensIn = PromptTokens (resp_Usage resp),
                                 mt_tokensOut = CompletionTokens (resp_Usage resp)\<rparr> st)))))))"

definition stream_provider :: "('p, 'w, 's) ChatHandler \<Rightarrow> 'p \<Rightarrow> RequestEnvelope \<Rightarrow> Candidate list \<Rightarrow> 'w \<Rightarrow>
    ((goerror option \<times> 'p \<times> 'p ExecuteResult) \<times> 'w \<times> sse_state)" where
  "stream_provider h p req fallbackChain w =
     (if fallbackChain \<noteq> [] then
        (case ExecuteStream (lift_stream (h_stream h)) (onChunk h (\<lambda>c. c)) (lift_wait (h_wait h))
                \<lparr>rd_Provider = [], rd_Model = req_Model req, rd_FallbackChain = fallbackChain\<rparr>
                (AdjustTokenBudget req) (h_router h) (h_retryCfg h) (w, empty_stream) of
           ((result, err), ws) \<Rightarrow> ((err, (case er_Provider result of None \<Rightarrow> p | Some q \<Rightarrow> q), result), ws))
      else (case stream_once (lift_stream (h_stream h)) (onChunk h (\<lambda>c. c)) p (AdjustTokenBudget req) (w, empty_stream) of
           ((_, err), ws) \<Rightarrow> ((err, p, direct_result (req_Model req)), ws)))"

definition handleStream :: "('p, 'w, 's) ChatHandler \<Rightarrow> http_request \<Rightarrow> 'p \<Rightarrow> RequestEnvelope \<Rightarrow> bool \<Rightarrow> Candidate list \<Rightarrow>
    ('w, 's) chat_state \<Rightarrow> chat_reply \<times> ('w, 's) chat_state" where
  "handleStream h r p req autoRouted fallbackChain st =
     (if \<not> h_flusher h then (ErrorReply 500 ''streaming_error'' ''server does not support streaming'', st)
      else case is_allowed h (req_Model req) st of
        (False, st) \<Rightarrow> (ErrorReply 503 ''circuit_open'' ''model temporarily unavailable (circuit breaker open)'', st)
      | (True, st) \<Rightarrow>
          let start = h_now h (cs_world st) in
          (case stream_provider h p req fallbackChain (cs_world st) of ((err, p, result), w, s) \<Rightarrow>
             let st = record_outcome h (req_Model req) err (st\<lparr>cs_world := w\<rparr>);
                 latency = h_now h w - start;
                 model = used_model req result;
                 prov = h_name h p;
                 st = record_metric h \<lparr>mt_provider = prov, mt_model = model, mt_status = (if err = None then 200 else 502),
                        mt_latency = latency, mt_tokensIn = PromptTokens (ss_usage s),
                        mt_tokensOut = CompletionTokens (ss_usage s)\<rparr> st;
                 ev = streamed_event model s err ((base_event r start prov model latency req)\<lparr>ev_AutoRouted := autoRouted\<rparr>);
                 ev = (if err = None then ev\<lparr>ev_FallbackUsed := er_FallbackUsed result, ev_FallbackFrom := er_FallbackFrom result\<rparr> else ev)
             in (StreamReply (ss_out s @ [SSEDone]), publish h ev st)))"

definition ChatHandler_ServeHTTP :: "(string \<Rightarrow> float64 option) \<Rightarrow> nat list \<Rightarrow> ('p, 'w, 's) ChatHandler \<Rightarrow> http_request \<Rightarrow>
    ('w, 's) chat_state \<Rightarrow> (chat_reply \<times> ('w, 's) chat_state) option" where
  "ChatHandler_ServeHTTP parseFloat ord h r st =
     (if hr_method r \<noteq> ''POST'' then Some (ErrorReply 405 ''method_not_allowed'' ''only POST is supported'', st)
      else case hr_decoded r of
        None \<Rightarrow> Some (ErrorReply 400 ''invalid_request_body'' ''could not parse request JSON'', st)
      | Some req \<Rightarrow>
          if req_Model req = [] then Some (ErrorReply 400 ''missing_model'' ''model field is required'', st)
          else if req_Messages req = []
          then Some (ErrorReply 400 ''missing_messages'' ''messages field must contain at least one message'', st)
          else (case h_chains h (req_Model req) of
              Some c \<Rightarrow> handleChain ord h r c req st
            | None \<Rightarrow>
                (case route_request parseFloat h r req st of
                   (Inl reply, st) \<Rightarrow> Some (reply, st)
                 | (Inr (routed, fallbackChain), st) \<Rightarrow>
                     (case h_router h (req_Model routed) of
                        Inl err \<Rightarrow> Some (ErrorReply 400 ''no_provider'' (err_msg err), st)
                      | Inr p \<Rightarrow>
                          let autoRouted = (req_Model req = ''auto'') in
                          if req_Stream routed then Some (handleStream h r p routed autoRouted fallbackChain st)
                          else answer_request h r autoRouted p routed fallbackChain st))))"

text \<open>The shadow call, in a goroutine of its own: the event it publishes and what it records.\<close>

definition runShadow :: "('p, 'w, 's) ChatHandler \<Rightarrow> http_request \<Rightarrow> RewardWeights \<Rightarrow> (string \<Rightarrow> float64 \<Rightarrow> 'b \<Rightarrow> 'b) option \<Rightarrow> bool \<Rightarrow>
    string \<times> string \<times> string \<times> RequestEnvelope \<Rightarrow> ('w, 's) chat_state \<Rightarrow> perf_store \<times> 'b \<Rightarrow> ('w, 's) chat_state \<times> (perf_store \<times> 'b)" where
  "runShadow h r weights update hasShadow job st learned = (case job of (primaryID, primaryModel, shadowModel, req) \<Rightarrow>
     let shadowReq = req\<lparr>req_Model := shadowModel\<rparr>;
         start = h_now h (cs_world st);
         meta = \<lparr>PrimaryID = primaryID, PrimaryModel = primaryModel, ShadowModel = shadowModel\<rparr>
     in (case h_router h shadowModel of
           Inl err \<Rightarrow>
             (publish h ((base_event r start [] shadowModel (h_now h (cs_world st) - start) shadowReq)\<lparr>
                ev_Shadow := Some meta, ev_Error := err_msg err\<rparr>) st, learned)
         | Inr sp \<Rightarrow>
             (case h_chat h sp (AdjustTokenBudget shadowReq) (cs_world st) of (out, w) \<Rightarrow>
                let latency = h_now h w - start;
                    ev = (base_event r start (h_name h sp) shadowModel latency shadowReq)\<lparr>ev_Shadow := Some meta\<rparr>;
                    st = st\<lparr>cs_world := w\<rparr>
                in (case out of
                      Inl err \<Rightarrow>
                        (publish h (ev\<lparr>ev_Error := err_msg err\<rparr>) st,
                         if hasShadow then Orchestrator_Record weights update (h_now h w) shadowModel False latency [] learned else learned)
                    | Inr resp \<Rightarrow>
                        (publish h (answered_event shadowModel resp ev) st,
                         if hasShadow then Orchestrator_Record weights update (h_now h w) shadowModel True latency (resp_Choices resp) learned
                         else learned)))))"

section \<open>Reasoning budget\<close>

lemma overhead_fold_mem:
  "snd (foldl (overhead_step lower) best ms) \<in> insert (snd best) (snd ` set ms)"
proof (induction ms arbitrary: best)
  case (Cons m ms)
  have "snd (overhead_step lower best m) \<in> {snd best, snd m}" by (simp add: overhead_step_def)
  with Cons [of "overhead_step lower best m"] show ?case by auto
qed simp

lemma overheadFor_values: "overheadFor model \<in> {0, 80 / 100, 90 / 100, 75 / 100, 85 / 100, 82 / 100}"
  using overhead_fold_mem [of "ToLower model" "([], 0)" reasoningOverhead]
  by (auto simp: overheadFor_def reasoningOverhead_def)

lemma overhead_ninths:
  assumes "overheadFor model \<noteq> 0"
  shows "\<exists>k. real_of_int n / (1 - overheadFor model) = real_of_int (n * k) / 9"
proof -
  have "\<exists>k. 9 / (1 - overheadFor model) = real_of_int k"
  proof -
    have *: "(9 :: real) / (1 - 80 / 100) = real_of_int 45" "(9 :: real) / (1 - 90 / 100) = real_of_int 90"
      "(9 :: real) / (1 - 75 / 100) = real_of_int 36" "(9 :: real) / (1 - 85 / 100) = real_of_int 60"
      "(9 :: real) / (1 - 82 / 100) = real_of_int 50"
      by simp_all
    show ?thesis
      using overheadFor_values [of model] assms by (elim insertE emptyE) (simp, (metis *)+)
  qed
  then obtain k where k: "9 / (1 - overheadFor model) = real_of_int k" by blast
  have "x / d = x * (9 / d) / 9" for x d :: real by simp
  then have "real_of_int n / (1 - overheadFor model) = real_of_int n * (9 / (1 - overheadFor model)) / 9" .
  then have "real_of_int n / (1 - overheadFor model) = real_of_int (n * k) / 9" unfolding k by simp
  then show ?thesis by blast
qed

lemma floor_ceiling_ninths: "\<lfloor>real_of_int k / 9 + 999 / 1000\<rfloor> = \<lceil>real_of_int k / 9\<rceil>"
proof -
  define c where "c = \<lceil>real_of_int k / 9\<rceil>"
  have c: "real_of_int c - 1 < real_of_int k / 9" "real_of_int k / 9 \<le> real_of_int c"
    unfolding c_def by linarith+
  then have "real_of_int (9 * (c - 1)) < real_of_int k" by simp
  then have "9 * (c - 1) + 1 \<le> k" unfolding of_int_less_iff by linarith
  then have "real_of_int (9 * (c - 1) + 1) \<le> real_of_int k" unfolding of_int_le_iff .
  then have "real_of_int c \<le> real_of_int k / 9 + 999 / 1000" "real_of_int k / 9 + 999 / 1000 < real_of_int c + 1"
    using c by simp_all
  then show ?thesis unfolding c_def [symmetric] by (simp add: floor_eq_iff)
qed

lemma AdjustTokenBudget_eq:
  "AdjustTokenBudget req = req\<lparr>req_MaxTokens :=
     (if IsReasoningModel (req_Model req) \<and> 0 < req_MaxTokens req
      then min maxAdjusted \<lceil>real_of_int (req_MaxTokens req) / (1 - overheadFor (req_Model req))\<rceil>
      else req_MaxTokens req)\<rparr>"
proof -
  have pos: "IsReasoningModel (req_Model req) \<longleftrightarrow> overheadFor (req_Model req) \<noteq> 0"
    using overheadFor_values [of "req_Model req"] by (auto simp: IsReasoningModel_def)
  show ?thesis
  proof (cases "IsReasoningModel (req_Model req) \<and> 0 < req_MaxTokens req")
    case True
    then obtain k where k: "real_of_int (req_MaxTokens req) / (1 - overheadFor (req_Model req)) = real_of_int k / 9"
      using overhead_ninths pos by metis
    have "0 \<le> real_of_int (req_MaxTokens req) / (1 - overheadFor (req_Model req))"
      using True overheadFor_values [of "req_Model req"] by (auto simp: divide_simps)
    then have "go_trunc (real_of_int k / 9 + 999 / 1000) = \<lceil>real_of_int k / 9\<rceil>"
      unfolding k by (simp add: go_trunc_def floor_ceiling_ninths)
    with True pos show ?thesis by (simp add: AdjustTokenBudget_def Let_def k)
  next
    case False
    then show ?thesis using pos by (auto simp: AdjustTokenBudget_def Let_def)
  qed
qed

text \<open>
  The token limit sent to a reasoning model is the documented one: the requested limit divided by
  the visible share, rounded up exactly, and at most the cap. For other models, and without a limit,
  the request is not changed, and nothing but the limit ever is.
\<close>

theorem AdjustTokenBudget_ceil:
  "AdjustTokenBudget req = req\<lparr>req_MaxTokens :=
     (if IsReasoningModel (req_Model req) \<and> 0 < req_MaxTokens req
      then min maxAdjusted \<lceil>real_of_int (req_MaxTokens req) / (1 - overheadFor (req_Model req))\<rceil>
      else req_MaxTokens req)\<rparr>"
  by (rule AdjustTokenBudget_eq)

text \<open>The cap also applies to callers who asked for more than the cap: they get less than they asked for.\<close>

lemma cap_lowers_request:
  assumes "IsReasoningModel (req_Model req)" "maxAdjusted < req_MaxTokens req"
  shows "req_MaxTokens (AdjustTokenBudget req) < req_MaxTokens req"
  using assms unfolding AdjustTokenBudget_eq by (simp add: maxAdjusted_def)

section \<open>What a run of the executor returns\<close>

lemma chat_loop_resp:
  assumes "\<And>w r w'. chat p req w = (Inr r, w') \<Longrightarrow> Q r"
  shows "chat_loop chat wait p req cfg i b le w = ((resp, n, None), w') \<Longrightarrow> i < MaxAttempts cfg \<or> le \<noteq> None \<Longrightarrow>
    \<exists>r. resp = Some r \<and> Q r"
proof (induction "nat (MaxAttempts cfg - i)" arbitrary: i b le w)
  case 0
  then show ?case by (auto simp: chat_loop.simps [of chat wait p req cfg i b le w])
next
  case (Suc k)
  then have i: "i < MaxAttempts cfg" by simp
  have k: "k = nat (MaxAttempts cfg - (i + 1))" using Suc.hyps(2) by simp
  note IH = Suc.hyps(1) [OF k, of _ "Some e" for e]
  obtain x w1 where x: "chat p req w = (x, w1)" by fastforce
  show ?case
  proof (cases x)
    case (Inr r)
    then show ?thesis
      using Suc.prems(1) i x assms by (auto simp: chat_loop.simps [of chat wait p req cfg i b le w])
  next
    case (Inl e)
    then show ?thesis
      using Suc.prems(1) i x IH
      by (auto simp: chat_loop.simps [of chat wait p req cfg i b le w] split: if_splits option.splits prod.splits)
  qed
qed

lemma execute_loop_resp:
  assumes "0 < MaxAttempts cfg" "\<And>p w r w'. chat p req w = (Inr r, w') \<Longrightarrow> Q r"
  shows "execute_loop chat wait lookup req cfg from cs i used le lc lp n w = ((res, None), w') \<Longrightarrow> cs \<noteq> [] \<or> le \<noteq> None \<Longrightarrow>
    \<exists>r. er_Response res = Some r \<and> Q r"
proof (induction cs arbitrary: i used le lc lp n w rule: measure_induct_rule [of length])
  case (less cs)
  show ?case
  proof (cases cs)
    case Nil
    then show ?thesis using less.prems by auto
  next
    case (Cons c cs')
    have short: "length cs' < length cs" "length (escalateCandidates cs' m) < length cs" for m
      using Cons by (simp_all add: le_imp_less_Suc length_escalateCandidates)
    show ?thesis
    proof (cases "lookup (cand_Model c)")
      case (Inl e)
      then show ?thesis using less.prems less.IH [OF short(1)] Cons by (simp add: Let_def)
    next
      case (Inr p)
      obtain resp a err w1 where c: "chatWithRetry chat wait p req cfg w = ((resp, a, err), w1)"
        by (metis prod.collapse)
      show ?thesis
      proof (cases err)
        case None
        have "\<exists>r. resp = Some r \<and> Q r"
          by (rule chat_loop_resp [OF assms(2) c [unfolded chatWithRetry_def None]]) (use assms(1) in simp_all)
        then show ?thesis using less.prems(1) Cons Inr c None by (auto simp: Let_def)
      next
        case (Some e)
        then show ?thesis
          using less.prems(1) Cons Inr c less.IH [OF short(1)] less.IH [OF short(2)]
          by (simp add: Let_def split: if_splits)
      qed
    qed
  qed
qed

lemma Execute_resp:
  assumes "0 < MaxAttempts cfg" "\<And>p w r w'. chat p req w = (Inr r, w') \<Longrightarrow> Q r"
    and "Execute chat wait d req lookup cfg w = ((res, None), w')"
  shows "\<exists>r. er_Response res = Some r \<and> Q r"
  by (rule execute_loop_resp [OF assms(1,2) assms(3) [unfolded Execute_def]]) (simp_all add: orderedCandidates_def)

text \<open>When the providers' answers do not depend on the world and waiting is never cut short, neither does the result.\<close>

definition world_blind :: "('p, 'w) chat_fn \<Rightarrow> 'w wait_fn \<Rightarrow> bool" where
  "world_blind chat wait \<longleftrightarrow> (\<forall>p req w w'. fst (chat p req w) = fst (chat p req w')) \<and> (\<forall>t w. fst (wait t w) = None)"

lemma chat_loop_blind:
  assumes "world_blind chat wait"
  shows "fst (chat_loop chat wait p req cfg i b le w) = fst (chat_loop chat wait p req cfg i b le w')"
proof (induction "nat (MaxAttempts cfg - i)" arbitrary: i b le w w')
  case 0
  then show ?case by (subst (1 2) chat_loop.simps) simp
next
  case (Suc k)
  have k: "k = nat (MaxAttempts cfg - (i + 1))" using Suc.hyps(2) by simp
  note IH = Suc.hyps(1) [OF k]
  have i: "i < MaxAttempts cfg" using Suc.hyps(2) by simp
  obtain x w1 where x: "chat p req w = (x, w1)" by fastforce
  obtain w2 where x': "chat p req w' = (x, w2)"
    using assms x unfolding world_blind_def by (metis fst_conv prod.collapse)
  obtain v1 v2 where v: "wait b w1 = (None, v1)" "wait b w2 = (None, v2)"
    using assms unfolding world_blind_def by (metis prod.collapse)
  show ?case
    using i x x' v IH [of "next_backoff cfg b" _ v1 v2] IH [of b _ w1 w2]
    by (subst (1 2) chat_loop.simps) (auto split: sum.splits)
qed

lemma execute_loop_blind:
  assumes "world_blind chat wait"
  shows "fst (execute_loop chat wait lookup req cfg from cs i used le lc lp n w) =
    fst (execute_loop chat wait lookup req cfg from cs i used le lc lp n w')"
proof (induction cs arbitrary: i used le lc lp n w w' rule: measure_induct_rule [of length])
  case (less cs)
  show ?case
  proof (cases cs)
    case (Cons c cs')
    have short: "length cs' < length cs" "length (escalateCandidates cs' m) < length cs" for m
      using Cons by (simp_all add: le_imp_less_Suc length_escalateCandidates)
    show ?thesis
    proof (cases "lookup (cand_Model c)")
      case (Inl e)
      then show ?thesis using less.IH [OF short(1)] Cons by (simp add: Let_def)
    next
      case (Inr p)
      obtain resp a err w1 where c: "chatWithRetry chat wait p req cfg w = ((resp, a, err), w1)"
        by (metis prod.collapse)
      obtain w2 where c': "chatWithRetry chat wait p req cfg w' = ((resp, a, err), w2)"
        using c chat_loop_blind [OF assms] unfolding chatWithRetry_def by (metis fst_conv prod.collapse)
      show ?thesis
        using Cons Inr c c' less.IH [OF short(1)] less.IH [OF short(2)]
        by (cases err) (simp_all add: Let_def)
    qed
  qed simp
qed

lemma Execute_blind:
  assumes "world_blind chat wait"
  shows "fst (Execute chat wait d req lookup cfg w) = fst (Execute chat wait d req lookup cfg w')"
  unfolding Execute_def by (rule execute_loop_blind [OF assms])

section \<open>Chains\<close>

definition wf_chain :: "Chain \<Rightarrow> bool" where
  "wf_chain c = (case chain_Strategy c of
      StrategySequential \<Rightarrow> chain_Models c \<noteq> [] \<and> length (chain_Prompts c) = length (chain_Models c)
    | StrategyFusion \<Rightarrow> 2 \<le> length (chain_Models c) \<and> chain_Judge c \<noteq> [])"

lemma build_chain_wf: "build_chain name d = Inr c \<Longrightarrow> wf_chain c \<and> chain_Name c = name"
  by (auto simp: build_chain_def wf_chain_def Let_def split: if_splits)

lemma BuildRegistry_wf: "BuildRegistry defs = Inr reg \<Longrightarrow> reg name = Some c \<Longrightarrow> wf_chain c \<and> chain_Name c = name"
proof (induction defs arbitrary: reg)
  case (Cons x defs)
  obtain n d where x: "x = (n, d)" by fastforce
  from Cons.prems(1) obtain c' reg' where c': "build_chain n d = Inr c'" "BuildRegistry defs = Inr reg'" "reg = reg'(n \<mapsto> c')"
    by (auto simp: x split: sum.splits)
  show ?case
  proof (cases "name = n")
    case True
    then show ?thesis using Cons.prems(2) c'(1,3) build_chain_wf by simp
  next
    case False
    then show ?thesis using Cons.IH [OF c'(2)] Cons.prems(2) c'(3) by simp
  qed
qed simp

lemma BuildRegistry_accepts:
  "isl (BuildRegistry defs) \<longleftrightarrow> list_ex (\<lambda>(name, d). isl (build_chain name d)) defs"
  by (induction defs rule: BuildRegistry.induct) (auto split: sum.splits)

text \<open>
  A configuration that is accepted gives well-formed chains only: a sequential chain has a
  model and as many prompts as models, a fusion chain at least two panel members and a judge.
\<close>

theorem chain_registry_wf:
  assumes "BuildRegistry defs = Inr reg" "reg name = Some c"
  shows "wf_chain c \<and> chain_Name c = name"
  using assms by (rule BuildRegistry_wf)

definition sample_chain_def :: ChainDef where
  "sample_chain_def = \<lparr>def_Strategy = [], def_Models = [''a'', ''b''], def_Prompts = [[], ''refine''], def_Judge = []\<rparr>"

definition sample_chain :: Chain where
  "sample_chain = \<lparr>chain_Name = ''duo'', chain_Strategy = StrategySequential, chain_Models = [''a'', ''b''],
     chain_Prompts = [[], ''refine''], chain_Judge = []\<rparr>"

theorem chain_registry_wf_witness: "wf_chain sample_chain \<and> chain_Name sample_chain = ''duo''"
  by (rule chain_registry_wf [of "[(''duo'', sample_chain_def)]" "[''duo'' \<mapsto> sample_chain]"])
    (simp_all add: build_chain_def sample_chain_def_def sample_chain_def)

text \<open>What the steps of a chain leave alone.\<close>

lemma is_allowed_fields [simp]:
  "cs_world (snd (is_allowed h m st)) = cs_world st" "cs_events (snd (is_allowed h m st)) = cs_events st"
  "cs_store (snd (is_allowed h m st)) = cs_store st" "cs_shadows (snd (is_allowed h m st)) = cs_shadows st"
  by (simp_all add: is_allowed_def split: option.splits prod.splits)

lemma record_outcome_fields [simp]:
  "cs_world (record_outcome h m e st) = cs_world st" "cs_events (record_outcome h m e st) = cs_events st"
  "cs_store (record_outcome h m e st) = cs_store st" "cs_shadows (record_outcome h m e st) = cs_shadows st"
  by (simp_all add: record_outcome_def split: option.splits prod.splits)

lemma record_metric_fields [simp]:
  "cs_world (record_metric h x st) = cs_world st" "cs_events (record_metric h x st) = cs_events st"
  "cs_store (record_metric h x st) = cs_store st" "cs_shadows (record_metric h x st) = cs_shadows st"
  "cs_cb (record_metric h x st) = cs_cb st"
  by (simp_all add: record_metric_def)

lemma publish_fields [simp]:
  "cs_world (publish h ev st) = cs_world st" "cs_store (publish h ev st) = cs_store st"
  "cs_shadows (publish h ev st) = cs_shadows st" "cs_cb (publish h ev st) = cs_cb st"
  by (simp_all add: publish_def)

lemma publish_events: "cs_events (publish h ev st) = (if h_bus h then cs_events st @ [ev] else cs_events st)"
  by (simp add: publish_def)

lemma no_breaker [simp]:
  "cs_cb st = None \<Longrightarrow> is_allowed h m st = (True, st)" "cs_cb st = None \<Longrightarrow> record_outcome h m e st = st"
  by (simp_all add: is_allowed_def record_outcome_def)

definition answers_choice :: "('p, 'w, 's) ChatHandler \<Rightarrow> bool" where
  "answers_choice h \<longleftrightarrow> (\<forall>p req w resp w'. h_chat h p req w = (Inr resp, w') \<longrightarrow> resp_Choices resp \<noteq> [])"

lemma runChainStep_total:
  assumes "0 < MaxAttempts (h_retryCfg h)" "answers_choice h"
  shows "\<exists>res st'. runChainStep h r m msgs st = Some (res, st') \<and> (\<forall>resp. sr_outcome res = Inr resp \<longrightarrow> resp_Choices resp \<noteq> [])"
proof -
  obtain ok st1 where a: "is_allowed h m st = (ok, st1)" by fastforce
  show ?thesis
  proof (cases ok)
    case False
    then show ?thesis using a by (simp add: runChainStep_def Let_def)
  next
    case True
    let ?req = "AdjustTokenBudget (zero_request\<lparr>req_Model := m, req_Messages := msgs\<rparr>)"
    let ?d = "\<lparr>rd_Provider = [], rd_Model = m, rd_FallbackChain = []\<rparr>"
    obtain res err w where x: "Execute (h_chat h) (h_wait h) ?d ?req (h_router h) (h_retryCfg h) (cs_world st1) = ((res, err), w)"
      by (metis prod.collapse)
    show ?thesis
    proof (cases err)
      case None
      have "\<exists>resp. er_Response res = Some resp \<and> resp_Choices resp \<noteq> []"
        by (rule Execute_resp [OF assms(1) _ x [unfolded None]]) (use assms(2) in \<open>unfold answers_choice_def, blast\<close>)
      then show ?thesis using a True x None by (auto simp: runChainStep_def Let_def)
    next
      case (Some e)
      then show ?thesis using a True x by (simp add: runChainStep_def Let_def)
    qed
  qed
qed

lemma step_messages_total: "(\<And>resp. prev = Some resp \<Longrightarrow> resp_Choices resp \<noteq> []) \<Longrightarrow> step_messages base prev prompt \<noteq> None"
  by (cases prev) (auto simp: step_messages_def first_content_def Let_def split: list.splits)

lemma sequential_loop_total:
  assumes "0 < MaxAttempts (h_retryCfg h)" "answers_choice h"
  shows "length prompts = length models \<Longrightarrow> models \<noteq> [] \<or> prev \<noteq> None \<Longrightarrow>
    (\<And>resp. prev = Some resp \<Longrightarrow> resp_Choices resp \<noteq> []) \<Longrightarrow>
    sequential_loop h r name stream base prev models prompts st \<noteq> None"
proof (induction models arbitrary: prompts prev st)
  case Nil
  then show ?case by auto
next
  case (Cons m ms)
  obtain prompt ps where ps: "prompts = prompt # ps" using Cons.prems(1) by (cases prompts) auto
  obtain msgs where msgs: "step_messages base prev prompt = Some msgs"
    using step_messages_total [OF Cons.prems(3)] by blast
  obtain res st' where run: "runChainStep h r m msgs st = Some (res, st')" "\<forall>resp. sr_outcome res = Inr resp \<longrightarrow> resp_Choices resp \<noteq> []"
    using runChainStep_total [OF assms] by blast
  have "sequential_loop h r name stream base (Some resp) ms ps st' \<noteq> None" if "sr_outcome res = Inr resp" for resp
    by (rule Cons.IH) (use Cons.prems(1) ps that run(2) in auto)
  then show ?case using ps msgs run(1) by (cases "sr_outcome res") auto
qed

lemma fusion_panel_total:
  assumes "0 < MaxAttempts (h_retryCfg h)" "answers_choice h"
  shows "\<exists>results' st'. fusion_panel h r base models ord results st = Some (results', st') \<and>
    dom results' = dom results \<union> set ord \<and>
    (\<forall>i res. results' i = Some res \<longrightarrow> results i = Some res \<or> (\<forall>resp. sr_outcome res = Inr resp \<longrightarrow> resp_Choices resp \<noteq> []))"
proof (induction ord arbitrary: results st)
  case (Cons i ord)
  obtain res st' where run: "runChainStep h r (models ! i) base st = Some (res, st')" "\<forall>resp. sr_outcome res = Inr resp \<longrightarrow> resp_Choices resp \<noteq> []"
    using runChainStep_total [OF assms] by blast
  obtain results' st2 where IH: "fusion_panel h r base models ord (results(i \<mapsto> res)) st' = Some (results', st2)"
      "dom results' = dom (results(i \<mapsto> res)) \<union> set ord"
      "\<And>k x. results' k = Some x \<Longrightarrow> (results(i \<mapsto> res)) k = Some x \<or> (\<forall>resp. sr_outcome x = Inr resp \<longrightarrow> resp_Choices resp \<noteq> [])"
    using Cons [of "results(i \<mapsto> res)" st'] by blast
  have "results k = Some x \<or> (\<forall>resp. sr_outcome x = Inr resp \<longrightarrow> resp_Choices resp \<noteq> [])" if "results' k = Some x" for k x
    using IH(3) [OF that] run(2) by (cases "k = i") auto
  moreover have "dom results' = dom results \<union> set (i # ord)" using IH(2) by auto
  moreover have "fusion_panel h r base models (i # ord) results st = Some (results', st2)"
    using run(1) IH(1) by simp
  ultimately show ?case by blast
qed simp

lemma candidates_text_total:
  "list_all (\<lambda>res. \<forall>resp. sr_outcome res = Inr resp \<longrightarrow> resp_Choices resp \<noteq> []) results \<Longrightarrow> candidates_text results \<noteq> None"
  by (induction results) (auto simp: first_content_def split: sum.splits list.splits)

text \<open>
  C34. A well-formed chain never crashes the handler: when every answer of a provider has a choice,
  the handler returns a reply, whatever fails, is blocked or is streamed.
\<close>

theorem chain_never_panics:
  assumes "wf_chain c" "0 < MaxAttempts (h_retryCfg h)" "answers_choice h" "set ord = {..<length (chain_Models c)}"
  shows "\<exists>reply st'. handleChain ord h r c req st = Some (reply, st')"
proof (cases "chain_Strategy c")
  case StrategySequential
  then have "sequential_loop h r (chain_Name c) (req_Stream req) (req_Messages req) None (chain_Models c) (chain_Prompts c) st \<noteq> None"
    using assms(1) by (intro sequential_loop_total [OF assms(2,3)]) (simp_all add: wf_chain_def)
  then show ?thesis using StrategySequential by (simp add: handleChain_def handleSequentialChain_def)
next
  case StrategyFusion
  obtain results st' where f: "fusion_panel h r (req_Messages req) (chain_Models c) ord Map.empty st = Some (results, st')"
      "dom results = set ord" "\<forall>i res. results i = Some res \<longrightarrow> (\<forall>resp. sr_outcome res = Inr resp \<longrightarrow> resp_Choices resp \<noteq> [])"
    using fusion_panel_total [OF assms(2,3), of r "req_Messages req" "chain_Models c" ord Map.empty st] by auto
  have "list_all (\<lambda>res. \<forall>resp. sr_outcome res = Inr resp \<longrightarrow> resp_Choices resp \<noteq> []) (panel_results (chain_Models c) results)"
  proof -
    have "\<forall>resp. sr_outcome (gomap_get z results i) = Inr resp \<longrightarrow> resp_Choices resp \<noteq> []" if "i < length (chain_Models c)" for i z
    proof -
      have "i \<in> dom results" using that f(2) assms(4) by simp
      then obtain res where "results i = Some res" by blast
      with f(3) show ?thesis by (simp add: gomap_get_def)
    qed
    then show ?thesis unfolding panel_results_def list_all_iff by simp
  qed
  from candidates_text_total [OF this] obtain t where t: "candidates_text (panel_results (chain_Models c) results) = Some t" by blast
  let ?msgs = "req_Messages req @ [text_message ''user'' (judge_intro @ t)]"
  obtain res st2 where "runChainStep h r (chain_Judge c) ?msgs st' = Some (res, st2)"
    using runChainStep_total [OF assms(2,3)] by blast
  then show ?thesis
    using StrategyFusion f(1) t
    by (cases "sr_outcome res") (simp_all add: handleChain_def handleFusionChain_def buildJudgeMessages_def Let_def)
qed

text \<open>A handler without breakers whose providers answer with a fixed function of the request.\<close>

definition sample_answer :: "RequestEnvelope \<Rightarrow> ResponseEnvelope" where
  "sample_answer req = zero_response\<lparr>resp_ID := ''r'', resp_Choices :=
     [\<lparr>ch_Index = 0, ch_Message = text_message ''assistant'' (''answer of '' @ req_Model req), ch_FinishReason = ''stop''\<rparr>]\<rparr>"

definition sample_handler :: "(string, unit, 's) ChatHandler" where
  "sample_handler = \<lparr>h_router = (\<lambda>m. Inr m), h_name = (\<lambda>p. p), h_chat = (\<lambda>p req w. (Inr (sample_answer req), w)),
     h_stream = (\<lambda>p req w. (([], None), w)), h_wait = (\<lambda>t w. (None, w)), h_now = (\<lambda>w. 0), h_write = (\<lambda>c w. (None, w)),
     h_flusher = True, h_bus = True, h_engine = None, h_retryCfg = DefaultRetryConfig, h_metrics = False,
     h_chains = Map.empty, h_retrieval = None\<rparr>"

definition sample_state :: "(unit, unit) chat_state" where
  "sample_state = \<lparr>cs_world = (), cs_cb = None, cs_saves = [], cs_events = [], cs_metrics = [], cs_store = (), cs_shadows = []\<rparr>"

definition sample_http :: http_request where
  "sample_http = \<lparr>hr_method = ''POST'', hr_header = (\<lambda>_. []), hr_identity = None, hr_decoded = None\<rparr>"

lemma sample_handler_fields [simp]:
  "h_chat sample_handler p req w = (Inr (sample_answer req), w)" "h_router sample_handler m = Inr m"
  "h_retryCfg sample_handler = DefaultRetryConfig" "0 < MaxAttempts DefaultRetryConfig" "h_bus sample_handler"
  "cs_cb sample_state = None" "cs_events sample_state = []"
  by (simp_all add: sample_handler_def sample_state_def DefaultRetryConfig_def)

theorem chain_never_panics_witness:
  "\<exists>reply st'. handleChain [0, 1] sample_handler sample_http sample_chain sample_request sample_state = Some (reply, st')"
  by (rule chain_never_panics)
    (auto simp: wf_chain_def sample_chain_def answers_choice_def sample_answer_def less_Suc_eq numeral_2_eq_2)

text \<open>
  What a sequential chain computes when every model answers: the turns of a conversation in
  which each model sees the caller's messages, the previous answer and its own prompt.
\<close>

fun chain_turns :: "(string \<Rightarrow> Message list \<Rightarrow> ResponseEnvelope) \<Rightarrow> Message list \<Rightarrow> ResponseEnvelope option \<Rightarrow>
    string list \<Rightarrow> string list \<Rightarrow> (string \<times> Message list \<times> ResponseEnvelope) list" where
  "chain_turns answer base prev (model # models) (prompt # prompts) =
     (let msgs = base @ (case prev of None \<Rightarrow> [] | Some resp \<Rightarrow> [text_message ''assistant'' (msg_Content (ch_Message (hd (resp_Choices resp))))]) @
            (if prompt = [] then [] else [text_message ''user'' prompt]);
          resp = answer model msgs
      in (model, msgs, resp) # chain_turns answer base (Some resp) models prompts)"
| "chain_turns answer base prev _ _ = []"

definition event_turn :: "CallEvent \<Rightarrow> string \<times> Message list \<times> ResponseEnvelope" where
  "event_turn ev = (ev_Model ev, req_Messages (ev_Request ev), ev_Response ev)"

text \<open>
  Providers that answer every call: what they say depends on the model and the messages; how
  long they take, and anything else a call does to the world, is open.
\<close>

definition answering :: "('p, 'w, 's) ChatHandler \<Rightarrow> (string \<Rightarrow> Message list \<Rightarrow> ResponseEnvelope) \<Rightarrow> bool" where
  "answering h answer \<longleftrightarrow> (\<forall>p req w. fst (h_chat h p req w) = Inr (answer (req_Model req) (req_Messages req))) \<and>
     (\<forall>model. \<not> isl (h_router h model)) \<and> (\<forall>model msgs. resp_Choices (answer model msgs) \<noteq> []) \<and> 0 < MaxAttempts (h_retryCfg h)"

text \<open>
  No breaker of these models is open or probing: there is no registry, or the breaker the registry
  has, or would create, for each of them is closed.
\<close>

definition breakers_closed :: "string list \<Rightarrow> ('w, 's) chat_state \<Rightarrow> bool" where
  "breakers_closed models st = (case cs_cb st of
      None \<Rightarrow> True
    | Some cb \<Rightarrow> list_all (\<lambda>m. br_state (Registry_view 0 cb m) = StateClosed) models)"

lemma closed_allowed:
  assumes "breakers_closed models st" "model \<in> set models"
  shows "fst (is_allowed h model st)" "breakers_closed models (snd (is_allowed h model st))"
proof -
  have closed: "br_state (Registry_view t cb m) = StateClosed" if "cs_cb st = Some cb" "m \<in> set models" for t cb m
    using assms(1) that view_state [of t cb m 0] by (simp add: breakers_closed_def list_all_iff)
  show "fst (is_allowed h model st)"
    using closed [OF _ assms(2)] by (simp add: is_allowed_def IsAllowed_eq Breaker_Allow_def split: option.splits)
  show "breakers_closed models (snd (is_allowed h model st))"
    using closed assms(2) by (auto simp: is_allowed_def IsAllowed_eq breakers_closed_def list_all_iff Registry_view_upd Breaker_Allow_def
        split: option.splits)
qed

lemma closed_recorded:
  assumes "breakers_closed models st" "model \<in> set models"
  shows "breakers_closed models (record_outcome h model None st)"
proof -
  have closed: "br_state (Registry_view t cb m) = StateClosed" if "cs_cb st = Some cb" "m \<in> set models" for t cb m
    using assms(1) that view_state [of t cb m 0] by (simp add: breakers_closed_def list_all_iff)
  then show ?thesis
    using assms(2) by (auto simp: record_outcome_def shouldRecordOutcome_def RecordOutcome_eq breakers_closed_def list_all_iff
        Registry_view_upd Breaker_record_def Breaker_RecordSuccess_def Let_def split: option.splits)
qed

lemma AdjustTokenBudget_fields [simp]:
  "req_Model (AdjustTokenBudget req) = req_Model req" "req_Messages (AdjustTokenBudget req) = req_Messages req"
  by (simp_all add: AdjustTokenBudget_eq)

lemma Execute_answering:
  assumes "answering h answer"
  shows "\<exists>p w'. Execute (h_chat h) (h_wait h) \<lparr>rd_Provider = [], rd_Model = model, rd_FallbackChain = []\<rparr>
      (AdjustTokenBudget (zero_request\<lparr>req_Model := model, req_Messages := msgs\<rparr>)) (h_router h) (h_retryCfg h) w =
    ((\<lparr>er_Response = Some (answer model msgs), er_Provider = Some p, er_Model = model, er_FallbackUsed = False,
       er_FallbackFrom = model, er_Attempts = 1\<rparr>, None), w')"
proof -
  obtain p where p: "h_router h model = Inr p" using assms by (metis answering_def isl_def sum.exhaust)
  let ?req = "AdjustTokenBudget (zero_request\<lparr>req_Model := model, req_Messages := msgs\<rparr>)"
  obtain w' where chat: "h_chat h p ?req w = (Inr (answer model msgs), w')"
    using assms by (cases "h_chat h p ?req w") (auto simp: answering_def dest!: spec [of _ p] spec [of _ ?req] spec [of _ w])
  have "chatWithRetry (h_chat h) (h_wait h) p ?req (h_retryCfg h) w = ((Some (answer model msgs), 1, None), w')"
    using assms unfolding chatWithRetry_def by (subst chat_loop.simps) (simp add: chat answering_def)
  then show ?thesis by (simp add: Execute_def orderedCandidates_def p Let_def)
qed

lemma runChainStep_answering:
  assumes "answering h answer" "breakers_closed models st" "model \<in> set models"
  shows "\<exists>st'. runChainStep h r model msgs st = Some (\<lparr>sr_model = model, sr_outcome = Inr (answer model msgs)\<rparr>, st') \<and>
    breakers_closed models st' \<and>
    (h_bus h \<longrightarrow> (\<exists>ev. cs_events st' = cs_events st @ [ev] \<and> event_turn ev = (model, msgs, answer model msgs)))"
proof -
  obtain st1 where a: "is_allowed h model st = (True, st1)" "breakers_closed models st1"
    using closed_allowed [OF assms(2,3), of h] by (cases "is_allowed h model st") auto
  have ev1: "cs_events st1 = cs_events st" using is_allowed_fields(2) [of h model st] a(1) by simp
  obtain p w' where x: "Execute (h_chat h) (h_wait h) \<lparr>rd_Provider = [], rd_Model = model, rd_FallbackChain = []\<rparr>
      (AdjustTokenBudget (zero_request\<lparr>req_Model := model, req_Messages := msgs\<rparr>)) (h_router h) (h_retryCfg h) (cs_world st1) =
    ((\<lparr>er_Response = Some (answer model msgs), er_Provider = Some p, er_Model = model, er_FallbackUsed = False,
       er_FallbackFrom = model, er_Attempts = 1\<rparr>, None), w')"
    using Execute_answering [OF assms(1)] by blast
  have cb: "breakers_closed models (record_outcome h model None (st1\<lparr>cs_world := w'\<rparr>))"
    using closed_recorded [of models "st1\<lparr>cs_world := w'\<rparr>" model h] a(2) assms(3) by (simp add: breakers_closed_def)
  then have "breakers_closed models (publish h ev (record_metric h mt (record_outcome h model None (st1\<lparr>cs_world := w'\<rparr>))))" for ev mt
    by (simp add: breakers_closed_def publish_def record_metric_def)
  then show ?thesis
    by (simp add: runChainStep_def a(1) x Let_def publish_events event_turn_def answered_event_def base_event_def ev1)
qed

lemma sequential_loop_answering:
  assumes "answering h answer" "h_bus h"
  shows "breakers_closed all st \<Longrightarrow> set models \<subseteq> set all \<Longrightarrow> length prompts = length models \<Longrightarrow>
    (\<And>resp. prev = Some resp \<Longrightarrow> resp_Choices resp \<noteq> []) \<Longrightarrow>
    (models = [] \<Longrightarrow> \<not> stream \<and> prev = Some (snd (snd final))) \<Longrightarrow>
    (models \<noteq> [] \<Longrightarrow> final = last (chain_turns answer base prev models prompts)) \<Longrightarrow>
    \<exists>st' evs. cs_events st' = cs_events st @ evs \<and> breakers_closed all st' \<and>
      (if stream
       then map event_turn evs = butlast (chain_turns answer base prev models prompts) \<and>
         sequential_loop h r name stream base prev models prompts st =
           Some (streamChainStep h r name (fst final) (fst (snd final)) st')
       else map event_turn evs = chain_turns answer base prev models prompts \<and>
         sequential_loop h r name stream base prev models prompts st =
           Some (JsonReply ((snd (snd final))\<lparr>resp_Model := name\<rparr>), st'))"
proof (induction models arbitrary: prompts prev st)
  case (Cons m ms)
  obtain prompt ps where ps: "prompts = prompt # ps" using Cons.prems(3) by (cases prompts) auto
  let ?msgs = "base @ (case prev of None \<Rightarrow> [] | Some resp \<Rightarrow> [text_message ''assistant'' (msg_Content (ch_Message (hd (resp_Choices resp))))]) @
    (if prompt = [] then [] else [text_message ''user'' prompt])"
  have msgs: "step_messages base prev prompt = Some ?msgs"
    using Cons.prems(4) by (cases prev) (auto simp: step_messages_def first_content_def Let_def split: list.splits)
  let ?turns = "chain_turns answer base (Some (answer m ?msgs)) ms ps"
  have turns: "chain_turns answer base prev (m # ms) prompts = (m, ?msgs, answer m ?msgs) # ?turns"
    by (simp only: ps chain_turns.simps Let_def)
  have len: "length ps = length ms" using Cons.prems(3) ps by simp
  have nonempty: "?turns \<noteq> []" if "ms \<noteq> []" using that len by (cases ms; cases ps) (simp_all add: Let_def)
  show ?case
  proof (cases "ms = [] \<and> stream")
    case True
    then have "final = (m, ?msgs, answer m ?msgs)" "?turns = []" using Cons.prems(6) turns len by simp_all
    then show ?thesis
      using True msgs Cons.prems(1) turns by (intro exI [of _ st] exI [of _ "[]"]) (simp add: ps)
  next
    case False
    have m: "m \<in> set all" using Cons.prems(2) by simp
    obtain st1 ev where run: "runChainStep h r m ?msgs st = Some (\<lparr>sr_model = m, sr_outcome = Inr (answer m ?msgs)\<rparr>, st1)"
        "breakers_closed all st1" "cs_events st1 = cs_events st @ [ev]" "event_turn ev = (m, ?msgs, answer m ?msgs)"
      using runChainStep_answering [OF assms(1) Cons.prems(1) m, of r ?msgs] assms(2) by blast
    have sub: "set ms \<subseteq> set all" using Cons.prems(2) by simp
    have ch: "resp_Choices (answer m ?msgs) \<noteq> []" using assms(1) by (simp add: answering_def)
    have "\<exists>st' evs. cs_events st' = cs_events st1 @ evs \<and> breakers_closed all st' \<and>
      (if stream
       then map event_turn evs = butlast ?turns \<and> sequential_loop h r name stream base (Some (answer m ?msgs)) ms ps st1 =
           Some (streamChainStep h r name (fst final) (fst (snd final)) st')
       else map event_turn evs = ?turns \<and> sequential_loop h r name stream base (Some (answer m ?msgs)) ms ps st1 =
           Some (JsonReply ((snd (snd final))\<lparr>resp_Model := name\<rparr>), st'))"
    proof (rule Cons.IH [OF run(2) sub len])
      show "\<not> stream \<and> Some (answer m ?msgs) = Some (snd (snd final))" if "ms = []"
        using Cons.prems(6) turns that len False by simp
      show "final = last ?turns" if "ms \<noteq> []" using Cons.prems(6) turns nonempty [OF that] by simp
    qed (use ch in auto)
    then obtain st' evs where rest: "cs_events st' = cs_events st1 @ evs" "breakers_closed all st'"
      "if stream
       then map event_turn evs = butlast ?turns \<and> sequential_loop h r name stream base (Some (answer m ?msgs)) ms ps st1 =
           Some (streamChainStep h r name (fst final) (fst (snd final)) st')
       else map event_turn evs = ?turns \<and> sequential_loop h r name stream base (Some (answer m ?msgs)) ms ps st1 =
           Some (JsonReply ((snd (snd final))\<lparr>resp_Model := name\<rparr>), st')"
      by blast
    have "sequential_loop h r name stream base prev (m # ms) prompts st =
        sequential_loop h r name stream base (Some (answer m ?msgs)) ms ps st1"
      unfolding ps sequential_loop.simps msgs option.case if_not_P [OF False] run(1) by simp
    moreover have "butlast ((m, ?msgs, answer m ?msgs) # ?turns) = (m, ?msgs, answer m ?msgs) # butlast ?turns" if stream
      using False that nonempty by auto
    ultimately show ?thesis
      unfolding turns using rest run(3,4) by (intro exI [of _ st'] exI [of _ "ev # evs"]) (simp split: if_splits)
  qed
qed simp


definition sample_answers :: "string \<Rightarrow> Message list \<Rightarrow> ResponseEnvelope" where
  "sample_answers model msgs = sample_answer (zero_request\<lparr>req_Model := model\<rparr>)"

definition sample_question :: RequestEnvelope where
  "sample_question = zero_request\<lparr>req_Messages := [text_message ''user'' ''hi'']\<rparr>"

lemma sample_answering: "answering sample_handler sample_answers"
  by (simp add: answering_def sample_answers_def sample_answer_def)

lemma sample_answers_content: "msg_Content (ch_Message (hd (resp_Choices (sample_answers m msgs)))) = ''answer of '' @ m"
  by (simp add: sample_answers_def sample_answer_def text_message_def)

lemma sample_turns:
  "chain_turns sample_answers (req_Messages sample_question) None (chain_Models sample_chain) (chain_Prompts sample_chain) =
     [(''a'', [text_message ''user'' ''hi''], sample_answers ''a'' [text_message ''user'' ''hi'']),
      (''b'', [text_message ''user'' ''hi'', text_message ''assistant'' ''answer of a'', text_message ''user'' ''refine''],
        sample_answers ''b'' [text_message ''user'' ''hi'', text_message ''assistant'' ''answer of a'', text_message ''user'' ''refine''])]"
  by (simp add: sample_chain_def sample_question_def sample_answers_content Let_def)


text \<open>Without breakers, and with providers that do not depend on the world, a step has one outcome.\<close>

lemma runChainStep_blind:
  assumes "world_blind (h_chat h) (h_wait h)" "cs_cb st = None" "cs_cb st0 = None"
  shows "map_option fst (runChainStep h r m msgs st) = map_option fst (runChainStep h r m msgs st0)"
    and "runChainStep h r m msgs st = Some (res, st') \<Longrightarrow> cs_cb st' = None"
proof -
  let ?x = "Execute (h_chat h) (h_wait h) \<lparr>rd_Provider = [], rd_Model = m, rd_FallbackChain = []\<rparr>
    (AdjustTokenBudget (zero_request\<lparr>req_Model := m, req_Messages := msgs\<rparr>)) (h_router h) (h_retryCfg h)"
  obtain er err w where x: "?x (cs_world st) = ((er, err), w)" by (metis prod.collapse)
  obtain w0 where x0: "?x (cs_world st0) = ((er, err), w0)"
    using Execute_blind [OF assms(1)] x by (metis fst_conv prod.collapse)
  show "map_option fst (runChainStep h r m msgs st) = map_option fst (runChainStep h r m msgs st0)"
    using assms(2,3) x x0 by (simp add: runChainStep_def Let_def split: option.splits)
  show "cs_cb st' = None" if "runChainStep h r m msgs st = Some (res, st')"
    using that assms(2) x by (auto simp: runChainStep_def Let_def split: option.splits)
qed

lemma fusion_panel_blind:
  assumes "world_blind (h_chat h) (h_wait h)" "cs_cb st0 = None"
  shows "cs_cb st = None \<Longrightarrow>
    (if \<forall>i \<in> set ord. runChainStep h r (models ! i) base st0 \<noteq> None
     then \<exists>st'. cs_cb st' = None \<and> fusion_panel h r base models ord results st =
       Some (\<lambda>i. if i \<in> set ord then map_option fst (runChainStep h r (models ! i) base st0) else results i, st')
     else fusion_panel h r base models ord results st = None)"
proof (induction ord arbitrary: results st)
  case (Cons i ord)
  note blind = runChainStep_blind(1) [OF assms(1) Cons.prems assms(2), of r "models ! i" base]
  show ?case
  proof (cases "runChainStep h r (models ! i) base st")
    case None
    with blind have "runChainStep h r (models ! i) base st0 = None" by (metis map_option_is_None)
    with None show ?thesis by simp
  next
    case (Some x)
    obtain res st' where x: "x = (res, st')" by fastforce
    have cb: "cs_cb st' = None"
      using runChainStep_blind(2) [OF assms(1) Cons.prems assms(2)] Some x by blast
    have res: "map_option fst (runChainStep h r (models ! i) base st0) = Some res"
      using blind Some x by simp
    then have ne: "runChainStep h r (models ! i) base st0 \<noteq> None" by auto
    have upd: "(\<lambda>k. if k \<in> set ord then map_option fst (runChainStep h r (models ! k) base st0) else (results(i \<mapsto> res)) k) =
        (\<lambda>k. if k \<in> set (i # ord) then map_option fst (runChainStep h r (models ! k) base st0) else results k)"
      using res by (intro ext) auto
    have panel: "fusion_panel h r base models (i # ord) results st = fusion_panel h r base models ord (results(i \<mapsto> res)) st'"
      using Some x by simp
    have all: "(\<forall>k \<in> set (i # ord). runChainStep h r (models ! k) base st0 \<noteq> None) \<longleftrightarrow>
        (\<forall>k \<in> set ord. runChainStep h r (models ! k) base st0 \<noteq> None)"
      using ne by simp
    show ?thesis
      unfolding panel all using Cons.IH [OF cb, of "results(i \<mapsto> res)"] unfolding upd .
  qed
qed simp

text \<open>
  The answer of a fusion chain does not depend on the order in which the panel finishes: with
  providers that answer the same whenever they are asked, every interleaving gives the same reply.
\<close>

theorem fusion_order_irrelevant:
  assumes "world_blind (h_chat h) (h_wait h)" "cs_cb st = None" "\<not> req_Stream req"
    and "set ord1 = {..<length (chain_Models c)}" "set ord2 = {..<length (chain_Models c)}"
  shows "map_option fst (handleFusionChain ord1 h r c req st) = map_option fst (handleFusionChain ord2 h r c req st)"
proof (cases "\<forall>i < length (chain_Models c). runChainStep h r (chain_Models c ! i) (req_Messages req) st \<noteq> None")
  case False
  then have "fusion_panel h r (req_Messages req) (chain_Models c) ord Map.empty st = None"
    if "set ord = {..<length (chain_Models c)}" for ord
    using fusion_panel_blind [OF assms(1,2,2), of ord r "chain_Models c" "req_Messages req" Map.empty] that by (auto split: if_splits)
  with assms(4,5) show ?thesis by (simp add: handleFusionChain_def)
next
  case True
  let ?results = "\<lambda>i. if i < length (chain_Models c) then map_option fst (runChainStep h r (chain_Models c ! i) (req_Messages req) st) else None"
  have panel: "\<exists>st'. cs_cb st' = None \<and> fusion_panel h r (req_Messages req) (chain_Models c) ord Map.empty st = Some (?results, st')"
    if "set ord = {..<length (chain_Models c)}" for ord
    using fusion_panel_blind [OF assms(1,2,2), of ord r "chain_Models c" "req_Messages req" Map.empty] that True by simp
  from panel [OF assms(4)] panel [OF assms(5)] obtain st1 st2 where
    s1: "cs_cb st1 = None" "fusion_panel h r (req_Messages req) (chain_Models c) ord1 Map.empty st = Some (?results, st1)" and
    s2: "cs_cb st2 = None" "fusion_panel h r (req_Messages req) (chain_Models c) ord2 Map.empty st = Some (?results, st2)"
    by blast
  define results where "results = panel_results (chain_Models c) ?results"
  have judge: "map_option fst (runChainStep h r (chain_Judge c) msgs st1) = map_option fst (runChainStep h r (chain_Judge c) msgs st2)" for msgs
    by (rule runChainStep_blind(1) [OF assms(1) s1(1) s2(1)])
  show ?thesis
    unfolding handleFusionChain_def s1(2) s2(2) option.case prod.case Let_def results_def [symmetric]
    using judge [of "the (buildJudgeMessages (req_Messages req) results)"] assms(3)
    by (auto split: option.splits sum.splits)
qed

theorem fusion_order_irrelevant_witness:
  "map_option fst (handleFusionChain [0, 1] sample_handler sample_http (sample_chain\<lparr>chain_Strategy := StrategyFusion, chain_Judge := ''j''\<rparr>) sample_question sample_state) =
   map_option fst (handleFusionChain [1, 0] sample_handler sample_http (sample_chain\<lparr>chain_Strategy := StrategyFusion, chain_Judge := ''j''\<rparr>) sample_question sample_state)"
proof (rule fusion_order_irrelevant)
  show "world_blind (h_chat sample_handler) (h_wait sample_handler)"
    by (simp add: world_blind_def sample_handler_def)
qed (auto simp: sample_question_def zero_request_def sample_chain_def sample_state_def)

section \<open>Accounting\<close>

lemma start_shadow_fields [simp]:
  "cs_events (start_shadow h r i req st) = cs_events st" "cs_cb (start_shadow h r i req st) = cs_cb st"
  "cs_world (start_shadow h r i req st) = cs_world st"
  by (simp_all add: start_shadow_def Let_def)

lemma resolveRetrieval_fields:
  "cs_events (snd (resolveRetrieval h get u p req resp st)) = cs_events st"
  "cs_cb (snd (resolveRetrieval h get u p req resp st)) = cs_cb st"
  by (simp_all add: resolveRetrieval_def Let_def split: list.splits option.splits prod.splits sum.splits)

lemma resolve_answer_fields:
  "cs_events (snd (resolve_answer h p req out st)) = cs_events st"
  "cs_cb (snd (resolve_answer h p req out st)) = cs_cb st"
  by (simp_all add: resolve_answer_def case_prod_beta resolveRetrieval_fields split: sum.splits option.splits)

lemma route_request_events: "cs_events (snd (route_request pf h r req st)) = cs_events st"
  by (simp add: route_request_def Let_def split: option.splits prod.splits sum.splits)

definition billed :: "CallEvent list \<Rightarrow> CallEvent list \<Rightarrow> ResponseEnvelope \<Rightarrow> bool" where
  "billed before after resp \<longleftrightarrow> (\<exists>ev. after = before @ [ev] \<and> ev_Error ev = [] \<and> ev_Response ev = resp \<and>
     ev_ID ev = resp_ID resp \<and> ev_TokensIn ev = PromptTokens (resp_Usage resp) \<and>
     ev_TokensOut ev = CompletionTokens (resp_Usage resp) \<and> ev_Cost ev = ForUsage (ev_Model ev) (resp_Usage resp) \<and> ev_Shadow ev = None)"

definition accounted :: "CallEvent list \<Rightarrow> CallEvent list \<Rightarrow> chat_reply \<Rightarrow> bool" where
  "accounted before after reply = (case reply of
      JsonReply resp \<Rightarrow> billed before after resp
    | ErrorReply status _ _ \<Rightarrow>
        (if status = 502 then \<exists>ev. after = before @ [ev] \<and> ev_Cost ev = zero_cost \<and> ev_Response ev = zero_response
         else after = before)
    | StreamReply out \<Rightarrow> \<exists>ev. after = before @ [ev] \<and> ev_Streaming ev)"

lemma answer_request_accounted:
  assumes "h_bus h" "answer_request h r auto p req chain st = Some (reply, st')"
  shows "accounted (cs_events st) (cs_events st') reply"
proof -
  obtain ok st1 where a: "is_allowed h (req_Model req) st = (ok, st1)" by fastforce
  have ev1: "cs_events st1 = cs_events st" using is_allowed_fields(2) [of h "req_Model req" st] a by simp
  show ?thesis
  proof (cases ok)
    case False
    then show ?thesis using assms(2) a ev1 by (auto simp: answer_request_def accounted_def)
  next
    case True
    obtain out p' result w where c: "call_provider h p req chain (cs_world st1) = ((out, p', result), w)" by (metis prod.collapse)
    define st2 where "st2 = st1\<lparr>cs_world := w\<rparr>"
    obtain out2 st3 where o: "resolve_answer h p' req out st2 = (out2, st3)" by fastforce
    have "cs_events st3 = cs_events st2" using resolve_answer_fields(1) [of h p' req out st2] o by simp
    then have ev3: "cs_events st3 = cs_events st" by (simp add: st2_def ev1)
    show ?thesis
      using assms True a
      by (auto simp: answer_request_def c st2_def [symmetric] o Let_def publish_events ev3 accounted_def billed_def
          base_event_def zero_event_def answered_event_def split: sum.splits option.splits)
  qed
qed

lemma streamed_event_Streaming: "ev_Streaming (streamed_event model s err ev)"
  by (simp add: streamed_event_def Let_def split: option.splits)

lemma handleStream_accounted:
  assumes "h_bus h" "handleStream h r p req auto chain st = (reply, st')"
  shows "accounted (cs_events st) (cs_events st') reply"
proof -
  obtain ok st1 where a: "is_allowed h (req_Model req) st = (ok, st1)" by fastforce
  have ev1: "cs_events st1 = cs_events st" using is_allowed_fields(2) [of h "req_Model req" st] a by simp
  obtain err q result w s where sp: "stream_provider h p req chain (cs_world st1) = ((err, q, result), w, s)" by (metis prod.collapse)
  show ?thesis
  proof (cases "h_flusher h \<and> ok")
    case True
    then show ?thesis
      using assms(2) by (auto simp: handleStream_def a sp Let_def publish_events assms(1) ev1 accounted_def streamed_event_Streaming)
  next
    case False
    then show ?thesis
      using assms(2) ev1 by (cases ok) (auto simp: handleStream_def a accounted_def split: if_splits)
  qed
qed

text \<open>
  C4. Every request that reaches a provider is accounted for in exactly one event: an answer with
  its response, its token counts and the price of the model that gave it, an upstream failure
  at no cost, a stream as such. A request refused before that publishes nothing.
\<close>

theorem chat_accounting:
  assumes "ChatHandler_ServeHTTP parseFloat ord h r st = Some (reply, st')" "h_bus h"
    and "\<forall>req. hr_decoded r = Some req \<longrightarrow> h_chains h (req_Model req) = None"
  shows "accounted (cs_events st) (cs_events st') reply"
proof (cases "hr_method r = ''POST'' \<and> (\<exists>req. hr_decoded r = Some req \<and> req_Model req \<noteq> [] \<and> req_Messages req \<noteq> [])")
  case False
  then show ?thesis
    using assms(1) by (auto simp: ChatHandler_ServeHTTP_def accounted_def split: option.splits if_splits)
next
  case True
  then obtain req where req: "hr_decoded r = Some req" "req_Model req \<noteq> []" "req_Messages req \<noteq> []" "hr_method r = ''POST''" by blast
  obtain x st1 where x: "route_request parseFloat h r req st = (x, st1)" by fastforce
  have ev1: "cs_events st1 = cs_events st" using route_request_events [of parseFloat h r req st] x by simp
  have nochain: "h_chains h (req_Model req) = None" using assms(3) req(1) by blast
  show ?thesis
  proof (cases x)
    case (Inl rep)
    then have "reply = rep" "st' = st1" using assms(1) req nochain x by (auto simp: ChatHandler_ServeHTTP_def)
    moreover have "\<exists>ty msg. rep = ErrorReply 400 ty msg"
      using x Inl by (auto simp: route_request_def Let_def split: if_splits option.splits prod.splits sum.splits)
    ultimately show ?thesis using ev1 by (auto simp: accounted_def)
  next
    case (Inr y)
    obtain routed chain where y: "y = (routed, chain)" by fastforce
    show ?thesis
    proof (cases "h_router h (req_Model routed)")
      case (Inl err)
      then show ?thesis using assms(1) req nochain x Inr y ev1 by (auto simp: ChatHandler_ServeHTTP_def accounted_def)
    next
      case p: (Inr p)
      show ?thesis
      proof (cases "req_Stream routed")
        case False
        then have "answer_request h r (req_Model req = ''auto'') p routed chain st1 = Some (reply, st')"
          using assms(1) req nochain x Inr y p by (simp add: ChatHandler_ServeHTTP_def Let_def)
        from answer_request_accounted [OF assms(2) this] show ?thesis unfolding ev1 .
      next
        case stream: True
        have "handleStream h r p routed (req_Model req = ''auto'') chain st1 = (reply, st')"
          using assms(1) req nochain x Inr y p stream by (simp add: ChatHandler_ServeHTTP_def Let_def)
        from handleStream_accounted [OF assms(2) this] show ?thesis unfolding ev1 .
      qed
    qed
  qed
qed

lemma sample_unknown_model: "Lookup ''zz'' = None"
  by code_simp

theorem chat_accounting_witness:
  "\<exists>reply st'. ChatHandler_ServeHTTP (\<lambda>_. None) [] sample_handler (sample_http\<lparr>hr_decoded := Some (sample_question\<lparr>req_Model := ''zz''\<rparr>)\<rparr>) sample_state =
      Some (reply, st') \<and> accounted [] (cs_events st') reply"
proof -
  let ?r = "sample_http\<lparr>hr_decoded := Some (sample_question\<lparr>req_Model := ''zz''\<rparr>)\<rparr>"
  have "ChatHandler_ServeHTTP (\<lambda>_. None) [] sample_handler ?r sample_state \<noteq> None"
    by (simp add: ChatHandler_ServeHTTP_def sample_http_def sample_question_def zero_request_def sample_handler_def
        route_request_def sample_unknown_model Let_def answer_request_def call_provider_def resolve_answer_def sample_state_def)
  then obtain reply st' where ok: "ChatHandler_ServeHTTP (\<lambda>_. None) [] sample_handler ?r sample_state = Some (reply, st')" by auto
  have "h_bus sample_handler" "\<forall>req. hr_decoded ?r = Some req \<longrightarrow> h_chains sample_handler (req_Model req) = None"
    by (simp_all add: sample_handler_def)
  from chat_accounting [OF ok this] ok show ?thesis by (simp add: sample_state_def)
qed

section \<open>Breakers and fallbacks\<close>

text \<open>
  The outcome of a request is recorded for the model asked first, whoever answered it: when a
  fallback answers, the primary that failed is credited with a success, its breaker stays
  closed, and its failure count does not grow.
\<close>

theorem fallback_masks_primary:
  assumes "cs_cb st = Some cb" "rg_breakers cb (req_Model req) = Some b" "br_state b = StateClosed"
    and "fallbackChain \<noteq> []" "h_retrieval h = None"
    and "Execute (h_chat h) (h_wait h) \<lparr>rd_Provider = [], rd_Model = req_Model req, rd_FallbackChain = fallbackChain\<rparr>
           (AdjustTokenBudget req) (h_router h) (h_retryCfg h) (cs_world st) = ((res, None), w)"
    and "er_FallbackUsed res" "er_Response res = Some resp"
  shows "\<exists>st' cb' b'. answer_request h r auto p req fallbackChain st = Some (JsonReply resp, st') \<and>
    cs_cb st' = Some cb' \<and> rg_breakers cb' (req_Model req) = Some b' \<and> br_state b' = StateClosed \<and> br_failures b' \<le> max 0 (br_failures b)"
proof -
  let ?m = "req_Model req"
  define b1 where "b1 = snd (Breaker_Allow (h_now h (cs_world st)) b)"
  have b1: "Breaker_Allow (h_now h (cs_world st)) b = (True, b1)" "br_state b1 = StateClosed" "br_failures b1 \<le> max 0 (br_failures b)"
    using assms(3) by (auto simp: b1_def Breaker_Allow_def)
  define cb1 where "cb1 = cb\<lparr>rg_breakers := (rg_breakers cb)(?m \<mapsto> b1)\<rparr>"
  have allowed: "is_allowed h ?m st = (True, st\<lparr>cs_cb := Some cb1\<rparr>)"
    using assms(1,2) b1(1) by (simp add: is_allowed_def Registry_IsAllowed_def Registry_get_def cb1_def)
  have call: "call_provider h p req fallbackChain (cs_world st) =
      ((Inr (Some resp), (case er_Provider res of None \<Rightarrow> p | Some q \<Rightarrow> q), res), w)"
    using assms(4,6,8) by (simp add: call_provider_def)
  define b2 where "b2 = Breaker_RecordSuccess (h_now h w) b1"
  have b2: "br_state b2 = StateClosed" "br_failures b2 = br_failures b1"
    using b1(2) by (simp_all add: b2_def Breaker_RecordSuccess_def)
  have recorded: "cs_cb (record_outcome h ?m None (st\<lparr>cs_cb := Some cb1, cs_world := w\<rparr>)) =
      Some (cb1\<lparr>rg_breakers := (rg_breakers cb1)(?m \<mapsto> b2)\<rparr>)"
    using b1(2) b2(1)
    by (simp add: record_outcome_def shouldRecordOutcome_def RecordOutcome_eq view_seen cb1_def b2_def Breaker_record_def Let_def
        split: prod.splits)
  have "\<exists>st'. answer_request h r auto p req fallbackChain st = Some (JsonReply resp, st') \<and>
      cs_cb st' = Some (cb1\<lparr>rg_breakers := (rg_breakers cb1)(?m \<mapsto> b2)\<rparr>)"
    using allowed call recorded assms(5) by (simp add: answer_request_def resolve_answer_def Let_def)
  then show ?thesis using b1(3) b2 by fastforce
qed

text \<open>
  C23. The circle of reversible compression closes: when the model asks for a truncated message by
  the identifier in its marker, before the original expires, the provider is called once more
  with the whole original as the tool's answer. An error of that call is the result. Its answer
  is the reply, with the prompt, completion and total tokens of both calls added; the cache
  tokens are those of the second call alone.
\<close>

theorem retrieval_restores_original:
  assumes "\<not> req_Stream req" "j < length (req_Messages req)"
    and "truncates unmarshal marshal pl (lastUserMessageIndex (req_Messages req)) j (req_Messages req ! j)"
    and "store_room (length (req_Messages req)) s" "inj_on bytes {..<length (req_Messages req)}"
    and "cp_ttl pl > 0 \<Longrightarrow> h_now h (cs_world st) \<le> now + cp_ttl pl"
    and "Compressor_Intercept unmarshal marshal (NewStore_Put ord) pl now bytes req (Some s) = (req', Some (cs_store st))"
    and "resp_Choices resp = choice # choices" "FindCall (msg_ToolCalls (ch_Message choice)) = Some call"
    and "unmarshal (tf_Arguments (tc_Function call)) = Some (JObj [(''id'', JStr (Store_ID (bytes j)))])"
  shows "fst (resolveRetrieval h NewStore_Get unmarshal p req' resp st) =
    (case fst (h_chat h p (req'\<lparr>req_Messages := req_Messages req' @ [ch_Message choice,
        (text_message ''tool'' (msg_Content (req_Messages req ! j)))\<lparr>msg_ToolCallID := tc_ID call\<rparr>]\<rparr>) (cs_world st)) of
       Inl err \<Rightarrow> Inl err
     | Inr final \<Rightarrow> Inr (final\<lparr>resp_Usage :=
         \<lparr>PromptTokens = PromptTokens (resp_Usage resp) + PromptTokens (resp_Usage final),
          CompletionTokens = CompletionTokens (resp_Usage resp) + CompletionTokens (resp_Usage final),
          TotalTokens = TotalTokens (resp_Usage resp) + TotalTokens (resp_Usage final),
          CacheReadInputTokens = CacheReadInputTokens (resp_Usage final),
          CacheCreationInputTokens = CacheCreationInputTokens (resp_Usage final)\<rparr>\<rparr>))"
proof -
  have "fst (NewStore_Get (h_now h (cs_world st)) (Store_ID (bytes j)) (cs_store st)) = Some (msg_Content (req_Messages req ! j))"
    using originals_kept [OF assms(1-6), where ord = ord] assms(7) by auto
  then obtain store where get: "NewStore_Get (h_now h (cs_world st)) (Store_ID (bytes j)) (cs_store st) =
      (Some (msg_Content (req_Messages req ! j)), store)"
    by (metis prod.collapse)
  have "ParseArgs unmarshal (tf_Arguments (tc_Function call)) = Some (Store_ID (bytes j))"
    by (simp add: ParseArgs_def assms(10) json_string_def Store_ID_def)
  with get show ?thesis
    by (simp add: resolveRetrieval_def add_usage_def assms(8,9) Let_def split: prod.splits sum.splits)
qed

definition sample_unmarshal :: "string \<Rightarrow> json option" where
  "sample_unmarshal s = (if s = ''args'' then Some (JObj [(''id'', JStr (Store_ID (sample_bytes 0)))]) else None)"

definition sample_call :: ToolCall where
  "sample_call = \<lparr>tc_ID = ''c'', tc_Type = ''function'', tc_Function = \<lparr>tf_Name = ToolName, tf_Arguments = ''args''\<rparr>\<rparr>"

definition sample_choice :: Choice where
  "sample_choice = \<lparr>ch_Index = 0, ch_Message = (text_message ''assistant'' [])\<lparr>msg_ToolCalls := [sample_call]\<rparr>, ch_FinishReason = ''tool_calls''\<rparr>"

definition sample_asking :: ResponseEnvelope where
  "sample_asking = zero_response\<lparr>resp_Choices := [sample_choice],
     resp_Usage := zero_usage\<lparr>PromptTokens := 7, CompletionTokens := 2, TotalTokens := 9\<rparr>\<rparr>"

lemma sample_truncates_unmarshal:
  "truncates sample_unmarshal (\<lambda>_. None) sample_plugin (lastUserMessageIndex (req_Messages sample_history)) 0 (req_Messages sample_history ! 0)"
  unfolding truncates_def by code_simp

lemma sample_store_ready:
  "\<not> req_Stream sample_history" "0 < length (req_Messages sample_history)"
  "store_room (length (req_Messages sample_history)) (newMemoryBackend 0)" "inj_on sample_bytes {..<length (req_Messages sample_history)}"
  by (auto simp: sample_history_def zero_request_def store_room_def newMemoryBackend_def inj_on_def sample_bytes_def split: if_splits)

theorem retrieval_restores_original_witness:
  "\<exists>req' s. Compressor_Intercept sample_unmarshal (\<lambda>_. None) (NewStore_Put (\<lambda>_. [])) sample_plugin 0 sample_bytes sample_history
      (Some (newMemoryBackend 0)) = (req', Some s) \<and>
    fst (resolveRetrieval sample_handler NewStore_Get sample_unmarshal ''p'' req' sample_asking
      \<lparr>cs_world = (), cs_cb = None, cs_saves = [], cs_events = [], cs_metrics = [], cs_store = s, cs_shadows = []\<rparr>) =
    Inr ((sample_answer req')\<lparr>resp_Usage := zero_usage\<lparr>PromptTokens := 7, CompletionTokens := 2, TotalTokens := 9\<rparr>\<rparr>)"
proof -
  obtain req' s' where run: "Compressor_Intercept sample_unmarshal (\<lambda>_. None) (NewStore_Put (\<lambda>_. [])) sample_plugin 0 sample_bytes sample_history
      (Some (newMemoryBackend 0)) = (req', Some s')"
    using originals_kept [OF sample_store_ready(1,2) sample_truncates_unmarshal sample_store_ready(3,4), of 0 0 "\<lambda>_. []"]
    by (auto simp: sample_plugin_def Compressor_New_def Minute_def)
  define st :: "(unit, memoryBackend) chat_state" where
    "st = \<lparr>cs_world = (), cs_cb = None, cs_saves = [], cs_events = [], cs_metrics = [], cs_store = s', cs_shadows = []\<rparr>"
  have store: "cs_store st = s'" by (simp add: st_def)
  have now: "h_now sample_handler (cs_world st) \<le> 0 + cp_ttl sample_plugin"
    by (simp add: sample_handler_def sample_plugin_def Compressor_New_def Minute_def)
  have call: "resp_Choices sample_asking = sample_choice # []"
    "FindCall (msg_ToolCalls (ch_Message sample_choice)) = Some sample_call"
    "sample_unmarshal (tf_Arguments (tc_Function sample_call)) = Some (JObj [(''id'', JStr (Store_ID (sample_bytes 0)))])"
    by (simp_all add: sample_asking_def sample_choice_def sample_call_def FindCall_def sample_unmarshal_def)
  from retrieval_restores_original [OF sample_store_ready(1,2) sample_truncates_unmarshal sample_store_ready(3,4) now
      run [folded store] call, of "''p''"]
  show ?thesis
    unfolding st_def by (intro exI [of _ req'] exI [of _ s'] conjI run)
      (simp add: sample_answer_def sample_asking_def zero_response_def zero_usage_def)
qed

end
