(* ===== verification/Configuration.thy ===== *)
theory Configuration
  imports Auth Chat
begin

text \<open>
  The configuration file, \<^verbatim>\<open>internal/adapters/config\<close>: its types, loading with environment
  expansion, defaults and validation, and the resolution of secrets. The file system, the
  environment, the YAML decoder and the replies of secret stores are arguments; \<^verbatim>\<open>os.Expand\<close> is
  modelled. A Go map is the list of its entries in the order it is ranged over.
\<close>

section \<open>Types\<close>

record ServerConfig =
  sv_Port :: int
  sv_TLSCert :: string
  sv_TLSKey :: string
  sv_ClientCA :: string

record ProviderConfig =
  pc_APIKey :: string
  pc_BaseURL :: string

record RateLimitConfig =
  rc_WindowSec :: int
  rc_MaxRequests :: int
  rc_MaxTokens :: int

record QuotaConfig =
  qc_DailyRequestCap :: int
  qc_DailyTokenCap :: int
  qc_MonthlyUSDCap :: float64

text \<open>A team is its quotas.\<close>

record FileTenantConfig =
  tc_DisplayName :: string
  tc_Providers :: "(string \<times> ProviderConfig) list"
  tc_RateLimit :: RateLimitConfig
  tc_Quotas :: QuotaConfig
  tc_Teams :: "(string \<times> QuotaConfig) list"

record SessionConfig =
  sc_TTLSec :: int
  sc_MaxTurns :: int
  sc_Dir :: string

record SecretsConfig =
  sec_Enabled :: bool
  sec_VaultAddr :: string
  sec_VaultToken :: string
  sec_AWSRegion :: string

text \<open>A chain of the file has the fields of a chain definition.\<close>

record Config =
  cfg_Server :: ServerConfig
  cfg_Auth :: AuthConfig
  cfg_Providers :: "(string \<times> ProviderConfig) list"
  cfg_Tenants :: "(string \<times> FileTenantConfig) list"
  cfg_RateLimit :: RateLimitConfig
  cfg_LogLevel :: string
  cfg_Secrets :: SecretsConfig
  cfg_Session :: SessionConfig
  cfg_Chains :: "(string \<times> ChainDef) list"

section \<open>Expansion\<close>

text \<open>\<^verbatim>\<open>os.Expand\<close>: the name after a dollar sign, and how many bytes it takes.\<close>

definition isShellSpecialVar :: "char \<Rightarrow> bool" where
  "isShellSpecialVar c \<longleftrightarrow> c \<in> set ''*#$@!?-0123456789''"

definition isAlphaNum :: "char \<Rightarrow> bool" where
  "isAlphaNum c \<longleftrightarrow> (let n = (of_char c :: nat) in
     n = 95 \<or> 48 \<le> n \<and> n \<le> 57 \<or> 97 \<le> n \<and> n \<le> 122 \<or> 65 \<le> n \<and> n \<le> 90)"

definition getShellName :: "string \<Rightarrow> string \<times> nat" where
  "getShellName s = (case s of
      [] \<Rightarrow> ([], 0)
    | c # t \<Rightarrow>
        if c = CHR ''{'' then
          (if length s > 2 \<and> isShellSpecialVar (s ! 1) \<and> s ! 2 = CHR ''}'' then ([s ! 1], 3)
           else if CHR ''}'' \<in> set t then
             (let name = takeWhile (\<lambda>c. c \<noteq> CHR ''}'') t in
              if name = [] then ([], 2) else (name, length name + 2))
           else ([], 1))
        else if isShellSpecialVar c then ([c], 1)
        else (let name = takeWhile isAlphaNum s in (name, length name)))"

function Expand :: "(string \<Rightarrow> string) \<Rightarrow> string \<Rightarrow> string" where
  "Expand mapping [] = []"
| "Expand mapping (c # s) =
     (if c = CHR ''$'' \<and> s \<noteq> [] then
        (let (name, w) = getShellName s;
             piece = (if name \<noteq> [] then mapping name else if w > 0 then [] else [c])
         in piece @ Expand mapping (drop w s))
      else c # Expand mapping s)"
  by pat_completeness auto
termination
  by (relation "measure (\<lambda>(_, s). length s)") auto

section \<open>Loading\<close>

definition DefaultPaths :: "string list" where
  "DefaultPaths = [''ixr.yaml'', ''/etc/ixr/ixr.yaml'']"

definition applyDefaults :: "Config \<Rightarrow> Config" where
  "applyDefaults c =
     (let c = (if sv_Port (cfg_Server c) = 0 then c\<lparr>cfg_Server := (cfg_Server c)\<lparr>sv_Port := 7000\<rparr>\<rparr> else c);
          c = (if cfg_LogLevel c = [] then c\<lparr>cfg_LogLevel := ''info''\<rparr> else c)
      in if rc_WindowSec (cfg_RateLimit c) = 0 then c\<lparr>cfg_RateLimit := (cfg_RateLimit c)\<lparr>rc_WindowSec := 60\<rparr>\<rparr> else c)"

text \<open>The violations in the order they are appended; \<^verbatim>\<open>errors.Join\<close> of none is no error.\<close>

definition config_violations :: "Config \<Rightarrow> string list" where
  "config_violations cfg =
     (if sv_Port (cfg_Server cfg) < 1 \<or> sv_Port (cfg_Server cfg) > 65535
      then [''server.port '' @ Itoa (sv_Port (cfg_Server cfg)) @ '' is not in [1, 65535]''] else []) @
     (if jwt_Secret (auth_JWT (cfg_Auth cfg)) \<noteq> [] \<and> jwt_JWKSURL (auth_JWT (cfg_Auth cfg)) \<noteq> []
      then [''auth.jwt: secret and jwks_url are mutually exclusive''] else []) @
     concat (map (\<lambda>(i, k). if ak_Key k = [] then [''auth.api_keys['' @ Itoa (int i) @ '']: key must not be empty''] else [])
       (enumerate 0 (auth_APIKeys (cfg_Auth cfg)))) @
     (if (rc_MaxRequests (cfg_RateLimit cfg) > 0 \<or> rc_MaxTokens (cfg_RateLimit cfg) > 0) \<and> rc_WindowSec (cfg_RateLimit cfg) \<le> 0
      then [''rate_limit.window_sec must be > 0 when limits are set''] else []) @
     (if sv_TLSCert (cfg_Server cfg) \<noteq> [] \<and> sv_TLSKey (cfg_Server cfg) = []
      then [''server.tls_cert is set but server.tls_key is missing''] else []) @
     (if sv_TLSKey (cfg_Server cfg) \<noteq> [] \<and> sv_TLSCert (cfg_Server cfg) = []
      then [''server.tls_key is set but server.tls_cert is missing''] else [])"

definition Validate :: "Config \<Rightarrow> goerror option" where
  "Validate cfg = (if config_violations cfg = [] then None else Some (plain_error (Join (config_violations cfg) [CHR 0x0A])))"

text \<open>\<open>readFile\<close> and \<open>parse\<close> are \<^verbatim>\<open>os.ReadFile\<close> and \<^verbatim>\<open>yaml.Unmarshal\<close>, \<open>getenv\<close> is \<^verbatim>\<open>os.Getenv\<close>.\<close>

definition Load :: "(string \<Rightarrow> goerror + string) \<Rightarrow> (string \<Rightarrow> string) \<Rightarrow> (string \<Rightarrow> goerror + Config) \<Rightarrow> string \<Rightarrow> goerror + Config" where
  "Load readFile getenv parse path = (case readFile path of
      Inl err \<Rightarrow> Inl (err\<lparr>err_msg := ''config: read '' @ path @ '': '' @ err_msg err\<rparr>)
    | Inr raw \<Rightarrow> (case parse (Expand getenv raw) of
        Inl err \<Rightarrow> Inl (err\<lparr>err_msg := ''config: parse '' @ path @ '': '' @ err_msg err\<rparr>)
      | Inr cfg \<Rightarrow>
          let cfg = applyDefaults cfg in
          (case Validate cfg of
             Some err \<Rightarrow> Inl (err\<lparr>err_msg := ''config: validation: '' @ err_msg err\<rparr>)
           | None \<Rightarrow> Inr cfg)))"

definition Discover :: "(string \<Rightarrow> bool) \<Rightarrow> (string \<Rightarrow> goerror + Config) \<Rightarrow> goerror + Config option" where
  "Discover exists load = (case find exists DefaultPaths of
      None \<Rightarrow> Inr None
    | Some p \<Rightarrow> map_sum (\<lambda>e. e) Some (load p))"

section \<open>Secrets\<close>

text \<open>The reply of a secret store: an error of the transport, or a status with the decoded payload.\<close>

type_synonym 'd secret_reply = "goerror + int \<times> string \<times> (goerror + 'd)"

definition resolveVault :: "(string \<Rightarrow> string \<Rightarrow> (string \<times> string) list secret_reply) \<Rightarrow> string \<Rightarrow> string \<Rightarrow> string \<Rightarrow> goerror + string" where
  "resolveVault get addr token path =
     (if addr = [] then Inl (plain_error ''vault addr not configured'')
      else case get (TrimRightIf (\<lambda>c. c = CHR ''/'') addr @ ''/v1/'' @ dropWhile (\<lambda>c. c = CHR ''/'') path) token of
        Inl err \<Rightarrow> Inl err
      | Inr (status, body, payload) \<Rightarrow>
          if status \<noteq> 200 then Inl (plain_error (''vault: status '' @ Itoa status @ '': '' @ body))
          else (case payload of
             Inl err \<Rightarrow> Inl (err\<lparr>err_msg := ''vault: decode response: '' @ err_msg err\<rparr>)
           | Inr data \<Rightarrow> (case map_of data ''value'' of
               Some v \<Rightarrow> Inr v
             | None \<Rightarrow> (case data of (_, v) # _ \<Rightarrow> Inr v | [] \<Rightarrow> Inl (plain_error (''vault: no data at '' @ path))))))"

definition resolveSSM :: "(string \<Rightarrow> string) \<Rightarrow> (string \<Rightarrow> string \<Rightarrow> string secret_reply) \<Rightarrow> string \<Rightarrow> string \<Rightarrow> goerror + string" where
  "resolveSSM getenv post region paramName =
     (let region = (if region = [] then getenv ''AWS_DEFAULT_REGION'' else region) in
      if region = [] then Inl (plain_error ''ssm: AWS region not configured'')
      else case post (''https://ssm.'' @ region @ ''.amazonaws.com/'')
          (''{'' @ quote_char @ ''Name'' @ quote_char @ '':'' @ quote_char @ paramName @ quote_char @ '','' @
           quote_char @ ''WithDecryption'' @ quote_char @ '':true}'') of
        Inl err \<Rightarrow> Inl err
      | Inr (status, body, payload) \<Rightarrow>
          if status \<noteq> 200 then Inl (plain_error (''ssm: status '' @ Itoa status @ '': '' @ body))
          else (case payload of
             Inl err \<Rightarrow> Inl (err\<lparr>err_msg := ''ssm: decode response: '' @ err_msg err\<rparr>)
           | Inr v \<Rightarrow> Inr v))"

text \<open>A reference: \<open>vault\<close> and \<open>ssm\<close> resolve a path, anything else is a variable of the environment.\<close>

definition resolve_ref :: "(string \<Rightarrow> goerror + string) \<Rightarrow> (string \<Rightarrow> goerror + string) \<Rightarrow> (string \<Rightarrow> string) \<Rightarrow> string \<Rightarrow> string" where
  "resolve_ref vault ssm getenv ref =
     (if HasPrefix ref ''vault:'' then
        (let path = drop (length ''vault:'') ref in
         case vault path of Inr v \<Rightarrow> v | Inl _ \<Rightarrow> ''${vault:'' @ path @ ''}'')
      else if HasPrefix ref ''ssm:'' then
        (let path = drop (length ''ssm:'') ref in
         case ssm path of Inr v \<Rightarrow> v | Inl _ \<Rightarrow> ''${ssm:'' @ path @ ''}'')
      else getenv ref)"

text \<open>
  The returned configuration and what is left in the caller's: the copy of the struct shares its
  provider map and its key slice with the original, the other fields are its own.
\<close>

definition ExpandSecrets :: "(string \<Rightarrow> goerror + string) \<Rightarrow> (string \<Rightarrow> goerror + string) \<Rightarrow> (string \<Rightarrow> string) \<Rightarrow> Config \<Rightarrow> Config \<times> Config" where
  "ExpandSecrets vault ssm getenv cfg =
     (if \<not> sec_Enabled (cfg_Secrets cfg) then (cfg, cfg)
      else
        let expand = Expand (resolve_ref vault ssm getenv);
            shared = cfg\<lparr>cfg_Providers := map (\<lambda>(n, pc). (n, \<lparr>pc_APIKey = expand (pc_APIKey pc), pc_BaseURL = expand (pc_BaseURL pc)\<rparr>)) (cfg_Providers cfg),
              cfg_Auth := (cfg_Auth cfg)\<lparr>auth_APIKeys := map (\<lambda>k. k\<lparr>ak_Key := expand (ak_Key k)\<rparr>) (auth_APIKeys (cfg_Auth cfg))\<rparr>\<rparr>;
            jwt = auth_JWT (cfg_Auth cfg)
        in (shared\<lparr>cfg_Auth := (cfg_Auth shared)\<lparr>auth_JWT := jwt\<lparr>jwt_Secret := expand (jwt_Secret jwt)\<rparr>\<rparr>,
              cfg_Secrets := (cfg_Secrets cfg)\<lparr>sec_VaultToken := expand (sec_VaultToken (cfg_Secrets cfg))\<rparr>\<rparr>, shared))"

section \<open>Properties of expansion\<close>

lemma Expand_plain: "CHR ''$'' \<notin> set s \<Longrightarrow> Expand m s = s"
  by (induction s) auto

lemma Expand_plain_append: "CHR ''$'' \<notin> set s \<Longrightarrow> Expand m (s @ t) = s @ Expand m t"
  by (induction s) auto

lemma getShellName_braced:
  assumes "CHR ''}'' \<notin> set name" "name \<noteq> []"
  shows "getShellName (CHR ''{'' # name @ CHR ''}'' # t) = (name, length name + 2)"
proof -
  obtain c n where n: "name = c # n" using assms(2) by (cases name) auto
  have "takeWhile (\<lambda>c. c \<noteq> CHR ''}'') (name @ CHR ''}'' # t) = name"
    using assms(1) by (auto simp: takeWhile_append)
  then show ?thesis using assms n by (cases n) (auto simp: getShellName_def Let_def)
qed

lemma Expand_braced:
  assumes "CHR ''}'' \<notin> set name" "name \<noteq> []"
  shows "Expand m (''${'' @ name @ ''}'' @ t) = m name @ Expand m t"
  using getShellName_braced [OF assms, of t] assms(2) by simp

text \<open>
  Text around a braced reference is kept and the reference is replaced by the variable. Load
  expands the whole file before it is parsed, so a reference to a secret is replaced by the
  variable of that name, which normally is unset: nothing is left for the secret resolution.
\<close>

lemma secret_reference_erased:
  assumes "CHR ''}'' \<notin> set path" "getenv (''vault:'' @ path) = []"
  shows "Expand getenv (''api_key: ${vault:'' @ path @ ''}'') = ''api_key: ''"
  using Expand_plain_append [of "''api_key: ''" getenv "''${'' @ (''vault:'' @ path) @ ''}'' @ []"]
    Expand_braced [of "''vault:'' @ path" getenv "[]"] assms by simp

text \<open>A dollar sign inside a value is taken for a variable.\<close>

lemma dollar_in_value_lost: "Expand (\<lambda>_. []) ''pa$$word'' = ''paword''"
  by code_simp

text \<open>Expanding the secrets changes the configuration it was given.\<close>

lemma ExpandSecrets_mutates:
  "sec_Enabled (cfg_Secrets cfg) \<Longrightarrow> auth_APIKeys (cfg_Auth (snd (ExpandSecrets vault ssm getenv cfg))) =
     auth_APIKeys (cfg_Auth (fst (ExpandSecrets vault ssm getenv cfg))) \<and>
   cfg_Providers (snd (ExpandSecrets vault ssm getenv cfg)) = cfg_Providers (fst (ExpandSecrets vault ssm getenv cfg))"
  by (simp add: ExpandSecrets_def Let_def)

section \<open>What a loaded configuration satisfies\<close>

lemma config_violations_nil:
  "config_violations cfg = [] \<longleftrightarrow>
     1 \<le> sv_Port (cfg_Server cfg) \<and> sv_Port (cfg_Server cfg) \<le> 65535 \<and>
     (jwt_Secret (auth_JWT (cfg_Auth cfg)) = [] \<or> jwt_JWKSURL (auth_JWT (cfg_Auth cfg)) = []) \<and>
     [] \<notin> ak_Key ` set (auth_APIKeys (cfg_Auth cfg)) \<and>
     (rc_MaxRequests (cfg_RateLimit cfg) > 0 \<or> rc_MaxTokens (cfg_RateLimit cfg) > 0 \<longrightarrow> rc_WindowSec (cfg_RateLimit cfg) > 0) \<and>
     (sv_TLSCert (cfg_Server cfg) = [] \<longleftrightarrow> sv_TLSKey (cfg_Server cfg) = [])"
proof -
  have keys: "concat (map (\<lambda>(i, k). if ak_Key k = [] then [''auth.api_keys['' @ Itoa (int i) @ '']: key must not be empty''] else [])
      (enumerate n ks)) = [] \<longleftrightarrow> [] \<notin> ak_Key ` set ks" for n ks
    by (induction ks arbitrary: n) auto
  show ?thesis by (auto simp: config_violations_def keys simp del: concat_eq_Nil_conv)
qed

definition valid_config :: "Config \<Rightarrow> bool" where
  "valid_config cfg \<longleftrightarrow>
     1 \<le> sv_Port (cfg_Server cfg) \<and> sv_Port (cfg_Server cfg) \<le> 65535 \<and> cfg_LogLevel cfg \<noteq> [] \<and>
     (jwt_Secret (auth_JWT (cfg_Auth cfg)) = [] \<or> jwt_JWKSURL (auth_JWT (cfg_Auth cfg)) = []) \<and>
     [] \<notin> ak_Key ` set (auth_APIKeys (cfg_Auth cfg)) \<and>
     rc_WindowSec (cfg_RateLimit cfg) \<noteq> 0 \<and>
     (rc_MaxRequests (cfg_RateLimit cfg) > 0 \<or> rc_MaxTokens (cfg_RateLimit cfg) > 0 \<longrightarrow> rc_WindowSec (cfg_RateLimit cfg) > 0) \<and>
     (sv_TLSCert (cfg_Server cfg) = [] \<longleftrightarrow> sv_TLSKey (cfg_Server cfg) = [])"

text \<open>
  Loading succeeds exactly when the file can be read, parses after expansion, and the parsed
  configuration with its defaults is valid: a port in range, at most one way to verify tokens, no
  empty key, a window where there are limits, and certificate and key together.
\<close>

theorem Load_valid:
  "(\<exists>cfg. Load readFile getenv parse path = Inr cfg) \<longleftrightarrow>
     (\<exists>raw cfg. readFile path = Inr raw \<and> parse (Expand getenv raw) = Inr cfg \<and> valid_config (applyDefaults cfg))"
proof -
  have "cfg_LogLevel (applyDefaults cfg) \<noteq> []" "rc_WindowSec (cfg_RateLimit (applyDefaults cfg)) \<noteq> 0" for cfg
    by (auto simp: applyDefaults_def Let_def)
  then have valid: "Validate (applyDefaults cfg) = None \<longleftrightarrow> valid_config (applyDefaults cfg)" for cfg
    by (auto simp: Validate_def config_violations_nil valid_config_def)
  show ?thesis
    by (auto simp: Load_def Let_def valid [symmetric] split: sum.splits option.splits)
qed

end
