(* ===== verification/EventBus.thy ===== *)
theory EventBus
  imports Budget
begin

text \<open>
  Event delivery: the in-memory bus, the webhook bus and the fan-out of \<^verbatim>\<open>internal/adapters/bus\<close>,
  behind the interface of \<^verbatim>\<open>pkg/bus\<close>. A buffered channel is the list of its elements with its
  capacity. The subscribers act on one state \<open>'s\<close>, the heap the plugins share; what a subscriber
  returns is an error, a panic, or neither.
\<close>

section \<open>Buses\<close>

datatype outcome = Handled | Errored | Panicked

type_synonym 's consumer = "CallEvent \<Rightarrow> 's \<Rightarrow> outcome \<times> 's"

definition defaultBufferSize :: nat where "defaultBufferSize = 1024"

record 's MemoryBus =
  bus_cap :: nat
  bus_ch :: "CallEvent list"
  bus_subscribers :: "'s consumer list"

definition NewMemoryBus :: "int \<Rightarrow> 's MemoryBus" where
  "NewMemoryBus bufSize = \<lparr>bus_cap = (if bufSize \<le> 0 then defaultBufferSize else nat bufSize), bus_ch = [], bus_subscribers = []\<rparr>"

definition MemoryBus_Subscribe :: "'s consumer \<Rightarrow> 's MemoryBus \<Rightarrow> 's MemoryBus" where
  "MemoryBus_Subscribe c m = m\<lparr>bus_subscribers := bus_subscribers m @ [c]\<rparr>"

definition MemoryBus_Publish :: "CallEvent \<Rightarrow> 's MemoryBus \<Rightarrow> goerror option \<times> 's MemoryBus" where
  "MemoryBus_Publish ev m = (None, if length (bus_ch m) < bus_cap m then m\<lparr>bus_ch := bus_ch m @ [ev]\<rparr> else m)"

text \<open>A panic of one subscriber is recovered, so the next one runs whatever the outcome.\<close>

definition MemoryBus_dispatch :: "'s consumer list \<Rightarrow> CallEvent \<Rightarrow> 's \<Rightarrow> 's" where
  "MemoryBus_dispatch subs ev s = foldl (\<lambda>s c. snd (c ev s)) s subs"

text \<open>
  The dispatch loop: one round takes the oldest event, and when the context is cancelled the rest
  of the buffer is drained.
\<close>

definition MemoryBus_round :: "'s MemoryBus \<times> 's \<Rightarrow> 's MemoryBus \<times> 's" where
  "MemoryBus_round ms = (case bus_ch (fst ms) of
      [] \<Rightarrow> ms
    | ev # rest \<Rightarrow> ((fst ms)\<lparr>bus_ch := rest\<rparr>, MemoryBus_dispatch (bus_subscribers (fst ms)) ev (snd ms)))"

function MemoryBus_drain :: "'s MemoryBus \<times> 's \<Rightarrow> 's MemoryBus \<times> 's" where
  "MemoryBus_drain ms = (if bus_ch (fst ms) = [] then ms else MemoryBus_drain (MemoryBus_round ms))"
  by pat_completeness auto
termination
  by (relation "measure (\<lambda>ms. length (bus_ch (fst ms)))") (auto simp: MemoryBus_round_def split: list.splits)

declare MemoryBus_drain.simps [simp del]

record 's WebhookBus =
  wb_urls :: "string list"
  wb_headers :: "(string \<times> string) list"
  wb_ch :: "CallEvent list"
  wb_subs :: "'s consumer list"

definition NewWebhookBus :: "string list \<Rightarrow> (string \<times> string) list \<Rightarrow> 's WebhookBus" where
  "NewWebhookBus urls headers = \<lparr>wb_urls = urls, wb_headers = headers, wb_ch = [], wb_subs = []\<rparr>"

definition WebhookBus_Subscribe :: "'s consumer \<Rightarrow> 's WebhookBus \<Rightarrow> 's WebhookBus" where
  "WebhookBus_Subscribe c b = b\<lparr>wb_subs := wb_subs b @ [c]\<rparr>"

definition WebhookBus_Publish :: "CallEvent \<Rightarrow> 's WebhookBus \<Rightarrow> goerror option \<times> 's WebhookBus" where
  "WebhookBus_Publish ev b = (None, if length (wb_ch b) < 512 then b\<lparr>wb_ch := wb_ch b @ [ev]\<rparr> else b)"

text \<open>The local subscribers, without a recover: a panic ends the process, \<open>None\<close>.\<close>

fun webhook_local :: "'s consumer list \<Rightarrow> CallEvent \<Rightarrow> 's \<Rightarrow> 's option" where
  "webhook_local [] ev s = Some s"
| "webhook_local (c # cs) ev s = (case c ev s of
      (Panicked, _) \<Rightarrow> None
    | (_, s) \<Rightarrow> webhook_local cs ev s)"

text \<open>The requests sent, as URL, headers and body; \<open>marshal\<close> is \<^verbatim>\<open>json.Marshal\<close>.\<close>

definition WebhookBus_deliver :: "(CallEvent \<Rightarrow> string option) \<Rightarrow> 's WebhookBus \<Rightarrow> CallEvent \<Rightarrow> 's \<Rightarrow>
    (string \<times> (string \<times> string) list \<times> string) list \<times> 's option" where
  "WebhookBus_deliver marshal b ev s = (case marshal ev of
      None \<Rightarrow> ([], Some s)
    | Some body \<Rightarrow> (map (\<lambda>url. (url, (''Content-Type'', ''application/json'') # wb_headers b, body)) (wb_urls b),
        webhook_local (wb_subs b) ev s))"

text \<open>The fan-out over child buses of one type, given by what they do on \<^verbatim>\<open>Publish\<close> and \<^verbatim>\<open>Subscribe\<close>.\<close>

definition Fanout_Subscribe :: "('s consumer \<Rightarrow> 'b \<Rightarrow> 'b) \<Rightarrow> 's consumer \<Rightarrow> 'b list \<Rightarrow> 'b list" where
  "Fanout_Subscribe subscribe c children = map (subscribe c) children"

fun Fanout_Publish :: "(CallEvent \<Rightarrow> 'b \<Rightarrow> goerror option \<times> 'b) \<Rightarrow> CallEvent \<Rightarrow> 'b list \<Rightarrow> goerror option \<times> 'b list" where
  "Fanout_Publish publish ev [] = (None, [])"
| "Fanout_Publish publish ev (b # bs) = (case publish ev b of (err, b) \<Rightarrow>
     (case Fanout_Publish publish ev bs of (err', bs) \<Rightarrow>
        (case err of None \<Rightarrow> err' | Some e \<Rightarrow> Some e, b # bs)))"

section \<open>The bus contract\<close>

text \<open>
  What a publisher relies on: \<^verbatim>\<open>Publish\<close> never fails, queues the event behind the ones already
  queued when there is room, and otherwise drops it.
\<close>

locale event_bus =
  fixes publish :: "CallEvent \<Rightarrow> 'b \<Rightarrow> goerror option \<times> 'b"
    and pending :: "'b \<Rightarrow> CallEvent list"
    and room :: "'b \<Rightarrow> nat"
  assumes publish_ok: "fst (publish ev b) = None"
    and publish_pending: "pending (snd (publish ev b)) = (if 0 < room b then pending b @ [ev] else pending b)"
    and publish_room: "room (snd (publish ev b)) = room b - 1"
begin

definition publish_all :: "CallEvent list \<Rightarrow> 'b \<Rightarrow> 'b" where
  "publish_all evs b = foldl (\<lambda>b ev. snd (publish ev b)) b evs"

text \<open>Of a burst of events, exactly the first ones that fit are queued, in order.\<close>

lemma burst: "pending (publish_all evs b) = pending b @ take (room b) evs"
proof (induction evs arbitrary: b)
  case (Cons ev evs)
  have "publish_all (ev # evs) b = publish_all evs (snd (publish ev b))" by (simp add: publish_all_def)
  with Cons [of "snd (publish ev b)"] show ?case
    by (cases "room b") (simp_all add: publish_pending publish_room)
qed (simp add: publish_all_def)

text \<open>A fan-out over such buses never fails and publishes to every child.\<close>

lemma fanout_publish: "Fanout_Publish publish ev bs = (None, map (\<lambda>b. snd (publish ev b)) bs)"
proof (induction bs)
  case (Cons b bs)
  moreover obtain err b' where p: "publish ev b = (err, b')" by fastforce
  moreover have "err = None" using publish_ok [of ev b] p by simp
  ultimately show ?case by simp
qed simp

end

interpretation membus: event_bus MemoryBus_Publish bus_ch "\<lambda>m. bus_cap m - length (bus_ch m)"
  by unfold_locales (auto simp: MemoryBus_Publish_def)

interpretation webhook: event_bus WebhookBus_Publish wb_ch "\<lambda>b. 512 - length (wb_ch b)"
  by unfold_locales (auto simp: WebhookBus_Publish_def)

section \<open>Runs of the in-memory bus\<close>

datatype bus_op = Published CallEvent | Dispatched

fun bus_step :: "'s MemoryBus \<times> 's \<Rightarrow> bus_op \<Rightarrow> 's MemoryBus \<times> 's" where
  "bus_step ms (Published ev) = (snd (MemoryBus_Publish ev (fst ms)), snd ms)"
| "bus_step ms Dispatched = MemoryBus_round ms"

text \<open>The events a run accepts: those published while the buffer has room.\<close>

fun accepted :: "'s MemoryBus \<times> 's \<Rightarrow> bus_op list \<Rightarrow> CallEvent list" where
  "accepted ms [] = []"
| "accepted ms (op # ops) = (case op of
      Published ev \<Rightarrow> if length (bus_ch (fst ms)) < bus_cap (fst ms) then [ev] else []
    | Dispatched \<Rightarrow> []) @ accepted (bus_step ms op) ops"

text \<open>
  The reference the bus is compared with: every subscriber is called on every event, events in
  the order given and the subscribers of one event in the order they subscribed, and what a call
  returns (an error, a panic) changes nothing for the calls after it. \<^const>\<open>List.product\<close> lists
  the pairs, so the number and the order of the calls do not come from the dispatch loop.
\<close>

definition handle_all :: "'s consumer list \<Rightarrow> CallEvent list \<Rightarrow> 's \<Rightarrow> 's" where
  "handle_all subs evs s = fold (\<lambda>(ev, c) s. snd (c ev s)) (List.product evs subs) s"

lemma dispatch_calls: "MemoryBus_dispatch subs ev s = fold (\<lambda>(ev, c) s. snd (c ev s)) (map (Pair ev) subs) s"
  by (induction subs arbitrary: s) (simp_all add: MemoryBus_dispatch_def)

lemma product_append: "List.product (xs @ xs') ys = List.product xs ys @ List.product xs' ys"
  by (induction xs) simp_all

lemma handle_all_simps [simp]:
  "handle_all subs [] s = s" "handle_all subs (ev # evs) s = handle_all subs evs (MemoryBus_dispatch subs ev s)"
  "handle_all subs (evs @ evs') s = handle_all subs evs' (handle_all subs evs s)"
  by (simp_all add: handle_all_def dispatch_calls product_append)

lemma drain_handles: "MemoryBus_drain ms = ((fst ms)\<lparr>bus_ch := []\<rparr>, handle_all (bus_subscribers (fst ms)) (bus_ch (fst ms)) (snd ms))"
proof (induction ms rule: MemoryBus_drain.induct)
  case (1 ms)
  then show ?case
    by (cases "bus_ch (fst ms)"; subst MemoryBus_drain.simps) (auto simp: MemoryBus_round_def prod_eq_iff)
qed

lemma bus_step_drained:
  "MemoryBus_drain (bus_step ms op) = ((fst ms)\<lparr>bus_ch := []\<rparr>,
     handle_all (bus_subscribers (fst ms)) (bus_ch (fst ms) @ accepted ms [op]) (snd ms))"
  by (cases op) (auto simp: drain_handles MemoryBus_Publish_def MemoryBus_round_def split: list.splits)

lemma bus_step_const [simp]:
  "bus_subscribers (fst (bus_step ms op)) = bus_subscribers (fst ms)" "bus_cap (fst (bus_step ms op)) = bus_cap (fst ms)"
  by (cases op; auto simp: MemoryBus_Publish_def MemoryBus_round_def split: list.splits)+

lemma bus_step_bounded: "length (bus_ch (fst ms)) \<le> bus_cap (fst ms) \<Longrightarrow> length (bus_ch (fst (bus_step ms op))) \<le> bus_cap (fst ms)"
  by (cases op) (auto simp: MemoryBus_Publish_def MemoryBus_round_def split: list.splits)

lemma run_drained:
  "snd (MemoryBus_drain (foldl bus_step ms ops)) = handle_all (bus_subscribers (fst ms)) (bus_ch (fst ms) @ accepted ms ops) (snd ms)"
proof (induction ops arbitrary: ms)
  case (Cons op ops)
  then show ?case using bus_step_drained [of ms op] by (simp add: drain_handles)
qed (simp add: drain_handles)

lemma run_bounded: "length (bus_ch (fst ms)) \<le> bus_cap (fst ms) \<Longrightarrow> length (bus_ch (fst (foldl bus_step ms ops))) \<le> bus_cap (fst ms)"
proof (induction ops arbitrary: ms)
  case (Cons op ops)
  then show ?case using bus_step_bounded [of ms op] Cons.IH [of "bus_step ms op"] by simp
qed simp

text \<open>
  C13. However publishing and dispatching interleave, after the final drain every subscriber has
  been called on exactly the accepted events, once each, events in the order they were published
  and the subscribers of an event in the order they subscribed, whatever the calls before it
  returned or panicked; and the buffer is never longer than its capacity.
\<close>

theorem bus_delivers_accepted:
  assumes "length (bus_ch (fst ms)) \<le> bus_cap (fst ms)"
  shows "snd (MemoryBus_drain (foldl bus_step ms ops)) =
      fold (\<lambda>(ev, c) s. snd (c ev s))
        (List.product (bus_ch (fst ms) @ accepted ms ops) (bus_subscribers (fst ms))) (snd ms) \<and>
    length (bus_ch (fst (foldl bus_step ms ops))) \<le> bus_cap (fst ms)"
  using run_drained run_bounded [OF assms] unfolding handle_all_def by blast

text \<open>
  A bus with room for two events and two subscribers that append to a log; the first panics on
  every call and the second still sees every accepted event.
\<close>

definition sample_logger :: "nat \<Rightarrow> outcome \<Rightarrow> nat list consumer" where
  "sample_logger n out ev seen = (out, seen @ [n])"

theorem bus_delivers_accepted_witness:
  "snd (MemoryBus_drain (foldl bus_step
     (MemoryBus_Subscribe (sample_logger 2 Handled) (MemoryBus_Subscribe (sample_logger 1 Panicked) (NewMemoryBus 2)), [])
     [Published zero_event, Published zero_event, Published zero_event, Dispatched, Published zero_event])) =
   [1, 2, 1, 2, 1, 2]"
proof -
  let ?ms = "(MemoryBus_Subscribe (sample_logger 2 Handled)
      (MemoryBus_Subscribe (sample_logger 1 Panicked) (NewMemoryBus 2)), [])"
  have "length (bus_ch (fst ?ms)) \<le> bus_cap (fst ?ms)" by (simp add: MemoryBus_Subscribe_def NewMemoryBus_def)
  note run = conjunct1 [OF bus_delivers_accepted [OF this]]
  show ?thesis
    unfolding run by (simp add: MemoryBus_Subscribe_def NewMemoryBus_def MemoryBus_Publish_def MemoryBus_round_def
        sample_logger_def)
qed

text \<open>Of a burst with no dispatch in between, the bus of the gateway keeps the first 1024 events.\<close>

lemma burst_keeps_first:
  "bus_ch (membus.publish_all evs (NewMemoryBus 0)) = take 1024 evs"
  by (simp add: membus.burst NewMemoryBus_def defaultBufferSize_def)

section \<open>Budget accounting through the bus\<close>

text \<open>The budget plugin as a subscriber, on its part of the plugins' state; \<open>now\<close> is the clock when it runs.\<close>

definition budget_consumer :: "('o \<Rightarrow> time) \<Rightarrow> (BudgetPlugin \<times> 'o) consumer" where
  "budget_consumer now ev s = (Handled, snd (Budget_OnEvent (now (snd s)) ev (fst s)), snd s)"

lemma dispatch_keeps_budget:
  "\<forall>c \<in> set cs. \<forall>ev s. fst (snd (c ev s)) = fst s \<Longrightarrow> fst (MemoryBus_dispatch cs ev s) = fst s"
  by (induction cs arbitrary: s) (auto simp: MemoryBus_dispatch_def)

lemma dispatch_budget:
  assumes "\<forall>c \<in> set (before @ after). \<forall>ev s. fst (snd (c ev s)) = fst s"
  shows "spent_of (fst (MemoryBus_dispatch (before @ budget_consumer now # after) ev s)) k = spent_of (fst s) k + op_cost k (Observed t ev)"
proof -
  let ?s = "MemoryBus_dispatch before ev s"
  have "fst (MemoryBus_dispatch (before @ budget_consumer now # after) ev s) =
      fst (MemoryBus_dispatch after ev (snd (budget_consumer now ev ?s)))"
    by (simp add: MemoryBus_dispatch_def)
  also have "\<dots> = snd (Budget_OnEvent (now (snd ?s)) ev (fst s))"
    using assms by (subst dispatch_keeps_budget) (auto simp: budget_consumer_def dispatch_keeps_budget)
  finally show ?thesis using step_spent [of "fst s" "Observed (now (snd ?s)) ev" k] by simp
qed

text \<open>
  C14. The ledger behind the bus: with any other plugins subscribed that leave the budget alone, even
  ones that panic on every event, the spend of a scope after the bus is drained is what it was
  plus the cost of exactly the accepted events under the scope.
\<close>

theorem budget_counts_accepted:
  assumes "bus_subscribers m = before @ budget_consumer now # after" "bus_ch m = []"
    and others: "\<forall>c \<in> set (before @ after). \<forall>ev s. fst (snd (c ev s)) = fst s"
  shows "spent_of (fst (snd (MemoryBus_drain (foldl bus_step (m, s) ops)))) k =
    spent_of (fst s) k + sum_list (map (\<lambda>ev. op_cost k (Observed 0 ev)) (accepted (m, s) ops))"
proof -
  have handled: "spent_of (fst (handle_all (bus_subscribers m) evs s)) k = spent_of (fst s) k +
      sum_list (map (\<lambda>ev. op_cost k (Observed 0 ev)) evs)" for evs s
  proof (induction evs arbitrary: s)
    case (Cons ev evs)
    then show ?case using dispatch_budget [OF others, of now ev s k 0] by (simp add: assms(1))
  qed simp
  show ?thesis using handled [of "accepted (m, s) ops" s] assms(2) by (simp add: run_drained)
qed

text \<open>With room for one event, the second of two paid calls is not charged.\<close>

definition sample_panicker :: "(BudgetPlugin \<times> unit) consumer" where
  "sample_panicker ev s = (Panicked, s)"

definition sample_bus :: "(BudgetPlugin \<times> unit) MemoryBus" where
  "sample_bus = MemoryBus_Subscribe (budget_consumer (\<lambda>_. 7)) (MemoryBus_Subscribe sample_panicker (NewMemoryBus 1))"

theorem budget_counts_accepted_witness:
  "spent_of (fst (snd (MemoryBus_drain (foldl bus_step (sample_bus, Budget_New sample_limits False None, ())
     [Published (sample_paid_event 2), Published (sample_paid_event 4)])))) ''acme'' = 2"
proof -
  have subs: "bus_subscribers sample_bus = [sample_panicker] @ budget_consumer (\<lambda>_. 7) # []" "bus_ch sample_bus = []"
    by (simp_all add: sample_bus_def MemoryBus_Subscribe_def NewMemoryBus_def)
  have "\<forall>c \<in> set ([sample_panicker] @ []). \<forall>ev s. fst (snd (c ev s)) = fst s" by (simp add: sample_panicker_def)
  note run = budget_counts_accepted [OF subs this]
  show ?thesis
    unfolding run
    by (simp add: sample_bus_def MemoryBus_Subscribe_def NewMemoryBus_def MemoryBus_Publish_def Budget_New_def sample_event_simps)
qed

end
