(* ===== verification/Gateway.thy ===== *)
theory Gateway
  imports Configuration EventBus
begin

text \<open>
  The gateway that puts the parts together, \<^verbatim>\<open>pkg/ixr/ixr.go\<close>: settings from the environment and the
  file, the provider registry, the routing of model names to providers, the limits and
  interceptors that are configured, and the chain of handlers in front of chat completions. An
  adapter is the arguments its package's \<^verbatim>\<open>New\<close> was given. \<open>getenv\<close> is \<^verbatim>\<open>os.Getenv\<close>.
\<close>

section \<open>Settings\<close>

definition envInt :: "(string \<Rightarrow> string) \<Rightarrow> string \<Rightarrow> int \<Rightarrow> int" where
  "envInt getenv key dflt = (let v = getenv key in
     if v \<noteq> [] then (case Atoi v of Some n \<Rightarrow> n | None \<Rightarrow> dflt) else dflt)"

definition envFloat :: "(string \<Rightarrow> float64 option) \<Rightarrow> (string \<Rightarrow> string) \<Rightarrow> string \<Rightarrow> float64 \<Rightarrow> float64" where
  "envFloat parseFloat getenv key dflt = (let v = getenv key in
     if v \<noteq> [] then (case parseFloat v of Some f \<Rightarrow> f | None \<Rightarrow> dflt) else dflt)"

definition envString :: "(string \<Rightarrow> string) \<Rightarrow> string \<Rightarrow> string \<Rightarrow> string" where
  "envString getenv key dflt = (let v = getenv key in if v \<noteq> [] then v else dflt)"

datatype log_level = LevelDebug | LevelInfo | LevelWarn | LevelError

definition logLevelFromConfig :: "Config option \<Rightarrow> log_level" where
  "logLevelFromConfig fileCfg =
     (let level = ToLower (TrimSpace (case fileCfg of None \<Rightarrow> [] | Some c \<Rightarrow> cfg_LogLevel c)) in
      if level = ''debug'' then LevelDebug
      else if level = ''warn'' \<or> level = ''warning'' then LevelWarn
      else if level = ''error'' then LevelError
      else LevelInfo)"

section \<open>Provider registry\<close>

datatype adapter = Adapter string string string | BedrockAdapter string string string string

text \<open>The adapter an entry of the file's providers stands for, if any.\<close>

definition keyed_providers :: "string list" where
  "keyed_providers = [''openai'', ''anthropic'', ''gemini'', ''gemma'', ''llama'', ''deepseek'', ''cerebras'', ''mistral'',
     ''openrouter'', ''sambanova'', ''github'', ''zhipu'']"

definition file_adapter :: "string \<Rightarrow> ProviderConfig \<Rightarrow> adapter option" where
  "file_adapter name pc =
     (if name \<in> set keyed_providers then
        (if pc_APIKey pc \<noteq> [] then Some (Adapter name (pc_APIKey pc) (pc_BaseURL pc)) else None)
      else if name = ''ollama'' \<or> name = ''llamacpp'' then Some (Adapter name (pc_APIKey pc) (pc_BaseURL pc))
      else if name = ''local'' then
        (if pc_BaseURL pc \<noteq> [] then Some (Adapter name (pc_APIKey pc) (pc_BaseURL pc)) else None)
      else None)"

definition file_registry :: "Config option \<Rightarrow> (string, adapter) gomap" where
  "file_registry fileCfg = (case fileCfg of
      None \<Rightarrow> Map.empty
    | Some c \<Rightarrow> foldl (\<lambda>reg (name, pc). case file_adapter name pc of None \<Rightarrow> reg | Some a \<Rightarrow> reg(name \<mapsto> a)) Map.empty (cfg_Providers c))"

definition set_if :: "string \<Rightarrow> adapter \<Rightarrow> string \<Rightarrow> (string, adapter) gomap \<Rightarrow> (string, adapter) gomap" where
  "set_if cond a name reg = (if cond \<noteq> [] then reg(name \<mapsto> a) else reg)"

definition env_registry :: "(string \<Rightarrow> string) \<Rightarrow> (string, adapter) gomap \<Rightarrow> (string, adapter) gomap" where
  "env_registry getenv reg =
     (let keyed = (\<lambda>var name. set_if (getenv var) (Adapter name (getenv var) []) name);
          googleKey = (if getenv ''GOOGLE_API_KEY'' = [] then getenv ''GEMINI_API_KEY'' else getenv ''GOOGLE_API_KEY'');
          reg = keyed ''ANTHROPIC_API_KEY'' ''anthropic'' (keyed ''OPENAI_API_KEY'' ''openai'' reg);
          reg = set_if googleKey (Adapter ''gemma'' googleKey []) ''gemma'' (set_if googleKey (Adapter ''gemini'' googleKey []) ''gemini'' reg);
          reg = keyed ''CEREBRAS_API_KEY'' ''cerebras'' (keyed ''DEEPSEEK_API_KEY'' ''deepseek'' (keyed ''GROQ_API_KEY'' ''llama'' reg));
          reg = keyed ''SAMBANOVA_API_KEY'' ''sambanova'' (keyed ''OPENROUTER_API_KEY'' ''openrouter'' (keyed ''MISTRAL_API_KEY'' ''mistral'' reg));
          reg = keyed ''ZHIPU_API_KEY'' ''zhipu'' (keyed ''GITHUB_TOKEN'' ''github'' reg);
          awsRegion = (if getenv ''AWS_REGION'' = [] then getenv ''AWS_DEFAULT_REGION'' else getenv ''AWS_REGION'');
          reg = (if awsRegion \<noteq> [] \<and> getenv ''AWS_ACCESS_KEY_ID'' \<noteq> []
                 then reg(''bedrock'' \<mapsto> BedrockAdapter awsRegion (getenv ''AWS_ACCESS_KEY_ID'') (getenv ''AWS_SECRET_ACCESS_KEY'') (getenv ''AWS_SESSION_TOKEN''))
                 else reg);
          reg = (if getenv ''OLLAMA_BASE_URL'' \<noteq> [] then reg(''ollama'' \<mapsto> Adapter ''ollama'' [] (getenv ''OLLAMA_BASE_URL''))
                 else if reg ''ollama'' = None then reg(''ollama'' \<mapsto> Adapter ''ollama'' [] [])
                 else reg);
          reg = set_if (getenv ''LLAMACPP_BASE_URL'') (Adapter ''llamacpp'' [] (getenv ''LLAMACPP_BASE_URL'')) ''llamacpp'' reg
      in set_if (getenv ''LOCAL_BASE_URL'') (Adapter ''local'' (getenv ''LOCAL_API_KEY'') (getenv ''LOCAL_BASE_URL'')) ''local'' reg)"

text \<open>\<open>loaded\<close> is what \<^verbatim>\<open>Load\<close> or \<^verbatim>\<open>Discover\<close> returned, \<open>port\<close> the port of the options.\<close>

definition buildRegistry :: "(string \<Rightarrow> string) \<Rightarrow> int \<Rightarrow> goerror + Config option \<Rightarrow> goerror + (string, adapter) gomap \<times> Config option \<times> int" where
  "buildRegistry getenv cfgPort loaded = (case loaded of
      Inl err \<Rightarrow> Inl err
    | Inr fileCfg \<Rightarrow>
        let port = (case fileCfg of None \<Rightarrow> cfgPort
              | Some c \<Rightarrow> if sv_Port (cfg_Server c) \<noteq> 0 \<and> cfgPort = 7000 then sv_Port (cfg_Server c) else cfgPort);
            reg = env_registry getenv (file_registry fileCfg)
        in if gomap_len reg = 0
           then Inl (plain_error (''ixr: no providers configured '' @ em_dash @ '' set API keys (e.g. OPENAI_API_KEY, GROQ_API_KEY, CEREBRAS_API_KEY, OPENROUTER_API_KEY) or provide ixr.yaml''))
           else Inr (reg, fileCfg, port))"

section \<open>Routing model names\<close>

text \<open>The registry entry a model name selects, in the order of the cases.\<close>

definition provider_key :: "string \<Rightarrow> string option" where
  "provider_key model = (let m = ToLower model in
     if HasPrefix m ''ollama/'' then Some ''ollama''
     else if HasPrefix m ''llamacpp/'' then Some ''llamacpp''
     else if HasPrefix m ''local/'' then Some ''local''
     else if HasPrefix m ''amazon.'' \<or> HasPrefix m ''anthropic.'' \<or> HasPrefix m ''meta.'' then Some ''bedrock''
     else if HasPrefix m ''gpt-oss'' then Some ''cerebras''
     else if HasPrefix model ''gpt-'' \<or> HasPrefix model ''o1'' \<or> HasPrefix model ''o3'' then Some ''openai''
     else if HasPrefix model ''claude-'' then Some ''anthropic''
     else if HasPrefix m ''gemma'' \<or> Contains m ''gemma-'' then Some ''gemma''
     else if HasPrefix m ''gemini'' then Some ''gemini''
     else if HasPrefix m ''openai/'' then Some ''github''
     else if Contains m ''/'' then Some ''openrouter''
     else if HasPrefix m ''mistral-'' \<or> HasPrefix m ''codestral'' \<or> HasPrefix m ''magistral'' \<or> HasPrefix m ''devstral'' then Some ''mistral''
     else if m = ''gemma-3-12b-it'' then Some ''sambanova''
     else if HasPrefix m ''meta-llama'' then Some ''sambanova''
     else if m = ''deepseek-v3.2'' then Some ''sambanova''
     else if HasPrefix m ''qwen3'' \<or> HasPrefix m ''qwen-3'' then Some ''cerebras''
     else if HasPrefix m ''llama-4-maverick'' then Some ''cerebras''
     else if HasPrefix m ''glm-'' then Some ''zhipu''
     else if Contains m ''llama'' then Some ''llama''
     else if HasPrefix m ''deepseek'' then Some ''deepseek''
     else None)"

text \<open>The hint in the message of a provider that is not configured.\<close>

definition configure_hint :: "string \<Rightarrow> string" where
  "configure_hint key = (case map_of [
      (''ollama'', '' (start Ollama and set OLLAMA_BASE_URL or ixr.yaml providers.ollama)''),
      (''llamacpp'', '' (start llama.cpp server and set LLAMACPP_BASE_URL or ixr.yaml providers.llamacpp)''),
      (''local'', '' (set LOCAL_BASE_URL or ixr.yaml providers.local)''),
      (''bedrock'', '' (set AWS_ACCESS_KEY_ID, AWS_SECRET_ACCESS_KEY, AWS_REGION or ixr.yaml providers.bedrock)''),
      (''cerebras'', '' (use CEREBRAS_API_KEY or ixr.yaml providers.cerebras)''),
      (''github'', '' (use GITHUB_TOKEN or ixr.yaml providers.github)''),
      (''openrouter'', '' (use OPENROUTER_API_KEY or ixr.yaml providers.openrouter)''),
      (''mistral'', '' (use MISTRAL_API_KEY or ixr.yaml providers.mistral)''),
      (''sambanova'', '' (use SAMBANOVA_API_KEY or ixr.yaml providers.sambanova)''),
      (''zhipu'', '' (use ZHIPU_API_KEY or ixr.yaml providers.zhipu)''),
      (''llama'', '' (use GROQ_API_KEY or ixr.yaml providers.llama)'')] key of None \<Rightarrow> [] | Some h \<Rightarrow> h)"

definition buildRouter :: "(string, adapter) gomap \<Rightarrow> adapter lookup" where
  "buildRouter registry model = (case provider_key model of
      None \<Rightarrow> Inl (plain_error (''no provider found for model '' @ quote_char @ model @ quote_char))
    | Some key \<Rightarrow> (case registry key of
        None \<Rightarrow> Inl (plain_error (key @ '' provider not configured'' @ configure_hint key))
      | Some p \<Rightarrow> Inr p))"

definition availableCatalog :: "ModelCard list \<Rightarrow> 'p lookup \<Rightarrow> ModelCard list" where
  "availableCatalog cat resolve = filter (\<lambda>m. \<not> isl (resolve (card_ID m))) cat"

section \<open>Limits and interceptors\<close>

definition budget_limits :: "Config option \<Rightarrow> (string, Limit) gomap" where
  "budget_limits fileCfg = (case fileCfg of
      None \<Rightarrow> Map.empty
    | Some c \<Rightarrow>
        let limit = (\<lambda>q. \<lparr>LimitUSD = qc_MonthlyUSDCap q, WarnAt = 8 / 10\<rparr>);
            set = (\<lambda>lims (key, q). if qc_MonthlyUSDCap q > 0 then lims(key \<mapsto> limit q) else lims)
        in foldl (\<lambda>lims (tenantID, tc). foldl (\<lambda>lims (teamID, q). set lims (tenantID @ '':'' @ teamID, q))
             (set lims (tenantID, tc_Quotas tc)) (tc_Teams tc)) Map.empty (cfg_Tenants c))"

definition rate_limiter :: "Config option \<Rightarrow> MemoryRateLimiter" where
  "rate_limiter fileCfg = (case fileCfg of
      None \<Rightarrow> NewMemoryRateLimiter 0 0 (60 * Second)
    | Some c \<Rightarrow> NewMemoryRateLimiter (rc_MaxRequests (cfg_RateLimit c)) (rc_MaxTokens (cfg_RateLimit c)) (rc_WindowSec (cfg_RateLimit c) * Second))"

definition auth_middleware :: "Config option \<Rightarrow> AuthMiddleware" where
  "auth_middleware fileCfg = NewAuthMiddleware (case fileCfg of
      None \<Rightarrow> \<lparr>auth_APIKeys = [], auth_JWT = \<lparr>jwt_Secret = [], jwt_JWKSURL = [], jwt_Issuer = [], jwt_Audience = []\<rparr>, auth_DisableAuth = True\<rparr>
    | Some c \<Rightarrow> cfg_Auth c)"

text \<open>Time to live in seconds, turns and directory of the sessions.\<close>

definition session_settings :: "(string \<Rightarrow> string) \<Rightarrow> Config option \<Rightarrow> int \<times> int \<times> string" where
  "session_settings getenv fileCfg =
     (let ttl = envInt getenv ''IXR_SESSION_TTL_SEC'' 0;
          turns = envInt getenv ''IXR_SESSION_MAX_TURNS'' 50;
          dir = getenv ''IXR_SESSION_DIR''
      in case fileCfg of
           Some c \<Rightarrow>
             if sc_TTLSec (cfg_Session c) > 0
             then (sc_TTLSec (cfg_Session c),
                   if sc_MaxTurns (cfg_Session c) > 0 then sc_MaxTurns (cfg_Session c) else turns,
                   if sc_Dir (cfg_Session c) \<noteq> [] then sc_Dir (cfg_Session c) else dir)
             else (ttl, turns, dir)
         | None \<Rightarrow> (ttl, turns, dir))"

text \<open>The store of originals when it is the in-memory one.\<close>

definition retrieval_store :: "(string \<Rightarrow> string) \<Rightarrow> memoryBackend option" where
  "retrieval_store getenv =
     (if getenv ''IXR_COMPRESS_REQUESTS'' = ''true'' \<and> getenv ''IXR_COMPRESS_REVERSIBLE'' = ''true'' \<and> getenv ''IXR_RETRIEVAL_REDIS_ADDR'' = []
      then Some (newMemoryBackend (envInt getenv ''IXR_COMPRESS_RETRIEVAL_STORE_SIZE'' 1000)) else None)"

text \<open>
  The interceptors in their order, on the budget and the store of originals. The compressor keeps
  originals only when it is reversible, which is when there is a store.
\<close>

definition chat_interceptors :: "(BudgetBlocked \<Rightarrow> string) \<Rightarrow> (string \<Rightarrow> json option) \<Rightarrow> (json \<Rightarrow> string option) \<Rightarrow>
    ((string, memEntry) gomap \<Rightarrow> string list) \<Rightarrow> time \<Rightarrow> (nat \<Rightarrow> string) \<Rightarrow> (string \<Rightarrow> string) \<Rightarrow> bool \<Rightarrow> Identity option \<Rightarrow>
    (BudgetPlugin \<times> memoryBackend option) interceptor list" where
  "chat_interceptors render unmarshal marshal ord now bytes getenv hasLimits ctx =
     (if hasLimits then [\<lambda>req (b, store). case budget_interceptor render ctx req b of (err, req, b) \<Rightarrow> (err, req, b, store)] else []) @
     (if getenv ''IXR_COMPRESS_REQUESTS'' = ''true''
      then [\<lambda>req (b, store). case Compressor_Intercept unmarshal marshal (NewStore_Put ord)
               (Compressor_New (envInt getenv ''IXR_COMPRESS_MAX_CHARS'' 0) (envInt getenv ''IXR_COMPRESS_RETRIEVAL_TTL_SEC'' 300 * Second))
               now bytes req store of (req, store) \<Rightarrow> (None, req, b, store)] else []) @
     (if getenv ''IXR_TERSE_OUTPUT'' = ''true''
      then [Brevity_Intercept (Brevity_New (getenv ''IXR_TERSE_INSTRUCTION''))] else [])"

section \<open>The handler chain\<close>

text \<open>
  The handlers in front of chat completions: authentication, admission, rate limit, interceptors,
  and then the rest, \<open>nxt\<close>. \<open>bytesOf\<close> is the number of bytes a reply takes. A request that stops in
  front is \<open>Refused\<close> with its status and type; a panic is \<open>Aborted\<close>.
\<close>

datatype front_reply = Refused int string | Aborted | Answered recorded

record 's front =
  fr_auth :: AuthMiddleware
  fr_admission :: AdmissionMiddleware
  fr_rate :: MemoryRateLimiter
  fr_rest :: 's

record front_request =
  fq_auth :: auth_request
  fq_method :: string
  fq_length :: int
  fq_decoded :: "RequestEnvelope option"

definition chat_chain :: "jwt_parse \<Rightarrow> (string \<Rightarrow> jwks_reply) \<Rightarrow> (Identity option \<Rightarrow> 's interceptor list) \<Rightarrow> (recorded \<Rightarrow> int) \<Rightarrow>
    (Identity option \<Rightarrow> RequestEnvelope option \<Rightarrow> 's \<Rightarrow> recorded \<times> CallEvent list \<times> 's) \<Rightarrow> time \<Rightarrow> time \<Rightarrow> front_request \<Rightarrow> 's front \<Rightarrow>
    front_reply \<times> CallEvent list \<times> 's front" where
  "chat_chain parse jwks interceptors bytesOf nxt now now' q s = (case Auth_Handler parse jwks (fr_auth s) (fq_auth q) of
      None \<Rightarrow> (Aborted, [], s)
    | Some (Inl _) \<Rightarrow> (Refused 401 ''unauthorized'', [], s)
    | Some (Inr ident) \<Rightarrow>
        (case Admission_enter (fr_admission s) of
           (False, adm) \<Rightarrow> (Refused 503 ''system_overloaded'', [], s\<lparr>fr_admission := adm\<rparr>)
         | (True, adm) \<Rightarrow>
             (case RateLimit_before now (Some ident) (fq_length q) (fr_rate s) of
                (HandlerPanic, rl) \<Rightarrow> (Aborted, [], s\<lparr>fr_admission := Admission_leave adm, fr_rate := rl\<rparr>)
              | (TooManyRequests _, rl) \<Rightarrow> (Refused 429 ''rate_limit_exceeded'', [], s\<lparr>fr_admission := Admission_leave adm, fr_rate := rl\<rparr>)
              | (PassOn, rl) \<Rightarrow>
                  (case InterceptorMiddleware_ServeHTTP (interceptors (Some ident)) True (nxt (Some ident)) (fq_method q) now (Some ident)
                          (ar_header (fq_auth q) ''X-IXR-UseCase'') (fq_decoded q) (fr_rest s) of
                     (rec, evs, rest) \<Rightarrow>
                       (Answered rec, evs, s\<lparr>fr_admission := Admission_leave adm,
                          fr_rate := RateLimit_after now' (Some ident) (bytesOf rec) rl, fr_rest := rest\<rparr>)))))"

text \<open>What a valid new version of the file changes in the running gateway.\<close>

definition hot_reload :: "goerror + Config \<Rightarrow> 's front \<Rightarrow> 's front" where
  "hot_reload loaded s = (case loaded of
      Inl _ \<Rightarrow> s
    | Inr c \<Rightarrow> s\<lparr>fr_auth := Auth_Reload (cfg_Auth c) (fr_auth s),
        fr_rate := MemoryRateLimiter_Reload \<lparr>WindowSec = rc_WindowSec (cfg_RateLimit c), MaxRequests = rc_MaxRequests (cfg_RateLimit c),
          MaxTokens = rc_MaxTokens (cfg_RateLimit c)\<rparr> (fr_rate s)\<rparr>)"

section \<open>Routing\<close>

lemma available_routable: "m \<in> set (availableCatalog cat resolve) \<Longrightarrow> \<exists>p. resolve (card_ID m) = Inr p"
  by (cases "resolve (card_ID m)") (auto simp: availableCatalog_def)

lemmas provider_key_simps = provider_key_def ToLower_def lower_char_def HasPrefix_def

text \<open>Every model of the catalog has a case of its own; no case is missing.\<close>

lemma catalog_routable: "m \<in> set catalog \<Longrightarrow> provider_key (card_ID m) \<noteq> None"
proof -
  have "list_all (\<lambda>x. provider_key x \<noteq> None) (map card_ID catalog)"
    by (simp add: catalog_def provider_key_simps)
  then show "m \<in> set catalog \<Longrightarrow> provider_key (card_ID m) \<noteq> None" by (simp add: list_all_iff)
qed

text \<open>A case that no name reaches, and names the router does not know in upper case.\<close>

lemma sambanova_gemma_unreachable: "provider_key ''gemma-3-12b-it'' = Some ''gemma''"
  by (simp add: provider_key_simps)

lemma upper_case_unroutable: "provider_key ''GPT-4o'' = None" "provider_key ''Claude-3'' = None"
proof -
  have "ToLower ''GPT-4o'' = ''gpt-4o''" "ToLower ''Claude-3'' = ''claude-3''" by code_simp+
  then show "provider_key ''GPT-4o'' = None" "provider_key ''Claude-3'' = None"
    by (simp_all add: provider_key_def HasPrefix_def)
qed

lemma set_if_apply [simp]: "set_if c a n m k = (if k = n \<and> c \<noteq> [] then Some a else m k)"
  by (simp add: set_if_def)

lemma if_apply: "(if b then f else g) x = (if b then f x else g x)"
  by simp

lemma env_registry_ollama: "env_registry getenv reg ''ollama'' \<noteq> None"
  by (simp add: env_registry_def Let_def if_apply)

lemma env_registry_openai:
  "getenv ''OPENAI_API_KEY'' \<noteq> [] \<Longrightarrow> env_registry getenv reg ''openai'' = Some (Adapter ''openai'' (getenv ''OPENAI_API_KEY'') [])"
  by (simp add: env_registry_def Let_def if_apply)

definition registry_names :: "string set" where
  "registry_names = set keyed_providers \<union> {''bedrock'', ''ollama'', ''llamacpp'', ''local''}"

lemma env_registry_other: "k \<notin> registry_names \<Longrightarrow> env_registry getenv reg k = reg k"
  by (simp add: env_registry_def Let_def if_apply registry_names_def keyed_providers_def)

lemma decided_routable:
  assumes "Engine_Decide getPolicy stats (availableCatalog cat resolve) band now hint cb = (Inr d, cb')"
    and "distinct (map card_ID cat)"
    and "band \<in> {None, Some (EpsilonGreedy_Select coin draw now b), Some (UCB_Select now u)}"
  shows "(\<exists>p. resolve (rd_Model d) = Inr p) \<and> (\<forall>c \<in> set (rd_FallbackChain d). \<exists>p. resolve (cand_Model c) = Inr p)"
proof -
  let ?cat = "availableCatalog cat resolve"
  have "distinct (map card_ID ?cat)" using assms(2) by (simp add: availableCatalog_def distinct_map_filter)
  from Engine_Decide_candidates [OF assms(1) this assms(3)] obtain policy where
    prim: "rd_Model d \<in> card_ID ` {m \<in> set ?cat. passes now hint cb m}" and
    chain: "rd_FallbackChain d = take 2 (filter (\<lambda>c. cand_Model c \<noteq> rd_Model d)
       (Engine_candidates stats policy hint (filter (passes now hint cb) ?cat)))"
    by blast
  have "\<exists>p. resolve (cand_Model c) = Inr p" if "c \<in> set (rd_FallbackChain d)" for c
  proof -
    from that have "c \<in> set (Engine_candidates stats policy hint (filter (passes now hint cb) ?cat))"
      unfolding chain by (auto dest: in_set_takeD)
    then obtain m where "m \<in> set ?cat" "c = cand_of stats policy hint m" by (auto simp: Engine_candidates_set)
    then show ?thesis using available_routable [of m cat resolve] by (simp add: cand_of_def)
  qed
  with prim show ?thesis using available_routable [of _ cat resolve] by auto
qed

lemma answer_never_no_provider:
  assumes "answer_request h r auto p req chain st = Some (reply, st')"
  shows "reply \<noteq> ErrorReply 400 ''no_provider'' msg"
proof -
  obtain ok st1 where ok: "is_allowed h (req_Model req) st = (ok, st1)" by fastforce
  obtain out p' result w where c: "call_provider h p req chain (cs_world st1) = ((out, p', result), w)" by (metis prod.exhaust)
  obtain out' st2 where r: "resolve_answer h p' req out (st1\<lparr>cs_world := w\<rparr>) = (out', st2)" by fastforce
  show ?thesis
  proof (cases ok)
    case True
    show ?thesis
    proof (cases out')
      case (Inr x)
      then show ?thesis using assms True by (cases x) (auto simp: answer_request_def ok c r Let_def)
    qed (use assms True in \<open>auto simp: answer_request_def ok c r Let_def\<close>)
  qed (use assms in \<open>auto simp: answer_request_def ok\<close>)
qed

lemma stream_never_no_provider: "fst (handleStream h r p req auto chain st) \<noteq> ErrorReply 400 ''no_provider'' msg"
proof -
  obtain ok st1 where ok: "is_allowed h (req_Model req) st = (ok, st1)" by fastforce
  obtain err p' result w s where c: "stream_provider h p req chain (cs_world st1) = ((err, p', result), w, s)" by (metis prod.exhaust)
  show ?thesis by (cases ok) (simp_all add: handleStream_def ok c Let_def)
qed

lemma route_auto:
  assumes "route_request parseFloat h r req st = (Inr (routed, chain), st')" "req_Model req = ''auto''" "h_engine h = Some decide"
  obtains d cb where "decide (h_now h (cs_world st)) (taskHintFromHeaders parseFloat r req) (cs_cb st) = (Inr d, cb)"
    "req_Model routed = rd_Model d" "chain = rd_FallbackChain d"
  using assms that by (auto simp: route_request_def Let_def split: prod.splits sum.splits if_splits)

text \<open>
  C5. A request for the model \<^verbatim>\<open>auto\<close> is never answered with "no provider": the engine scores only
  models the router can serve, so the model it decides for always has a provider, in every
  deployment, with or without a bandit.
\<close>

theorem auto_always_routable:
  assumes served: "ChatHandler_ServeHTTP parseFloat ord h r st = Some (reply, st')"
    and auto: "hr_decoded r = Some req" "req_Model req = ''auto''" "h_chains h ''auto'' = None"
    and router: "h_router h = buildRouter reg"
    and engine: "h_engine h = Some (\<lambda>now. Engine_Decide getPolicy stats (availableCatalog catalog (buildRouter reg)) (band now) now)"
    and band: "\<And>now. band now \<in> {None, Some (EpsilonGreedy_Select coin draw now b), Some (UCB_Select now u)}"
  shows "reply \<noteq> ErrorReply 400 ''no_provider'' msg"
proof -
  obtain x st1 where x: "route_request parseFloat h r req st = (x, st1)" by fastforce
  show ?thesis
  proof (cases "hr_method r = ''POST'' \<and> req_Messages req \<noteq> []")
    case False
    have "reply = ErrorReply 405 ''method_not_allowed'' ''only POST is supported'' \<or>
        reply = ErrorReply 400 ''missing_messages'' ''messages field must contain at least one message''"
      using served False by (cases "hr_method r = ''POST''") (simp_all add: ChatHandler_ServeHTTP_def auto)
    then show ?thesis by auto
  next
    case routed: True
    show ?thesis
    proof (cases x)
      case (Inl rep)
      then have "reply = rep" using served auto routed x by (auto simp: ChatHandler_ServeHTTP_def)
      moreover have "\<exists>m. rep = ErrorReply 400 ''auto_route_failed'' m"
        using x Inl auto(2) by (auto simp: route_request_def Let_def split: if_splits option.splits prod.splits sum.splits)
      ultimately show ?thesis by auto
    next
      case (Inr y)
      obtain req' chain where y: "y = (req', chain)" by fastforce
      from route_auto [OF x [unfolded Inr y] auto(2) engine] obtain d cb where
        d: "Engine_Decide getPolicy stats (availableCatalog catalog (buildRouter reg)) (band (h_now h (cs_world st)))
              (h_now h (cs_world st)) (taskHintFromHeaders parseFloat r req) (cs_cb st) = (Inr d, cb)" "req_Model req' = rd_Model d"
        by blast
      from decided_routable [OF d(1) catalog_IDs(1) band] d(2) obtain p where p: "buildRouter reg (req_Model req') = Inr p" by auto
      have run: "Some (reply, st') = (if req_Stream req' then Some (handleStream h r p req' True chain st1)
          else answer_request h r True p req' chain st1)"
        using served auto routed x Inr y p router by (simp add: ChatHandler_ServeHTTP_def)
      show ?thesis
        using run answer_never_no_provider [of h r True p req' chain st1 reply st' msg]
          stream_never_no_provider [of h r p req' True chain st1 msg]
        by (cases "req_Stream req'"; cases "handleStream h r p req' True chain st1") auto
    qed
  qed
qed

section \<open>Registry\<close>

text \<open>
  Building the registry fails exactly when loading the configuration fails: the check for an
  empty registry never fires, because a local Ollama is always registered. A key in the
  environment replaces the one of the file.
\<close>

theorem buildRegistry_total:
  "(isl (buildRegistry getenv cfgPort loaded) \<longleftrightarrow> isl loaded) \<and>
   (case buildRegistry getenv cfgPort loaded of
      Inl _ \<Rightarrow> True
    | Inr (reg, _, _) \<Rightarrow> reg ''ollama'' \<noteq> None \<and>
        (if getenv ''OPENAI_API_KEY'' = [] then True else reg ''openai'' = Some (Adapter ''openai'' (getenv ''OPENAI_API_KEY'') [])))"
proof -
  have "dom (env_registry getenv reg) \<subseteq> dom reg \<union> registry_names" for reg
    using env_registry_other by fastforce
  moreover have "finite registry_names" by (simp add: registry_names_def)
  moreover have "finite (dom m) \<Longrightarrow> finite (dom (foldl (\<lambda>reg (name, pc). case file_adapter name pc of None \<Rightarrow> reg | Some a \<Rightarrow> reg(name \<mapsto> a)) m ps))" for m ps
    by (induction ps arbitrary: m) (auto split: option.splits)
  then have "finite (dom (file_registry fileCfg))" for fileCfg
    by (cases fileCfg) (simp_all add: file_registry_def)
  ultimately have "finite (dom (env_registry getenv (file_registry fileCfg)))" for fileCfg
    by (meson finite_subset finite_UnI)
  then have len: "gomap_len (env_registry getenv (file_registry fileCfg)) \<noteq> 0" for fileCfg
    using gomap_len_pos [of "env_registry getenv (file_registry fileCfg)"] env_registry_ollama [of getenv "file_registry fileCfg"]
    by (metis domIff empty_iff less_numeral_extra(3))
  show ?thesis
    by (cases loaded) (use env_registry_ollama env_registry_openai in \<open>auto simp: buildRegistry_def Let_def len\<close>)
qed

section \<open>The chain in front of chat completions\<close>

lemma enter_leave: "Admission_enter a = (True, a') \<Longrightarrow> Admission_leave a' = a" "Admission_enter a = (False, a') \<Longrightarrow> a' = a"
  by (auto simp: Admission_enter_def Admission_leave_def split: option.splits if_splits)

text \<open>
  C18. Every request gives back the slot it took, whether it is answered, refused or aborted by a
  panic, and a request that stops in front of the interceptors publishes nothing and changes
  nothing behind them: no budget is reserved, no original stored, no provider called.
\<close>

theorem chat_chain_conserves:
  "case chat_chain parse jwks interceptors bytesOf nxt now now' q s of (reply, evs, s') \<Rightarrow>
     fr_admission s' = fr_admission s \<and> fr_auth s' = fr_auth s \<and>
     (case reply of Answered _ \<Rightarrow> True | _ \<Rightarrow> evs = [] \<and> fr_rest s' = fr_rest s)"
proof -
  obtain ok adm where adm: "Admission_enter (fr_admission s) = (ok, adm)" by fastforce
  have slot: "ok \<Longrightarrow> Admission_leave adm = fr_admission s" "\<not> ok \<Longrightarrow> adm = fr_admission s"
    using adm enter_leave [of "fr_admission s" adm] by auto
  show ?thesis
  proof (cases "Auth_Handler parse jwks (fr_auth s) (fq_auth q)")
    case None
    then show ?thesis by (simp add: chat_chain_def)
  next
    case (Some x)
    show ?thesis
    proof (cases x)
      case (Inl err)
      with Some show ?thesis by (simp add: chat_chain_def)
    next
      case (Inr ident)
      obtain a rl where rl: "RateLimit_before now (Some ident) (fq_length q) (fr_rate s) = (a, rl)" by fastforce
      show ?thesis
        using slot by (cases ok; cases a) (simp_all add: chat_chain_def Some Inr adm rl split: prod.splits)
    qed
  qed
qed

text \<open>A key that the new configuration no longer has is refused by the next request.\<close>

theorem hot_reload_revokes:
  assumes "\<not> auth_DisableAuth (cfg_Auth c)" "\<not> jwt_configured (cfg_Auth c)"
    and "ar_peerCN (fq_auth q) = None" "presented_key (fq_auth q) \<notin> ak_Key ` set (auth_APIKeys (cfg_Auth c))"
  shows "fst (chat_chain parse jwks interceptors bytesOf nxt now now' q (hot_reload (Inr c) s)) = Refused 401 ''unauthorized''"
proof -
  have "mw_keyIndex (Auth_Reload (cfg_Auth c) (fr_auth s)) (presented_key (fq_auth q)) = None"
    using keyIndex_dom [of "cfg_Auth c" "fr_auth s" "presented_key (fq_auth q)"] assms(4) by auto
  then have "\<exists>e. Auth_Handler parse jwks (Auth_Reload (cfg_Auth c) (fr_auth s)) (fq_auth q) = Some (Inl e)"
    using assms(1-3) by (auto simp: Auth_Handler_def authenticate_def Let_def)
  then show ?thesis by (auto simp: chat_chain_def hot_reload_def)
qed

subsection \<open>Rate limits and the use-case header\<close>

text \<open>A request with an API key and a use case of the caller's choice.\<close>

definition key_request :: "string \<Rightarrow> int \<Rightarrow> RequestEnvelope option \<Rightarrow> string \<Rightarrow> front_request" where
  "key_request key len req useCase = \<lparr>fq_auth = \<lparr>ar_peerCN = None,
      ar_header = (\<lambda>h. if h = ''X-API-Key'' then key else if h = ''X-IXR-UseCase'' then useCase else [])\<rparr>,
     fq_method = ''POST'', fq_length = len, fq_decoded = req\<rparr>"

fun serve_all :: "('s front \<Rightarrow> front_request \<Rightarrow> front_reply \<times> CallEvent list \<times> 's front) \<Rightarrow> 's front \<Rightarrow> front_request list \<Rightarrow> front_reply list" where
  "serve_all serve s [] = []"
| "serve_all serve s (q # qs) = (case serve s q of (reply, _, s) \<Rightarrow> reply # serve_all serve s qs)"

lemma key_request_auth:
  assumes "mw_keyIndex m key = Some e" "key \<noteq> []" "\<not> auth_DisableAuth (mw_cfg m)"
  shows "Auth_Handler parse jwks m (fq_auth (key_request key len req u)) =
    Some (Inr \<lparr>TenantID = ak_TenantID e, TeamID = [], UserID = [], UseCaseID = u\<rparr>)"
  using assms by (simp add: key_request_def Auth_Handler_def authenticate_def presented_key_def extractBearerKey_def HasPrefix_def)

abbreviation key_ident :: "APIKeyEntry \<Rightarrow> string \<Rightarrow> Identity" where
  "key_ident e u \<equiv> \<lparr>TenantID = ak_TenantID e, TeamID = [], UserID = [], UseCaseID = u\<rparr>"

lemma fresh_window_passes:
  assumes "rl_windows m (windowKey i) = None" "rl_maxTok m = 0" "0 \<le> rl_maxReq m"
  shows "\<exists>m'. RateLimit_before now (Some i) len m = (PassOn, m') \<and> rl_maxTok m' = rl_maxTok m \<and> rl_maxReq m' = rl_maxReq m \<and>
    (\<forall>k. k \<noteq> windowKey i \<longrightarrow> rl_windows m' k = rl_windows m k)"
  using assms by (auto simp: RateLimit_before_def MemoryRateLimiter_Check_def getOrCreate_def purge_def gomap_get_def FromContext_def Let_def)

lemma after_keeps:
  "rl_maxTok (RateLimit_after now (Some i) n m) = rl_maxTok m" "rl_maxReq (RateLimit_after now (Some i) n m) = rl_maxReq m"
  "k \<noteq> windowKey i \<Longrightarrow> rl_windows (RateLimit_after now (Some i) n m) k = rl_windows m k"
  by (simp_all add: RateLimit_after_def MemoryRateLimiter_Record_def FromContext_def Let_def)

text \<open>
  The request limit is kept per tenant, user and use case, and the use case is a header the
  caller sets: an authenticated caller that names a new use case in every request is never
  limited, whatever the limit.
\<close>

theorem use_case_header_evades_limit:
  assumes "mw_keyIndex (fr_auth s) key = Some e" "key \<noteq> []" "\<not> auth_DisableAuth (mw_cfg (fr_auth s))"
    and "distinct us" "\<forall>u \<in> set us. rl_windows (fr_rate s) (windowKey (key_ident e u)) = None"
    and "rl_maxTok (fr_rate s) = 0" "0 \<le> rl_maxReq (fr_rate s)"
  shows "Refused 429 ''rate_limit_exceeded'' \<notin> set (serve_all
    (\<lambda>s q. chat_chain parse jwks interceptors bytesOf nxt now now' q s) s (map (key_request key len req) us))"
  using assms
proof (induction us arbitrary: s)
  case (Cons u us)
  let ?i = "key_ident e u" and ?q = "key_request key len req u"
  have auth: "Auth_Handler parse jwks (fr_auth s) (fq_auth ?q) = Some (Inr ?i)"
    by (rule key_request_auth) (use Cons.prems in auto)
  obtain rl where rl: "RateLimit_before now (Some ?i) (fq_length ?q) (fr_rate s) = (PassOn, rl)" "rl_maxTok rl = 0" "0 \<le> rl_maxReq rl"
    "\<forall>k. k \<noteq> windowKey ?i \<longrightarrow> rl_windows rl k = rl_windows (fr_rate s) k"
    using fresh_window_passes [of "fr_rate s" ?i now "fq_length ?q"] Cons.prems by auto
  obtain ok adm where adm: "Admission_enter (fr_admission s) = (ok, adm)" by fastforce
  obtain reply evs s' where run: "chat_chain parse jwks interceptors bytesOf nxt now now' ?q s = (reply, evs, s')" by (metis prod.exhaust)
  have key: "windowKey (key_ident e v) = windowKey ?i \<longleftrightarrow> v = u" for v by (simp add: windowKey_def)
  have step: "reply \<noteq> Refused 429 ''rate_limit_exceeded'' \<and> fr_auth s' = fr_auth s \<and> rl_maxTok (fr_rate s') = 0 \<and> 0 \<le> rl_maxReq (fr_rate s') \<and>
      (\<forall>k. k \<noteq> windowKey ?i \<longrightarrow> rl_windows (fr_rate s') k = rl_windows (fr_rate s) k)"
    using run Cons.prems(6,7) rl(2-4) by (cases ok) (auto simp: chat_chain_def auth adm rl(1) after_keeps split: prod.splits)
  have "Refused 429 ''rate_limit_exceeded'' \<notin> set (serve_all
      (\<lambda>s q. chat_chain parse jwks interceptors bytesOf nxt now now' q s) s' (map (key_request key len req) us))"
  proof (rule Cons.IH)
    show "\<forall>v \<in> set us. rl_windows (fr_rate s') (windowKey (key_ident e v)) = None"
    proof
      fix v assume v: "v \<in> set us"
      with Cons.prems(4) have "v \<noteq> u" by auto
      then have "windowKey (key_ident e v) \<noteq> windowKey ?i" using key by blast
      then show "rl_windows (fr_rate s') (windowKey (key_ident e v)) = None" using step Cons.prems(5) v by auto
    qed
  qed (use step Cons.prems in auto)
  with step run show ?case by auto
qed simp

section \<open>Witnesses\<close>

definition sample_front :: "unit front" where
  "sample_front = \<lparr>fr_auth = NewAuthMiddleware sample_auth, fr_admission = NewAdmissionMiddleware 0,
     fr_rate = NewMemoryRateLimiter 1 0 Minute, fr_rest = ()\<rparr>"

definition sample_next :: "Identity option \<Rightarrow> RequestEnvelope option \<Rightarrow> unit \<Rightarrow> recorded \<times> CallEvent list \<times> unit" where
  "sample_next ctx req s = (\<lparr>rec_status = 200, rec_body = EmptyBody\<rparr>, [], s)"

text \<open>Three requests in one window, with a limit of one.\<close>

theorem use_case_header_evades_limit_witness:
  "Refused 429 ''rate_limit_exceeded'' \<notin> set (serve_all
     (\<lambda>s q. chat_chain sample_parse (\<lambda>_. FetchFailed) (\<lambda>_. []) (\<lambda>_. 0) sample_next 5 6 q s) sample_front
     (map (key_request ''k1'' 0 None) [''a'', ''b'', ''c'']))"
proof (rule use_case_header_evades_limit)
  show "mw_keyIndex (fr_auth sample_front) ''k1'' = Some \<lparr>ak_Key = ''k1'', ak_TenantID = ''acme'', ak_Scopes = [], ak_DailyReqCap = 0, ak_DailyTokenCap = 0\<rparr>"
    by (simp add: sample_front_def NewAuthMiddleware_def Auth_Reload_def sample_auth_def)
qed (simp_all add: sample_front_def NewAuthMiddleware_def sample_auth_def NewMemoryRateLimiter_def)

definition sample_config :: Config where
  "sample_config = \<lparr>cfg_Server = \<lparr>sv_Port = 7000, sv_TLSCert = [], sv_TLSKey = [], sv_ClientCA = []\<rparr>, cfg_Auth = sample_auth\<lparr>auth_APIKeys := []\<rparr>,
     cfg_Providers = [], cfg_Tenants = [], cfg_RateLimit = \<lparr>rc_WindowSec = 60, rc_MaxRequests = 0, rc_MaxTokens = 0\<rparr>, cfg_LogLevel = ''info'',
     cfg_Secrets = \<lparr>sec_Enabled = False, sec_VaultAddr = [], sec_VaultToken = [], sec_AWSRegion = []\<rparr>,
     cfg_Session = \<lparr>sc_TTLSec = 0, sc_MaxTurns = 0, sc_Dir = []\<rparr>, cfg_Chains = []\<rparr>"

theorem hot_reload_revokes_witness:
  "fst (chat_chain sample_parse (\<lambda>_. FetchFailed) (\<lambda>_. []) (\<lambda>_. 0) sample_next 5 6 (key_request ''k1'' 0 None ''a'')
     (hot_reload (Inr sample_config) sample_front)) = Refused 401 ''unauthorized''"
  by (rule hot_reload_revokes) (simp_all add: sample_config_def sample_auth_def jwt_configured_def key_request_def)

text \<open>A gateway whose only configured provider is Mistral.\<close>

definition sample_registry :: "(string, adapter) gomap" where
  "sample_registry = [''mistral'' \<mapsto> Adapter ''mistral'' ''key'' []]"

definition sample_decide :: "time \<Rightarrow> TaskHint \<Rightarrow> Registry option \<Rightarrow> (goerror + RoutingDecision) \<times> Registry option" where
  "sample_decide now = Engine_Decide (GetPolicy Map.empty) (perf_Get perf_NewMemory) (availableCatalog catalog (buildRouter sample_registry)) None now"

definition sample_gateway :: "(adapter, unit, unit) ChatHandler" where
  "sample_gateway = \<lparr>h_router = buildRouter sample_registry, h_name = (\<lambda>p. ''mistral''), h_chat = (\<lambda>p req w. (Inr (sample_answer req), w)),
     h_stream = (\<lambda>p req w. (([], None), w)), h_wait = (\<lambda>t w. (None, w)), h_now = (\<lambda>w. 0), h_write = (\<lambda>c w. (None, w)),
     h_flusher = True, h_bus = True, h_engine = Some sample_decide,
     h_retryCfg = DefaultRetryConfig, h_metrics = False, h_chains = Map.empty, h_retrieval = None\<rparr>"

definition sample_auto :: http_request where
  "sample_auto = sample_http\<lparr>hr_decoded := Some (zero_request\<lparr>req_Model := ''auto'', req_Messages := [text_message ''user'' ''hi'']\<rparr>)\<rparr>"

lemma sample_available: "map card_ID (availableCatalog catalog (buildRouter sample_registry)) = [''mistral-small-latest'']"
  by (simp add: availableCatalog_def catalog_def buildRouter_def provider_key_simps sample_registry_def)

lemma sample_decision:
  assumes "hint_MaxCostUSDPer1M hint = 0"
  shows "\<exists>d. sample_decide 0 hint None = (Inr d, None) \<and> rd_Model d = ''mistral-small-latest'' \<and> rd_FallbackChain d = []"
proof -
  let ?cat = "availableCatalog catalog (buildRouter sample_registry)"
  have dist: "distinct (map card_ID ?cat)" by (simp add: sample_available)
  obtain x cb where x: "sample_decide 0 hint None = (x, cb)" by fastforce
  have all: "passes 0 hint None m" for m using assms by (simp add: passes_def in_cap_def over_cap_def)
  have ids: "card_ID ` set ?cat = {''mistral-small-latest''}" using sample_available by (metis list.set_map list.simps(15) empty_set)
  have "length ?cat = 1" using arg_cong [OF sample_available, of length] by simp
  then have "?cat \<noteq> []" by (metis list.size(3) zero_neq_one)
  then have "\<not> isl x"
    using Engine_Decide_error_iff [of "GetPolicy Map.empty" "perf_Get perf_NewMemory" ?cat None 0 hint None] x
    by (simp add: sample_decide_def Filter_eq [OF dist] all GetPolicy_def)
  then obtain d where d: "x = Inr d" by (cases x) auto
  have none: "None \<in> {None, Some (EpsilonGreedy_Select 0 0 0 (NewEpsilonGreedy 0)), Some (UCB_Select 0 (NewUCB 0))}" by simp
  from Engine_Decide_candidates [OF x [unfolded d sample_decide_def] dist none] obtain policy where
    prim: "rd_Model d \<in> card_ID ` {m \<in> set ?cat. passes 0 hint None m}" and
    chain: "rd_FallbackChain d = take 2 (filter (\<lambda>c. cand_Model c \<noteq> rd_Model d)
       (Engine_candidates (perf_Get perf_NewMemory) policy hint (filter (passes 0 hint None) ?cat)))"
    by blast
  have model: "rd_Model d = ''mistral-small-latest''" using prim ids by auto
  have "cand_Model c = ''mistral-small-latest''" if "c \<in> set (Engine_candidates (perf_Get perf_NewMemory) policy hint (filter (passes 0 hint None) ?cat))" for c
  proof -
    from that obtain m where m: "m \<in> set ?cat" "c = cand_of (perf_Get perf_NewMemory) policy hint m"
      by (auto simp: Engine_candidates_set)
    then have "card_ID m \<in> {''mistral-small-latest''}" using ids by blast
    with m(2) show ?thesis by (simp add: cand_of_def)
  qed
  then have "filter (\<lambda>c. cand_Model c \<noteq> rd_Model d) (Engine_candidates (perf_Get perf_NewMemory) policy hint (filter (passes 0 hint None) ?cat)) = []"
    by (simp add: model filter_empty_conv)
  then have "rd_FallbackChain d = []" by (simp add: chain)
  moreover have "cb = None"
    using x d by (auto simp: sample_decide_def Engine_Decide_def Filter_def Filter_loop_None Let_def split: sum.splits prod.splits if_splits)
  ultimately show ?thesis using model x d by blast
qed

lemma sample_gateway_fields [simp]:
  "h_router sample_gateway = buildRouter sample_registry" "h_chat sample_gateway p req w = (Inr (sample_answer req), w)"
  "h_now sample_gateway w = 0" "h_engine sample_gateway = Some sample_decide" "h_chains sample_gateway = Map.empty" "h_retrieval sample_gateway = None"
  by (simp_all add: sample_gateway_def)

theorem auto_always_routable_witness:
  "\<exists>reply st'. ChatHandler_ServeHTTP (\<lambda>_. None) [] sample_gateway sample_auto sample_state = Some (JsonReply reply, st') \<and>
     (\<forall>msg. JsonReply reply \<noteq> ErrorReply 400 ''no_provider'' msg)"
proof -
  let ?req = "zero_request\<lparr>req_Model := ''auto'', req_Messages := [text_message ''user'' ''hi'']\<rparr>"
  have "hint_MaxCostUSDPer1M (taskHintFromHeaders (\<lambda>_. None) sample_auto ?req) = 0"
    by (simp add: taskHintFromHeaders_def sample_auto_def sample_http_def Let_def)
  from sample_decision [OF this] obtain d where
    d: "sample_decide 0 (taskHintFromHeaders (\<lambda>_. None) sample_auto ?req) None = (Inr d, None)" "rd_Model d = ''mistral-small-latest''" "rd_FallbackChain d = []"
    by blast
  let ?routed = "?req\<lparr>req_Model := ''mistral-small-latest''\<rparr>"
  have http: "hr_method sample_auto = ''POST''" "hr_decoded sample_auto = Some ?req" "req_Model ?req = ''auto''" "req_Messages ?req \<noteq> []"
    "\<not> req_Stream ?req"
    by (simp_all add: sample_auto_def sample_http_def zero_request_def)
  have st: "cs_cb sample_state = None" "sample_state\<lparr>cs_cb := None\<rparr> = sample_state" by (simp_all add: sample_state_def)
  have route: "buildRouter sample_registry ''mistral-small-latest'' = Inr (Adapter ''mistral'' ''key'' [])"
    by (simp add: buildRouter_def provider_key_simps sample_registry_def)
  have routed: "route_request (\<lambda>_. None) sample_gateway sample_auto ?req sample_state = (Inr (?routed, []), sample_state)"
    using d http(3) st by (simp add: route_request_def Let_def)
  have answered: "\<exists>reply st'. answer_request sample_gateway sample_auto True (Adapter ''mistral'' ''key'' []) ?routed [] sample_state = Some (JsonReply reply, st')"
    by (simp add: answer_request_def is_allowed_def call_provider_def resolve_answer_def st Let_def)
  have run: "\<exists>reply st'. ChatHandler_ServeHTTP (\<lambda>_. None) [] sample_gateway sample_auto sample_state = Some (JsonReply reply, st')"
    using answered http routed route by (simp add: ChatHandler_ServeHTTP_def)
  then obtain reply st' where reply: "ChatHandler_ServeHTTP (\<lambda>_. None) [] sample_gateway sample_auto sample_state = Some (JsonReply reply, st')" by blast
  have "JsonReply reply \<noteq> ErrorReply 400 ''no_provider'' msg" for msg
  proof (rule auto_always_routable [OF reply, of ?req _ "GetPolicy Map.empty" "perf_Get perf_NewMemory" "\<lambda>_. None"])
    show "h_router sample_gateway = buildRouter sample_registry" by (simp add: sample_gateway_def)
    show "h_engine sample_gateway = Some (\<lambda>now. Engine_Decide (GetPolicy Map.empty) (perf_Get perf_NewMemory)
        (availableCatalog catalog (buildRouter sample_registry)) None now)"
      by (simp add: sample_gateway_def sample_decide_def fun_eq_iff)
    show "None \<in> {None, Some (EpsilonGreedy_Select 0 0 now (NewEpsilonGreedy 0)), Some (UCB_Select now (NewUCB 0))}" for now :: time
      by simp
  qed (simp_all add: sample_gateway_def sample_auto_def)
  with reply show ?thesis by blast
qed

end
