(* ===== verification/ProviderStream.thy ===== *)
theory ProviderStream
  imports Executor
begin

text \<open>
  The contract between the executor and the streaming half of a provider (\<^verbatim>\<open>Stream\<close> of
  \<^verbatim>\<open>pkg/provider/provider.go\<close>). The executor treats a stream as a list of chunks with an end
  (\<^verbatim>\<open>streamWithRetry\<close> in \<^verbatim>\<open>executor.go\<close>); an adapter is a loop that calls back. The contract says that
  the loop is such a list: the callback decides how far it is read and nothing else.
\<close>

definition deliver_end :: "'w sink_fn \<Rightarrow> StreamChunk list \<Rightarrow> goerror option \<Rightarrow> 'w \<Rightarrow> goerror option \<times> 'w" where
  "deliver_end fn chunks err w = (case deliver fn chunks w of
      (Some e, w) \<Rightarrow> (Some e, w)
    | (None, w) \<Rightarrow> (err, w))"

lemma deliver_end_simps [simp]:
  "deliver_end fn [] err w = (err, w)"
  "deliver_end fn (c # cs) err w = (case fn c w of
     (Some e, w) \<Rightarrow> (Some e, w)
   | (None, w) \<Rightarrow> deliver_end fn cs err w)"
  by (simp_all add: deliver_end_def split: prod.split option.split)

locale provider_stream =
  fixes stream :: "'w sink_fn \<Rightarrow> 'w \<Rightarrow> goerror option \<times> 'w"
  assumes chunked: "\<exists>chunks err. \<forall>fn w. stream fn w = deliver_end fn chunks err w"
begin

text \<open>What the executor sees of an attempt is what the adapter does.\<close>

lemma attempt: "\<exists>s. \<forall>fn w. (case stream_once s fn p req w of ((_, e), w') \<Rightarrow> (e, w')) = stream fn w"
proof -
  from chunked obtain chunks err where c: "\<And>fn w. stream fn w = deliver_end fn chunks err w" by blast
  show ?thesis
    by (rule exI [of _ "\<lambda>_ _ w. ((chunks, err), w)"])
      (simp add: stream_once_def c deliver_end_def split: prod.split option.split)
qed

text \<open>A callback that fails at once sees at most one chunk, and its error is the error of the stream.\<close>

lemma failing_callback:
  assumes "\<And>c w. fn c w = (Some e, g c w)"
  shows "fst (stream fn w) = Some e \<or> (\<forall>fn'. snd (stream fn' w) = w)"
proof -
  from chunked obtain chunks err where c: "\<And>fn w. stream fn w = deliver_end fn chunks err w" by blast
  show ?thesis by (cases chunks) (simp_all add: c assms)
qed

end

end
