(* ===== verification/EventStream.thy ===== *)
theory EventStream
  imports Auth ProviderStream "HOL-Library.Word"
begin

text \<open>
  The binary event stream of the Bedrock adapter: framing (\<^verbatim>\<open>eventstream.go\<close>) and the translation
  of the events it carries (\<^verbatim>\<open>stream.go\<close>), both in \<^verbatim>\<open>internal/adapters/providers/bedrock\<close>. A reader is
  the list of the bytes it will deliver. \<^verbatim>\<open>hash/crc32\<close>, \<^verbatim>\<open>encoding/binary\<close> and \<^verbatim>\<open>encoding/base64\<close> are
  modelled on 32-bit words and bytes; \<open>unmarshal\<close> is the JSON decoder.
\<close>

unbundle bit_operations_syntax

section \<open>Standard library\<close>

definition crc_bit :: "32 word \<Rightarrow> 32 word" where
  "crc_bit c = (if bit c 0 then drop_bit 1 c XOR 0xEDB88320 else drop_bit 1 c)"

definition crc_byte :: "32 word \<Rightarrow> char \<Rightarrow> 32 word" where
  "crc_byte c b = (crc_bit ^^ 8) (c XOR word_of_nat (of_char b))"

definition ChecksumIEEE :: "string \<Rightarrow> 32 word" where
  "ChecksumIEEE s = NOT (foldl crc_byte (NOT 0) s)"

definition Uint32 :: "string \<Rightarrow> 32 word" where
  "Uint32 s = word_of_nat (big_endian s)"

text \<open>\<^verbatim>\<open>io.ReadFull\<close>: the end of the stream is only clean when nothing was read.\<close>

datatype read_full = FullRead string string | EndOfStream | UnexpectedEOF

definition ReadFull :: "nat \<Rightarrow> string \<Rightarrow> read_full" where
  "ReadFull n r = (if n \<le> length r then FullRead (take n r) (drop n r) else if r = [] then EndOfStream else UnexpectedEOF)"

section \<open>Headers\<close>

definition readEventStreamHeaderValue :: "nat \<Rightarrow> string \<Rightarrow> goerror + string \<times> string" where
  "readEventStreamHeaderValue valueType b =
     (let truncated = (\<lambda>what. Inl (plain_error (''bedrock: truncated event stream '' @ what)));
          prefixed = (\<lambda>what. if length b < 2 then truncated (what @ '' header length'')
            else let n = big_endian (take 2 b); b = drop 2 b in
              if length b < n then truncated (what @ '' header'') else Inr (take n b, drop n b))
      in if valueType = 0 then Inr (''true'', b)
         else if valueType = 1 then Inr (''false'', b)
         else if valueType = 2 then
           (if length b < 1 then truncated ''byte header'' else Inr (Itoa (sint (word_of_nat (big_endian (take 1 b)) :: 8 word)), drop 1 b))
         else if valueType = 3 then
           (if length b < 2 then truncated ''short header'' else Inr (Itoa (sint (word_of_nat (big_endian (take 2 b)) :: 16 word)), drop 2 b))
         else if valueType = 4 then
           (if length b < 4 then truncated ''int header'' else Inr (Itoa (sint (word_of_nat (big_endian (take 4 b)) :: 32 word)), drop 4 b))
         else if valueType = 5 \<or> valueType = 8 then
           (if length b < 8 then truncated ''long header'' else Inr (Itoa (sint (word_of_nat (big_endian (take 8 b)) :: 64 word)), drop 8 b))
         else if valueType = 6 then prefixed ''byte-array''
         else if valueType = 7 then prefixed ''string''
         else if valueType = 9 then
           (if length b < 16 then truncated ''uuid header'' else Inr (hex_encode (take 16 b), drop 16 b))
         else Inl (plain_error (''bedrock: unknown event stream header value type '' @ Itoa (int valueType))))"

lemma header_value_shrinks: "readEventStreamHeaderValue t b = Inr (v, rest) \<Longrightarrow> length rest \<le> length b"
  by (auto simp: readEventStreamHeaderValue_def Let_def split: if_splits)

function parse_headers :: "string \<Rightarrow> (string, string) gomap \<Rightarrow> goerror + (string, string) gomap" where
  "parse_headers [] headers = Inr headers"
| "parse_headers (c # b) headers =
     (let nameLen = of_char c in
      if length b < nameLen + 1 then Inl (plain_error ''bedrock: truncated event stream header name'')
      else (case readEventStreamHeaderValue (of_char (b ! nameLen)) (drop (nameLen + 1) b) of
          Inl err \<Rightarrow> Inl err
        | Inr (value, rest) \<Rightarrow> parse_headers rest (headers(take nameLen b \<mapsto> value))))"
  by pat_completeness auto
termination
  by (relation "measure (\<lambda>(b, _). length b)") (auto dest!: header_value_shrinks)

definition parseEventStreamHeaders :: "string \<Rightarrow> goerror + (string, string) gomap" where
  "parseEventStreamHeaders b = parse_headers b Map.empty"

section \<open>Frames\<close>

record eventStreamMessage =
  es_Headers :: "(string, string) gomap"
  es_Payload :: string

text \<open>\<open>FrameEOF\<close> is an error in whose chain \<^verbatim>\<open>errors.Is\<close> finds \<^verbatim>\<open>io.EOF\<close>, wrapped or not.\<close>

datatype frame_read = Frame eventStreamMessage string | FrameEOF goerror | FrameError goerror

definition crc_mismatch :: goerror where
  "crc_mismatch = plain_error ''bedrock: event stream CRC mismatch''"

definition readEventStreamMessage :: "string \<Rightarrow> frame_read" where
  "readEventStreamMessage r = (case ReadFull 12 r of
      EndOfStream \<Rightarrow> FrameEOF (plain_error ''EOF'')
    | UnexpectedEOF \<Rightarrow> FrameError (plain_error ''bedrock: read event stream prelude: unexpected EOF'')
    | FullRead prelude r \<Rightarrow>
        let totalLen = Uint32 (take 4 prelude);
            headersLen = Uint32 (take 4 (drop 4 prelude));
            preludeCRC = Uint32 (drop 8 prelude)
        in if ChecksumIEEE (take 8 prelude) \<noteq> preludeCRC then FrameError crc_mismatch
           else if totalLen < 16 \<or> unat headersLen + 16 > unat totalLen
           then FrameError (plain_error (''bedrock: malformed event stream message (total='' @ Itoa (uint totalLen) @
                  '' headers='' @ Itoa (uint headersLen) @ '')''))
           else (case ReadFull (unat (totalLen - 12)) r of
               EndOfStream \<Rightarrow> FrameEOF (plain_error ''bedrock: read event stream body: EOF'')
             | UnexpectedEOF \<Rightarrow> FrameError (plain_error ''bedrock: read event stream body: unexpected EOF'')
             | FullRead rest r \<Rightarrow>
                 let msgCRC = Uint32 (drop (length rest - 4) rest);
                     full = prelude @ take (length rest - 4) rest
                 in if ChecksumIEEE full \<noteq> msgCRC then FrameError crc_mismatch
                    else let headerBytes = take (unat headersLen) rest;
                             payload = drop (unat headersLen) (take (length rest - 4) rest)
                         in (case parseEventStreamHeaders headerBytes of
                               Inl err \<Rightarrow> FrameError err
                             | Inr headers \<Rightarrow> Frame \<lparr>es_Headers = headers, es_Payload = payload\<rparr> r)))"

section \<open>Events\<close>

text \<open>\<^verbatim>\<open>base64.StdEncoding\<close>: padded to groups of four.\<close>

definition Std_DecodeString :: "string \<Rightarrow> string option" where
  "Std_DecodeString s =
     (let s = filter (\<lambda>c. c \<noteq> CHR 0x0A \<and> c \<noteq> CHR 0x0D) s;
          body = TrimRightIf (\<lambda>c. c = CHR ''='') s;
          value = (\<lambda>c. if c = CHR ''+'' then Some 62 else if c = CHR ''/'' then Some 63
                       else if c = CHR ''-'' \<or> c = CHR ''_'' then None else b64_value c);
          ds = map value body
      in if length s mod 4 \<noteq> 0 \<or> length s - length body > 2 \<or> None \<in> set ds then None else b64_bytes (map the ds))"

record bedrockStreamEvent =
  bse_Type :: string
  bse_MessageID :: string
  bse_MessageModel :: string
  bse_InputTokens :: int
  bse_DeltaType :: string
  bse_DeltaText :: string
  bse_StopReason :: string
  bse_OutputTokens :: int

definition decode_event :: "(string \<times> json) list \<Rightarrow> bedrockStreamEvent option" where
  "decode_event o' = (case (json_string ''type'' o', json_object ''message'' o', json_object ''delta'' o', json_object ''usage'' o') of
      (Some ty, Some m, Some d, Some u) \<Rightarrow>
        (case (json_string ''id'' m, json_string ''model'' m, Option.bind (json_object ''usage'' m) (json_int ''input_tokens''),
               json_string ''type'' d, json_string ''text'' d, json_string ''stop_reason'' d, json_int ''output_tokens'' u) of
           (Some i, Some mo, Some inp, Some dt, Some tx, Some sr, Some out) \<Rightarrow>
             Some \<lparr>bse_Type = ty, bse_MessageID = i, bse_MessageModel = mo, bse_InputTokens = inp, bse_DeltaType = dt, bse_DeltaText = tx,
                   bse_StopReason = sr, bse_OutputTokens = out\<rparr>
         | _ \<Rightarrow> None)
    | _ \<Rightarrow> None)"

text \<open>The event in the payload of a chunk; the messages of decoding errors are cut after their prefix.\<close>

definition chunk_event :: "(string \<Rightarrow> json option) \<Rightarrow> string \<Rightarrow> goerror + bedrockStreamEvent" where
  "chunk_event unmarshal payload = (case decode_object unmarshal (json_string ''bytes'') payload of
      None \<Rightarrow> Inl (plain_error ''bedrock: decode chunk envelope'')
    | Some b64 \<Rightarrow> (case Std_DecodeString b64 of
        None \<Rightarrow> Inl (plain_error ''bedrock: decode chunk base64'')
      | Some inner \<Rightarrow> (case decode_object unmarshal decode_event inner of
          None \<Rightarrow> Inl (plain_error ''bedrock: decode inner event'')
        | Some ev \<Rightarrow> Inr ev)))"

definition normalizeBedrockStopReason :: "string \<Rightarrow> string" where
  "normalizeBedrockStopReason reason =
     (if reason = ''end_turn'' \<or> reason = ''stop_sequence'' then ''stop''
      else if reason = ''max_tokens'' then ''length''
      else if reason = ''tool_use'' then ''tool_calls''
      else reason)"

record bedrock_state =
  bs_msgID :: string
  bs_model :: string
  bs_inputTok :: int

datatype event_action = Stop | Continue bedrock_state | Emit StreamChunk bedrock_state

definition bedrock_action :: "bedrockStreamEvent \<Rightarrow> bedrock_state \<Rightarrow> event_action" where
  "bedrock_action ev s =
     (if bse_Type ev = ''message_start'' then
        Continue \<lparr>bs_msgID = bse_MessageID ev, bs_model = (if bse_MessageModel ev \<noteq> [] then bse_MessageModel ev else bs_model s),
                  bs_inputTok = bse_InputTokens ev\<rparr>
      else if bse_Type ev = ''content_block_delta'' then
        (if bse_DeltaType ev \<noteq> ''text_delta'' then Continue s
         else Emit \<lparr>chunk_ID = bs_msgID s, chunk_Model = bs_model s, chunk_Delta = text_message ''assistant'' (bse_DeltaText ev),
                    chunk_FinishReason = [], chunk_Usage = None\<rparr> s)
      else if bse_Type ev = ''message_delta'' then
        Emit \<lparr>chunk_ID = bs_msgID s, chunk_Model = bs_model s, chunk_Delta = text_message [] [],
              chunk_FinishReason = normalizeBedrockStopReason (bse_StopReason ev),
              chunk_Usage = Some (zero_usage\<lparr>PromptTokens := bs_inputTok s, CompletionTokens := bse_OutputTokens ev,
                TotalTokens := bs_inputTok s + bse_OutputTokens ev\<rparr>)\<rparr> s
      else if bse_Type ev = ''message_stop'' then Stop
      else Continue s)"

lemma frame_consumes: "readEventStreamMessage r = Frame m rest \<Longrightarrow> length rest < length r"
  by (auto simp: readEventStreamMessage_def ReadFull_def Let_def split: read_full.splits if_splits sum.splits)

text \<open>The loop over the frames; \<open>fn\<close> is the callback, which acts on the world \<open>'w\<close>.\<close>

function stream_frames :: "(string \<Rightarrow> json option) \<Rightarrow> (StreamChunk \<Rightarrow> 'w \<Rightarrow> goerror option \<times> 'w) \<Rightarrow> string \<Rightarrow> bedrock_state \<Rightarrow> 'w \<Rightarrow>
    goerror option \<times> 'w" where
  "stream_frames unmarshal fn r s w = (case readEventStreamMessage r of
      FrameEOF _ \<Rightarrow> (None, w)
    | FrameError err \<Rightarrow> (Some (err\<lparr>err_msg := ''bedrock: read stream event: '' @ err_msg err\<rparr>), w)
    | Frame msg rest \<Rightarrow>
        let excType = gomap_get [] (es_Headers msg) '':exception-type'' in
        if excType \<noteq> [] then (Some (plain_error (''bedrock: stream exception '' @ excType @ '': '' @ es_Payload msg)), w)
        else if gomap_get [] (es_Headers msg) '':event-type'' \<noteq> ''chunk'' then stream_frames unmarshal fn rest s w
        else (case chunk_event unmarshal (es_Payload msg) of
            Inl err \<Rightarrow> (Some err, w)
          | Inr ev \<Rightarrow> (case bedrock_action ev s of
              Stop \<Rightarrow> (None, w)
            | Continue s \<Rightarrow> stream_frames unmarshal fn rest s w
            | Emit chunk s \<Rightarrow> (case fn chunk w of
                (Some err, w) \<Rightarrow> (Some err, w)
              | (None, w) \<Rightarrow> stream_frames unmarshal fn rest s w))))"
  by pat_completeness auto
termination
  by (relation "measure (\<lambda>(_, _, r, _, _). length r)") (auto dest: frame_consumes)

declare stream_frames.simps [simp del]

definition streamBedrockEvents :: "(string \<Rightarrow> json option) \<Rightarrow> string \<Rightarrow> string \<Rightarrow> (StreamChunk \<Rightarrow> 'w \<Rightarrow> goerror option \<times> 'w) \<Rightarrow> 'w \<Rightarrow> goerror option \<times> 'w" where
  "streamBedrockEvents unmarshal r requestedModel fn w =
     stream_frames unmarshal fn r \<lparr>bs_msgID = [], bs_model = requestedModel, bs_inputTok = 0\<rparr> w"

section \<open>The contract of a stream\<close>

lemma frames_chunked: "\<exists>chunks err. \<forall>(fn :: 'w sink_fn) w. stream_frames unmarshal fn r s w = deliver_end fn chunks err w"
proof (induction "length r" arbitrary: r s rule: less_induct)
  case less
  have stop: ?case if "\<And>(fn :: 'w sink_fn) w. stream_frames unmarshal fn r s w = (err, w)" for err
    using that by (intro exI [of _ "[]"] exI [of _ err]) simp
  show ?case
  proof (cases "readEventStreamMessage r")
    case (Frame msg rest)
    then have IH: "\<exists>chunks err. \<forall>(fn :: 'w sink_fn) w. stream_frames unmarshal fn rest s' w = deliver_end fn chunks err w" for s'
      using less frame_consumes by blast
    let ?exc = "gomap_get [] (es_Headers msg) '':exception-type''"
    consider "?exc \<noteq> []" | "?exc = []" "gomap_get [] (es_Headers msg) '':event-type'' \<noteq> ''chunk''"
      | err where "?exc = []" "gomap_get [] (es_Headers msg) '':event-type'' = ''chunk''" "chunk_event unmarshal (es_Payload msg) = Inl err"
      | ev where "?exc = []" "gomap_get [] (es_Headers msg) '':event-type'' = ''chunk''" "chunk_event unmarshal (es_Payload msg) = Inr ev"
      by (cases "chunk_event unmarshal (es_Payload msg)") blast+
    then show ?thesis
    proof cases
      case 1
      with Frame show ?thesis by (intro stop) (subst stream_frames.simps, simp)
    next
      case 2
      with Frame IH [of s] show ?thesis by (simp add: stream_frames.simps [of _ _ r])
    next
      case 3
      with Frame show ?thesis by (intro stop) (subst stream_frames.simps, simp)
    next
      case 4
      show ?thesis
      proof (cases "bedrock_action ev s")
        case Stop
        with Frame 4 show ?thesis by (intro stop) (subst stream_frames.simps, simp)
      next
        case (Continue s')
        with Frame 4 IH [of s'] show ?thesis by (simp add: stream_frames.simps [of _ _ r])
      next
        case (Emit chunk s')
        from IH [of s'] obtain chunks err where "\<And>(fn :: 'w sink_fn) w. stream_frames unmarshal fn rest s' w = deliver_end fn chunks err w" by blast
        with Frame 4 Emit show ?thesis
          by (intro exI [of _ "chunk # chunks"] exI [of _ err]) (simp add: stream_frames.simps [of _ _ r] split: prod.split option.split)
      qed
    qed
  qed ((intro stop, subst stream_frames.simps, simp)+)
qed

interpretation bedrock: provider_stream "streamBedrockEvents unmarshal r model" for unmarshal r model
  by unfold_locales (simp add: streamBedrockEvents_def frames_chunked)

text \<open>
  The adapter keeps the contract the executor relies on, whatever bytes arrive: a stream is a list of
  chunks with an end, which the callback reads up to its first error and cannot change.
\<close>

theorem bedrock_stream_contract:
  "\<exists>chunks err. \<forall>fn w. streamBedrockEvents unmarshal r model fn w = deliver_end fn chunks err w"
  by (rule bedrock.chunked)

section \<open>Reading accepts exactly well-formed frames\<close>

text \<open>The frame of a message on the wire.\<close>

definition be_bytes :: "nat \<Rightarrow> nat \<Rightarrow> string" where
  "be_bytes n x = map (\<lambda>i. char_of (x div 256 ^ (n - 1 - i) mod 256)) [0..<n]"

definition encode_frame :: "string \<Rightarrow> string \<Rightarrow> string" where
  "encode_frame headers payload =
     (let lens = be_bytes 4 (16 + length headers + length payload) @ be_bytes 4 (length headers);
          prelude = lens @ be_bytes 4 (unat (ChecksumIEEE lens));
          body = prelude @ headers @ payload
      in body @ be_bytes 4 (unat (ChecksumIEEE body)))"

lemma length_be_bytes [simp]: "length (be_bytes n x) = n"
  by (simp add: be_bytes_def)

lemma big_endian_snoc: "big_endian (s @ [c]) = 256 * big_endian s + of_char c"
  by (simp add: big_endian_def)

lemma be_bytes_Suc: "be_bytes (Suc n) x = be_bytes n (x div 256) @ [char_of (x mod 256)]"
  by (auto simp: be_bytes_def div_mult2_eq [symmetric] power_Suc [symmetric] Suc_diff_le simp del: power_Suc intro!: arg_cong [of _ _ char_of] arg_cong [of _ _ "\<lambda>y. x div y mod 256"])

lemma big_endian_be_bytes: "x < 256 ^ n \<Longrightarrow> big_endian (be_bytes n x) = x"
proof (induction n arbitrary: x)
  case 0
  then show ?case by (simp add: be_bytes_def big_endian_def)
next
  case (Suc n)
  then have "x div 256 < 256 ^ n" by (simp add: less_mult_imp_div_less mult.commute)
  with Suc show ?case by (simp add: be_bytes_Suc big_endian_snoc of_char_of)
qed

lemma Uint32_be_bytes: "x < 2 ^ 32 \<Longrightarrow> unat (Uint32 (be_bytes 4 x)) = x"
  by (simp add: Uint32_def big_endian_be_bytes unsigned_of_nat take_bit_nat_eq_self)

lemma Uint32_crc: "Uint32 (be_bytes 4 (unat (w :: 32 word))) = w"
  using unsigned_less [of w, where ?'a = nat] by (simp add: Uint32_def big_endian_be_bytes)

lemma digit_bound: "b < P \<Longrightarrow> d < 256 \<Longrightarrow> 256 * b + d < 256 * (P :: nat)"
  by linarith

lemma big_endian_less: "big_endian s < 256 ^ length s"
proof (induction s rule: rev_induct)
  case (snoc c s)
  then show ?case using digit_bound [of "big_endian s" "256 ^ length s" "of_char c"] by (simp add: big_endian_snoc)
qed (simp add: big_endian_def)

lemma be_bytes_big_endian: "be_bytes (length s) (big_endian s) = s"
proof (induction s rule: rev_induct)
  case (snoc c s)
  have "(256 * big_endian s + of_char c) div 256 = big_endian s" "(256 * big_endian s + of_char c) mod 256 = (of_char c :: nat)"
    using nat_of_char_less_256 [of c] by simp_all
  with snoc show ?case by (simp add: be_bytes_Suc big_endian_snoc)
qed (simp add: be_bytes_def)

lemma Uint32_bytes: "length s = 4 \<Longrightarrow> be_bytes 4 (unat (Uint32 s)) = s"
  using be_bytes_big_endian [of s] big_endian_less [of s]
  by (simp add: Uint32_def unsigned_of_nat take_bit_nat_eq_self)

lemma ReadFull_FullRead: "ReadFull n r = FullRead a b \<longleftrightarrow> r = a @ b \<and> length a = n"
  by (auto simp: ReadFull_def)

lemma encode_frame_parts:
  assumes "be_bytes 4 (16 + length hb + length payload) = a" "be_bytes 4 (length hb) = b"
    "be_bytes 4 (unat (ChecksumIEEE (a @ b))) = c" "be_bytes 4 (unat (ChecksumIEEE ((a @ b @ c) @ hb @ payload))) = d"
  shows "encode_frame hb payload = (a @ b @ c) @ hb @ payload @ d"
  using assms by (simp add: encode_frame_def Let_def)

text \<open>Reading after a good prelude.\<close>

definition prelude_of :: "nat \<Rightarrow> nat \<Rightarrow> string" where
  "prelude_of h k = (let lens = be_bytes 4 (16 + h + k) @ be_bytes 4 h in lens @ be_bytes 4 (unat (ChecksumIEEE lens)))"

lemma length_prelude_of [simp]: "length (prelude_of h k) = 12"
  by (simp add: prelude_of_def Let_def)

lemma encode_frame_eq:
  "encode_frame hb payload = prelude_of (length hb) (length payload) @ hb @ payload @
     be_bytes 4 (unat (ChecksumIEEE (prelude_of (length hb) (length payload) @ hb @ payload)))"
  by (simp add: encode_frame_def prelude_of_def Let_def)

lemma read_prelude:
  assumes "16 + h + k < 2 ^ 32"
  shows "readEventStreamMessage (prelude_of h k @ b) = (case ReadFull (4 + h + k) b of
      EndOfStream \<Rightarrow> FrameEOF (plain_error ''bedrock: read event stream body: EOF'')
    | UnexpectedEOF \<Rightarrow> FrameError (plain_error ''bedrock: read event stream body: unexpected EOF'')
    | FullRead rest r \<Rightarrow>
        if ChecksumIEEE (prelude_of h k @ take (length rest - 4) rest) \<noteq> Uint32 (drop (length rest - 4) rest) then FrameError crc_mismatch
        else (case parseEventStreamHeaders (take h rest) of
            Inl err \<Rightarrow> FrameError err
          | Inr headers \<Rightarrow> Frame \<lparr>es_Headers = headers, es_Payload = drop h (take (length rest - 4) rest)\<rparr> r))"
proof -
  define T where "T = 16 + h + k"
  define lens where "lens = be_bytes 4 T @ be_bytes 4 h"
  define p where "p = prelude_of h k"
  have p: "p = lens @ be_bytes 4 (unat (ChecksumIEEE lens))" by (simp add: p_def prelude_of_def lens_def T_def Let_def)
  have r1: "ReadFull 12 (p @ b) = FullRead p b" by (simp add: ReadFull_FullRead p_def)
  have fields: "take 4 p = be_bytes 4 T" "take 4 (drop 4 p) = be_bytes 4 h" "take 8 p = lens"
    "drop 8 p = be_bytes 4 (unat (ChecksumIEEE lens))"
    by (simp_all add: p lens_def)
  have tot: "unat (Uint32 (be_bytes 4 T)) = T" "unat (Uint32 (be_bytes 4 h)) = h"
    using assms by (simp_all add: Uint32_be_bytes T_def)
  have le: "12 \<le> Uint32 (be_bytes 4 T)" "\<not> Uint32 (be_bytes 4 T) < 16" using tot(1) by (simp_all add: word_le_nat_alt word_less_nat_alt T_def)
  have n: "unat (Uint32 (be_bytes 4 T) - 12) = 4 + h + k" using le(1) tot(1) by (simp add: unat_sub T_def)
  have len: "\<not> T < h + 16" by (simp add: T_def)
  show ?thesis
    unfolding p_def [symmetric] readEventStreamMessage_def r1
    by (cases "ReadFull (4 + h + k) b") (simp_all add: fields Uint32_crc le(2) tot len n Let_def)
qed

lemma read_encoded:
  assumes "16 + length hb + length payload < 2 ^ 32"
  shows "readEventStreamMessage (encode_frame hb payload @ rest) = (case parseEventStreamHeaders hb of
      Inl err \<Rightarrow> FrameError err
    | Inr headers \<Rightarrow> Frame \<lparr>es_Headers = headers, es_Payload = payload\<rparr> rest)"
proof -
  define p where "p = prelude_of (length hb) (length payload)"
  define crc where "crc = be_bytes 4 (unat (ChecksumIEEE (p @ hb @ payload)))"
  define B where "B = hb @ payload @ crc"
  have frame: "encode_frame hb payload @ rest = p @ B @ rest"
    by (simp add: encode_frame_eq p_def crc_def B_def)
  have pieces: "drop (length B - 4) B = crc" "take (length B - 4) B = hb @ payload" "take (length hb) B = hb"
    "Uint32 crc = ChecksumIEEE (p @ hb @ payload)"
    by (simp_all add: crc_def B_def Uint32_crc)
  have "ReadFull (4 + length hb + length payload) (B @ rest) = FullRead B rest"
    by (simp add: ReadFull_FullRead crc_def B_def)
  then show ?thesis
    using read_prelude [OF assms, of "B @ rest"] by (simp add: frame pieces p_def [symmetric] cong: sum.case_cong)
qed

lemma accepted_frames:
  "readEventStreamMessage r = Frame m rest \<longleftrightarrow>
     (\<exists>hb. r = encode_frame hb (es_Payload m) @ rest \<and> 16 + length hb + length (es_Payload m) < 2 ^ 32 \<and>
        parseEventStreamHeaders hb = Inr (es_Headers m))"
proof
  assume read: "readEventStreamMessage r = Frame m rest"
  obtain p r1 where r1: "ReadFull 12 r = FullRead p r1"
    using read by (auto simp: readEventStreamMessage_def split: read_full.splits)
  let ?T = "unat (Uint32 (take 4 p))" and ?H = "unat (Uint32 (take 4 (drop 4 p)))"
  have r: "r = p @ r1" "length p = 12" using r1 by (auto simp: ReadFull_FullRead)
  have pre: "ChecksumIEEE (take 8 p) = Uint32 (drop 8 p)" and wf: "\<not> Uint32 (take 4 p) < 16" "?H + 16 \<le> ?T"
    using read by (auto simp: readEventStreamMessage_def r1 Let_def split: if_splits)
  have T16: "16 \<le> ?T" using wf by linarith
  then have "12 \<le> Uint32 (take 4 p)" by (simp add: word_le_nat_alt)
  then have sub: "unat (Uint32 (take 4 p) - 12) = ?T - 12" by (simp add: unat_sub)
  obtain q r2 where r2: "ReadFull (?T - 12) r1 = FullRead q r2"
    using read pre wf by (auto simp: readEventStreamMessage_def r1 Let_def sub split: read_full.splits if_splits)
  have q: "r1 = q @ r2" "length q = ?T - 12" using r2 by (auto simp: ReadFull_FullRead)
  let ?hb = "take ?H q" and ?payload = "drop ?H (take (length q - 4) q)"
  have crc: "ChecksumIEEE (p @ take (length q - 4) q) = Uint32 (drop (length q - 4) q)"
    and m: "parseEventStreamHeaders ?hb = Inr (es_Headers m)" "es_Payload m = ?payload" "rest = r2"
    using read pre wf by (auto simp: readEventStreamMessage_def r1 r2 Let_def sub split: if_splits sum.splits)
  have lens: "length ?hb = ?H" "length ?payload = ?T - 16 - ?H" using q(2) wf T16 by auto
  have Hk: "?H \<le> length q - 4" using q(2) wf by linarith
  have qk: "take (length q - 4) q = ?hb @ ?payload"
    using Hk append_take_drop_id [of ?H "take (length q - 4) q"] by (simp add: min_absorb1)
  have T: "16 + length ?hb + length ?payload = ?T" using lens wf T16 by linarith
  have bytes: "be_bytes 4 ?T = take 4 p" "be_bytes 4 ?H = take 4 (drop 4 p)"
    "be_bytes 4 (unat (Uint32 (drop 8 p))) = drop 8 p" "be_bytes 4 (unat (Uint32 (drop (length q - 4) q))) = drop (length q - 4) q"
    using r(2) q(2) T16 by (simp_all add: Uint32_bytes)
  have p8: "take 4 p @ take 4 (drop 4 p) = take 8 p" using take_add [of 4 4 p] by simp
  have p12: "take 4 p @ take 4 (drop 4 p) @ drop 8 p = p" by (metis p8 append.assoc append_take_drop_id)
  have "encode_frame ?hb ?payload = (take 4 p @ take 4 (drop 4 p) @ drop 8 p) @ ?hb @ ?payload @ drop (length q - 4) q"
  proof (rule encode_frame_parts)
    show "be_bytes 4 (16 + length ?hb + length ?payload) = take 4 p" by (simp only: T bytes(1))
    show "be_bytes 4 (length ?hb) = take 4 (drop 4 p)" by (simp only: lens(1) bytes(2))
  qed (simp_all only: p8 pre p12 crc qk [symmetric] bytes(3,4))
  then have "encode_frame ?hb ?payload = p @ q"
    unfolding p12 by (metis qk append.assoc append_take_drop_id)
  moreover have "?T < 2 ^ 32" using unsigned_less [of "Uint32 (take 4 p)", where ?'a = nat] by simp
  ultimately show "\<exists>hb. r = encode_frame hb (es_Payload m) @ rest \<and> 16 + length hb + length (es_Payload m) < 2 ^ 32 \<and>
        parseEventStreamHeaders hb = Inr (es_Headers m)"
    using r(1) q(1) m T by (intro exI [of _ ?hb]) simp
next
  assume "\<exists>hb. r = encode_frame hb (es_Payload m) @ rest \<and> 16 + length hb + length (es_Payload m) < 2 ^ 32 \<and>
        parseEventStreamHeaders hb = Inr (es_Headers m)"
  then show "readEventStreamMessage r = Frame m rest" using read_encoded by auto
qed

text \<open>
  The reader accepts exactly the well-formed frames: it returns a message and the bytes after it
  when and only when the input is the frame of that message, with both lengths and both checksums
  right and headers that parse, followed by those bytes.
\<close>

theorem frame_accepted_iff:
  "readEventStreamMessage r = Frame m rest \<longleftrightarrow>
     (\<exists>hb. r = encode_frame hb (es_Payload m) @ rest \<and> 16 + length hb + length (es_Payload m) < 2 ^ 32 \<and>
        parseEventStreamHeaders hb = Inr (es_Headers m))"
  by (rule accepted_frames)

section \<open>Corruption is detected\<close>

lemma xor_cancel: "x XOR k = y XOR k \<Longrightarrow> x = y" for x y k :: "32 word"
  by (drule arg_cong [of _ _ "\<lambda>z. z XOR k"]) (simp add: xor.assoc)

text \<open>The highest bit of a CRC step tells whether the polynomial was added, so no step loses information.\<close>

lemma crc_bit_inj: "crc_bit c = crc_bit d \<Longrightarrow> c = d"
proof -
  assume eq: "crc_bit c = crc_bit d"
  have top: "bit (crc_bit x) 31 \<longleftrightarrow> bit x 0" for x :: "32 word"
    by (auto simp: crc_bit_def bit_simps dest: bit_imp_le_length)
  have b0: "bit c 0 = bit d 0" using eq top by metis
  then have "drop_bit 1 c = drop_bit 1 d" using eq by (auto simp: crc_bit_def split: if_splits dest: xor_cancel)
  then have s: "bit c (Suc n) = bit d (Suc n)" for n
    by (metis One_nat_def add.commute bit_drop_bit_eq o_apply plus_1_eq_Suc)
  show "c = d"
  proof (rule bit_eqI)
    fix n show "bit c n = bit d n" using b0 s by (cases n) auto
  qed
qed

lemma crc_bits_inj: "(crc_bit ^^ n) c = (crc_bit ^^ n) d \<Longrightarrow> c = d"
  by (induction n) (auto dest: crc_bit_inj)

lemma crc_byte_state_inj: "crc_byte c b = crc_byte d b \<Longrightarrow> c = d"
  unfolding crc_byte_def by (drule crc_bits_inj) (rule xor_cancel)

lemma crc_byte_inj: "crc_byte c b = crc_byte c b' \<Longrightarrow> b = b'"
proof -
  assume "crc_byte c b = crc_byte c b'"
  then have "c XOR word_of_nat (of_char b) = c XOR word_of_nat (of_char b')"
    unfolding crc_byte_def by (rule crc_bits_inj)
  then have "(word_of_nat (of_char b) :: 32 word) = word_of_nat (of_char b')"
    by (metis xor.commute xor_cancel)
  then have "unat (word_of_nat (of_char b) :: 32 word) = unat (word_of_nat (of_char b') :: 32 word)" by simp
  then have "(of_char b :: nat) = of_char b'"
    using nat_of_char_less_256 [of b] nat_of_char_less_256 [of b'] by (simp add: unsigned_of_nat take_bit_nat_eq_self)
  then show "b = b'" by simp
qed

lemma crc_fold_inj: "foldl crc_byte c s = foldl crc_byte d s \<Longrightarrow> c = d"
  by (induction s arbitrary: c d) (auto dest: crc_byte_state_inj)

lemma checksum_byte: "ChecksumIEEE (u @ b # v) = ChecksumIEEE (u @ b' # v) \<Longrightarrow> b = b'"
  by (auto simp: ChecksumIEEE_def dest!: crc_fold_inj crc_byte_inj)

lemma checksum_update: "i < length s \<Longrightarrow> c \<noteq> s ! i \<Longrightarrow> ChecksumIEEE (s[i := c]) \<noteq> ChecksumIEEE s"
  using checksum_byte [of "take i s" c "drop (Suc i) s" "s ! i"] by (auto simp: upd_conv_take_nth_drop id_take_nth_drop [symmetric])

lemma Uint32_update: "length s = 4 \<Longrightarrow> i < 4 \<Longrightarrow> c \<noteq> s ! i \<Longrightarrow> Uint32 (s[i := c]) \<noteq> Uint32 s"
  by (metis Uint32_bytes length_list_update nth_list_update_eq)

lemma prelude_rejected:
  "length lens = 8 \<Longrightarrow> length crc = 4 \<Longrightarrow> ChecksumIEEE lens \<noteq> Uint32 crc \<Longrightarrow>
     readEventStreamMessage (lens @ crc @ r) = FrameError crc_mismatch"
  by (simp add: readEventStreamMessage_def ReadFull_def)

lemma body_rejected:
  assumes "16 + h + k < 2 ^ 32" "length body = h + k" "length crc = 4" "ChecksumIEEE (prelude_of h k @ body) \<noteq> Uint32 crc"
  shows "readEventStreamMessage (prelude_of h k @ body @ crc @ rest) = FrameError crc_mismatch"
  using assms read_prelude [of h k "body @ crc @ rest"] by (simp add: ReadFull_def)

text \<open>
  C19. A frame with any single byte changed, in its lengths, its checksums, its headers or its payload,
  is rejected with the checksum error, whatever bytes follow: the changed lengths are never used.
\<close>

theorem corrupt_byte_detected:
  assumes size: "16 + length hb + length payload < 2 ^ 32"
    and i: "i < length (encode_frame hb payload)" and c: "c \<noteq> encode_frame hb payload ! i"
  shows "readEventStreamMessage ((encode_frame hb payload)[i := c] @ rest) = FrameError crc_mismatch"
proof -
  define lens where "lens = be_bytes 4 (16 + length hb + length payload) @ be_bytes 4 (length hb)"
  define pc where "pc = be_bytes 4 (unat (ChecksumIEEE lens))"
  define p where "p = prelude_of (length hb) (length payload)"
  define body where "body = hb @ payload"
  define mc where "mc = be_bytes 4 (unat (ChecksumIEEE (p @ body)))"
  have p: "p = lens @ pc" by (simp add: p_def prelude_of_def lens_def pc_def Let_def)
  have frame: "encode_frame hb payload = lens @ pc @ body @ mc"
    using p by (simp add: encode_frame_eq p_def body_def mc_def)
  have len: "length lens = 8" "length pc = 4" "length mc = 4" by (simp_all add: lens_def pc_def mc_def)
  have crcs: "Uint32 pc = ChecksumIEEE lens" "Uint32 mc = ChecksumIEEE (p @ body)" by (simp_all add: pc_def mc_def Uint32_crc)
  have rejected: "readEventStreamMessage (lens @ pc @ b @ m @ rest) = FrameError crc_mismatch"
    if "length b = length body" "length m = 4" "ChecksumIEEE (p @ b) \<noteq> Uint32 m" for b m
    using body_rejected [OF size, of b m rest] that p by (simp add: p_def body_def)
  have "i < 16 + length body" using i by (simp add: frame len)
  then have "i < 8 \<or> (\<exists>j. i = 8 + j \<and> j < 4) \<or> (\<exists>j. i = 12 + j \<and> j < length body) \<or> (\<exists>j. i = 12 + length body + j \<and> j < 4)"
    by presburger
  then consider "i < 8" | j where "i = 8 + j" "j < 4" | j where "i = 12 + j" "j < length body" | j where "i = 12 + length body + j" "j < 4"
    by blast
  then show ?thesis
  proof cases
    case 1
    with c have "c \<noteq> lens ! i" by (simp add: frame len nth_append)
    with 1 show ?thesis
      using prelude_rejected [of "lens[i := c]" pc "body @ mc @ rest"] checksum_update [of i lens c]
      by (simp add: frame list_update_append len crcs)
  next
    case 2
    with c have "c \<noteq> pc ! j" by (simp add: frame len nth_append)
    with 2 show ?thesis
      using prelude_rejected [of lens "pc[j := c]" "body @ mc @ rest"] Uint32_update [of pc j c]
      by (simp add: frame list_update_append len crcs)
  next
    case 3
    with c have "c \<noteq> (p @ body) ! i" by (simp add: frame len nth_append p_def)
    with 3 have "ChecksumIEEE (p @ body[j := c]) \<noteq> ChecksumIEEE (p @ body)"
      using checksum_update [of i "p @ body" c] by (simp add: p_def len list_update_append)
    with 3 show ?thesis
      using rejected [of "body[j := c]" mc] by (simp add: frame list_update_append len crcs)
  next
    case 4
    with c have "c \<noteq> mc ! j" by (simp add: frame len nth_append)
    with 4 show ?thesis
      using rejected [of body "mc[j := c]"] Uint32_update [of mc j c]
      by (simp add: frame list_update_append len crcs)
  qed
qed

theorem corrupt_byte_detected_witness:
  "readEventStreamMessage ((encode_frame [] ''{}'')[15 := if encode_frame [] ''{}'' ! 15 = CHR ''a'' then CHR ''b'' else CHR ''a''] @ ''next'') =
     FrameError crc_mismatch"
  by (rule corrupt_byte_detected) (simp_all add: encode_frame_def Let_def)

section \<open>Headers round trip\<close>

definition encode_header :: "string \<times> string \<Rightarrow> string" where
  "encode_header nv = char_of (length (fst nv)) # fst nv @ char_of (7 :: nat) # be_bytes 2 (length (snd nv)) @ snd nv"

lemma header_value_string: "length v < 65536 \<Longrightarrow> readEventStreamHeaderValue 7 (be_bytes 2 (length v) @ v @ rest) = Inr (v, rest)"
  by (simp add: readEventStreamHeaderValue_def Let_def big_endian_be_bytes)

text \<open>Headers with string values are read back, a later one of the same name replacing an earlier one.\<close>

lemma headers_roundtrip:
  "\<forall>nv \<in> set hs. length (fst nv) < 256 \<and> length (snd nv) < 65536 \<Longrightarrow>
   parse_headers (concat (map encode_header hs)) m = Inr (m ++ map_of (rev hs))"
proof (induction hs arbitrary: m)
  case (Cons nv hs)
  obtain n v where nv: "nv = (n, v)" by fastforce
  have "length n < 256" "length v < 65536" using Cons.prems nv by auto
  then have "parse_headers (concat (map encode_header (nv # hs))) m = parse_headers (concat (map encode_header hs)) (m(n \<mapsto> v))"
    using header_value_string [of v "concat (map encode_header hs)"]
    by (simp add: encode_header_def nv of_char_of nth_append)
  also have "\<dots> = Inr (m(n \<mapsto> v) ++ map_of (rev hs))" by (rule Cons.IH) (use Cons.prems in auto)
  also have "m(n \<mapsto> v) ++ map_of (rev hs) = m ++ map_of (rev (nv # hs))" by (simp add: nv map_add_assoc)
  finally show ?case .
qed simp

section \<open>Streams of frames\<close>

text \<open>What the events alone do.\<close>

fun run_events :: "(StreamChunk \<Rightarrow> 'w \<Rightarrow> goerror option \<times> 'w) \<Rightarrow> bedrockStreamEvent list \<Rightarrow> bedrock_state \<Rightarrow> 'w \<Rightarrow> goerror option \<times> 'w" where
  "run_events fn [] s w = (None, w)"
| "run_events fn (ev # evs) s w = (case bedrock_action ev s of
      Stop \<Rightarrow> (None, w)
    | Continue s \<Rightarrow> run_events fn evs s w
    | Emit chunk s \<Rightarrow> (case fn chunk w of
        (Some err, w) \<Rightarrow> (Some err, w)
      | (None, w) \<Rightarrow> run_events fn evs s w))"

text \<open>A frame on the wire: its header bytes and payload, and the event it carries, or none when it is no chunk.\<close>

definition carries :: "(string \<Rightarrow> json option) \<Rightarrow> string \<times> string \<Rightarrow> bedrockStreamEvent option \<Rightarrow> bool" where
  "carries unmarshal f ev \<longleftrightarrow> 16 + length (fst f) + length (snd f) < 2 ^ 32 \<and>
     (\<exists>headers. parseEventStreamHeaders (fst f) = Inr headers \<and> gomap_get [] headers '':exception-type'' = [] \<and>
       (case ev of
          None \<Rightarrow> gomap_get [] headers '':event-type'' \<noteq> ''chunk''
        | Some e \<Rightarrow> gomap_get [] headers '':event-type'' = ''chunk'' \<and> chunk_event unmarshal (snd f) = Inr e))"

text \<open>The chunks of the events, and whether a stop event ends them.\<close>

fun event_chunks :: "bedrockStreamEvent list \<Rightarrow> bedrock_state \<Rightarrow> StreamChunk list \<times> bool" where
  "event_chunks [] s = ([], False)"
| "event_chunks (ev # evs) s = (case bedrock_action ev s of
      Stop \<Rightarrow> ([], True)
    | Continue s \<Rightarrow> event_chunks evs s
    | Emit chunk s \<Rightarrow> (case event_chunks evs s of (chunks, stopped) \<Rightarrow> (chunk # chunks, stopped)))"

lemma run_events_chunks: "run_events fn evs s w = deliver_end fn (fst (event_chunks evs s)) None w"
  by (induction evs arbitrary: s w) (auto split: event_action.splits prod.splits option.splits)

text \<open>Complete frames before bytes whose reading ends the stream at once.\<close>

lemma frames_before:
  assumes "list_all2 (carries unmarshal) fs evs" and "\<And>s w. stream_frames unmarshal fn rest s w = (err, w)"
  shows "stream_frames unmarshal fn (concat (map (\<lambda>f. encode_frame (fst f) (snd f)) fs) @ rest) s w =
    (case event_chunks (concat (map (case_option [] (\<lambda>e. [e])) evs)) s of
       (chunks, stopped) \<Rightarrow> deliver_end fn chunks (if stopped then None else err) w)"
  using assms(1)
proof (induction fs evs arbitrary: s w rule: list_all2_induct)
  case Nil
  show ?case by (simp add: assms(2))
next
  case (Cons f fs ev evs)
  let ?rest = "concat (map (\<lambda>f. encode_frame (fst f) (snd f)) fs) @ rest"
  from Cons.hyps obtain headers where size: "16 + length (fst f) + length (snd f) < 2 ^ 32"
    and h: "parseEventStreamHeaders (fst f) = Inr headers" "gomap_get [] headers '':exception-type'' = []"
      "case ev of None \<Rightarrow> gomap_get [] headers '':event-type'' \<noteq> ''chunk''
        | Some e \<Rightarrow> gomap_get [] headers '':event-type'' = ''chunk'' \<and> chunk_event unmarshal (snd f) = Inr e"
    by (auto simp: carries_def)
  have read: "readEventStreamMessage (encode_frame (fst f) (snd f) @ ?rest) = Frame \<lparr>es_Headers = headers, es_Payload = snd f\<rparr> ?rest"
    using read_encoded [OF size, of ?rest] h(1) by simp
  show ?case
    using h Cons.IH by (cases ev; subst (1) stream_frames.simps) (auto simp: read split: event_action.splits prod.splits option.splits)
qed

lemma end_of_frames: "stream_frames unmarshal fn [] s w = (None, w)"
  by (subst stream_frames.simps) (simp add: readEventStreamMessage_def ReadFull_def)

text \<open>
  C31. A stream of frames is the stream of the events they carry: whatever follows byte by byte, the
  callback sees the chunks of the events in order, frames that are no chunks are skipped, and the
  stream ends without error at its end or at a stop event, or with the first error of the callback.
\<close>

theorem bedrock_stream_refines:
  assumes "list_all2 (carries unmarshal) fs evs"
  shows "streamBedrockEvents unmarshal (concat (map (\<lambda>f. encode_frame (fst f) (snd f)) fs)) model fn w =
    run_events fn (concat (map (case_option [] (\<lambda>e. [e])) evs)) \<lparr>bs_msgID = [], bs_model = model, bs_inputTok = 0\<rparr> w"
  using frames_before [OF assms end_of_frames, of fn "\<lparr>bs_msgID = [], bs_model = model, bs_inputTok = 0\<rparr>" w]
  by (simp add: streamBedrockEvents_def run_events_chunks case_prod_beta)

definition sample_json :: "string \<Rightarrow> json option" where
  "sample_json s = (if s = ''P'' then Some (JObj [(''bytes'', JStr ''QQ=='')])
     else if s = ''A'' then Some (JObj [(''type'', JStr ''content_block_delta''), (''delta'', JObj [(''type'', JStr ''text_delta''), (''text'', JStr ''hi'')])])
     else None)"

definition sample_delta :: bedrockStreamEvent where
  "sample_delta = \<lparr>bse_Type = ''content_block_delta'', bse_MessageID = [], bse_MessageModel = [], bse_InputTokens = 0,
     bse_DeltaType = ''text_delta'', bse_DeltaText = ''hi'', bse_StopReason = [], bse_OutputTokens = 0\<rparr>"

lemma sample_headers: "length v < 65536 \<Longrightarrow> parseEventStreamHeaders (encode_header ('':event-type'', v)) = Inr ['':event-type'' \<mapsto> v]"
  using headers_roundtrip [of "[('':event-type'', v)]" Map.empty] by (simp add: parseEventStreamHeaders_def)

theorem bedrock_stream_refines_witness:
  "streamBedrockEvents sample_json (encode_frame (encode_header ('':event-type'', ''ping'')) [] @
     encode_frame (encode_header ('':event-type'', ''chunk'')) ''P'') ''m'' (\<lambda>c w. (None, w @ [msg_Content (chunk_Delta c)])) [] = (None, [''hi''])"
proof -
  have event: "chunk_event sample_json ''P'' = Inr sample_delta" by code_simp
  have sizes: "16 + length (encode_header ('':event-type'', ''ping'')) + length ([] :: string) < 2 ^ 32"
      "16 + length (encode_header ('':event-type'', ''chunk'')) + length ''P'' < 2 ^ 32"
    by (simp_all add: encode_header_def)
  have ping: "carries sample_json (encode_header ('':event-type'', ''ping''), []) None"
    using sizes(1) sample_headers [of "''ping''"] by (auto simp: carries_def gomap_get_def)
  have chunk: "carries sample_json (encode_header ('':event-type'', ''chunk''), ''P'') (Some sample_delta)"
    using sizes(2) sample_headers [of "''chunk''"] event by (auto simp: carries_def gomap_get_def)
  have "list_all2 (carries sample_json) [(encode_header ('':event-type'', ''ping''), []), (encode_header ('':event-type'', ''chunk''), ''P'')]
      [None, Some sample_delta]"
    using ping chunk by simp
  from bedrock_stream_refines [OF this, of "''m''" "\<lambda>c w. (None, w @ [msg_Content (chunk_Delta c)])" "[]"]
  show ?thesis by (simp add: bedrock_action_def sample_delta_def text_message_def)
qed

section \<open>Truncation\<close>

text \<open>The error of a stream that ends inside a frame, after \<open>k\<close> bytes of it.\<close>

definition cut_error :: "nat \<Rightarrow> goerror option" where
  "cut_error k = (if k = 0 \<or> k = 12 then None
     else Some (plain_error (''bedrock: read stream event: bedrock: read event stream '' @
       (if k < 12 then ''prelude'' else ''body'') @ '': unexpected EOF'')))"

lemma cut_frame:
  assumes size: "16 + length hb + length payload < 2 ^ 32" and k: "k < length (encode_frame hb payload)"
  shows "stream_frames unmarshal fn (take k (encode_frame hb payload)) s w = (cut_error k, w)"
proof (cases "k < 12")
  case True
  then have "ReadFull 12 (take k (encode_frame hb payload)) = (if k = 0 then EndOfStream else UnexpectedEOF)"
    using k by (auto simp: ReadFull_def)
  with True show ?thesis
    by (subst stream_frames.simps) (simp add: readEventStreamMessage_def plain_error_def cut_error_def)
next
  case False
  define p where "p = prelude_of (length hb) (length payload)"
  define b where "b = drop 12 (take k (encode_frame hb payload))"
  from False have cut: "take k (encode_frame hb payload) = p @ b"
    by (simp add: b_def encode_frame_eq p_def)
  have lb: "length b = k - 12" using k by (simp add: b_def)
  have "length (encode_frame hb payload) = 16 + length hb + length payload" by (simp add: encode_frame_eq)
  with lb have "b = [] \<longleftrightarrow> k = 12" "length b < 4 + length hb + length payload"
    using False k length_0_conv [of b] by linarith+
  then have "ReadFull (4 + length hb + length payload) b = (if k = 12 then EndOfStream else UnexpectedEOF)"
    by (simp add: ReadFull_def)
  with False show ?thesis
    using read_prelude [OF size, of b]
    by (subst stream_frames.simps) (simp add: cut p_def plain_error_def cut_error_def)
qed

text \<open>
  C38. A stream that ends inside a frame, after any number of complete frames, still hands the callback
  the chunks of every complete frame, in order, and then ends with an error that says in which part
  of the frame it was cut, unless a stop event or an error of the callback came first. There is one
  gap: when it ends right after the twelve bytes of the prelude, the end-of-file error of the body is
  wrapped and passes for the clean end of the stream, which otherwise only comes between two frames.
\<close>

theorem truncated_frame:
  fixes evs :: "bedrockStreamEvent option list" and model :: string
  defines "run \<equiv> event_chunks (concat (map (case_option [] (\<lambda>e. [e])) evs)) \<lparr>bs_msgID = [], bs_model = model, bs_inputTok = 0\<rparr>"
  assumes frames: "list_all2 (carries unmarshal) fs evs"
    and size: "16 + length hb + length payload < 2 ^ 32" and k: "k < length (encode_frame hb payload)"
  shows "streamBedrockEvents unmarshal (concat (map (\<lambda>f. encode_frame (fst f) (snd f)) fs) @ take k (encode_frame hb payload)) model fn w =
    deliver_end fn (fst run)
      (if snd run \<or> k = 0 \<or> k = 12 then None
       else Some (plain_error (''bedrock: read stream event: bedrock: read event stream '' @
         (if k < 12 then ''prelude'' else ''body'') @ '': unexpected EOF''))) w"
  unfolding streamBedrockEvents_def frames_before [OF frames cut_frame [OF size k]] run_def
  by (simp add: case_prod_beta cut_error_def)

text \<open>After a frame with the text "hi", cut in the body and right after the prelude.\<close>

theorem truncated_frame_witness:
  defines "frame \<equiv> encode_frame (encode_header ('':event-type'', ''chunk'')) ''P''"
  shows "streamBedrockEvents sample_json (frame @ take 13 frame) ''m'' (\<lambda>c w. (None, w @ [msg_Content (chunk_Delta c)])) [] =
      (Some (plain_error ''bedrock: read stream event: bedrock: read event stream body: unexpected EOF''), [''hi'']) \<and>
    streamBedrockEvents sample_json (frame @ take 12 frame) ''m'' (\<lambda>c w. (None, w @ [msg_Content (chunk_Delta c)])) [] = (None, [''hi''])"
proof -
  let ?hb = "encode_header ('':event-type'', ''chunk'')"
  have size: "16 + length ?hb + length ''P'' < 2 ^ 32" by (simp add: encode_header_def)
  have "chunk_event sample_json ''P'' = Inr sample_delta" by code_simp
  then have "carries sample_json (?hb, ''P'') (Some sample_delta)"
    using size sample_headers [of "''chunk''"] by (auto simp: carries_def gomap_get_def)
  then have frames: "list_all2 (carries sample_json) [(?hb, ''P'')] [Some sample_delta]" by simp
  have k: "12 < length (encode_frame ?hb ''P'')" "13 < length (encode_frame ?hb ''P'')"
    by (simp_all add: encode_frame_eq encode_header_def)
  show ?thesis
    unfolding frame_def
    using truncated_frame [OF frames size k(1), of "''m''" "\<lambda>c w. (None, w @ [msg_Content (chunk_Delta c)])" "[]"]
      truncated_frame [OF frames size k(2), of "''m''" "\<lambda>c w. (None, w @ [msg_Content (chunk_Delta c)])" "[]"]
    by (simp add: bedrock_action_def sample_delta_def text_message_def)
qed

end
