(* ===== verification/Anthropic.thy ===== *)
theory Anthropic
  imports SemanticLayer Session ProviderStream "HOL-Library.List_Lexorder" "HOL-Library.Char_ord"
begin

text \<open>
  The Anthropic adapter (\<^verbatim>\<open>internal/adapters/providers/anthropic\<close>): the wire types and their
  translation (\<^verbatim>\<open>translate.go\<close>) and the two calls of the provider interface (\<^verbatim>\<open>adapter.go\<close>).
  \<open>unmarshal\<close> and \<open>marshal\<close> are the two directions of \<^verbatim>\<open>encoding/json\<close> between text and JSON trees;
  which keys a struct is written with and how they are read is modelled by its tags. \<open>post\<close> sends the
  HTTP request with the body given; a response body is the bytes it delivers with the error that
  ends it, if any. An index of a Go map that is dereferenced without being there is a panic,
  the result \<^const>\<open>None\<close>.
\<close>

section \<open>Wire types\<close>

record wireImageSource =
  src_Type :: string
  src_MediaType :: string
  src_Data :: string
  src_URL :: string

text \<open>A \<^verbatim>\<open>cache_control\<close> pointer is the type in it.\<close>

record wireContent =
  wc_Type :: string
  wc_Text :: string
  wc_ID :: string
  wc_Name :: string
  wc_Input :: "(string \<times> json) list option"
  wc_ToolUseID :: string
  wc_Content :: string
  wc_IsError :: bool
  wc_Source :: "wireImageSource option"
  wc_CacheControl :: "string option"

record wireMessage =
  wm_Role :: string
  wm_Content :: "wireContent list"

record wireTool =
  wt_Name :: string
  wt_Description :: string
  wt_InputSchema :: "(string \<times> json) list"

record wireToolChoice =
  wtc_Type :: string
  wtc_Name :: string

record wireRequest =
  wr_Model :: string
  wr_Messages :: "wireMessage list"
  wr_System :: "wireContent list"
  wr_MaxTokens :: int
  wr_Stream :: bool
  wr_Tools :: "wireTool list"
  wr_ToolChoice :: "wireToolChoice option"

record wireUsage =
  wu_InputTokens :: int
  wu_OutputTokens :: int
  wu_CacheReadInputTokens :: int
  wu_CacheCreationInputTokens :: int

record wireResponse =
  wresp_ID :: string
  wresp_Type :: string
  wresp_Role :: string
  wresp_Content :: "wireContent list"
  wresp_Model :: string
  wresp_StopReason :: string
  wresp_Usage :: wireUsage

definition zero_content :: "string \<Rightarrow> wireContent" where
  "zero_content ty = \<lparr>wc_Type = ty, wc_Text = [], wc_ID = [], wc_Name = [], wc_Input = None, wc_ToolUseID = [],
     wc_Content = [], wc_IsError = False, wc_Source = None, wc_CacheControl = None\<rparr>"

section \<open>Content\<close>

text \<open>\<^verbatim>\<open>strings.Index\<close>.\<close>

fun string_index :: "string \<Rightarrow> string \<Rightarrow> nat option" where
  "string_index [] sub = (if sub = [] then Some 0 else None)"
| "string_index (c # s) sub = (if HasPrefix (c # s) sub then Some 0 else map_option Suc (string_index s sub))"

definition parseDataURI :: "string \<Rightarrow> (string \<times> string) option" where
  "parseDataURI uri =
     (if \<not> HasPrefix uri ''data:'' then None
      else let rest = drop 5 uri in
        (case string_index rest '';base64,'' of
           None \<Rightarrow> None
         | Some i \<Rightarrow> Some (take i rest, drop (i + 8) rest)))"

definition toImageBlock :: "string \<Rightarrow> wireContent" where
  "toImageBlock url = (zero_content ''image'')\<lparr>wc_Source := Some (case parseDataURI url of
      Some (mediaType, payload) \<Rightarrow> \<lparr>src_Type = ''base64'', src_MediaType = mediaType, src_Data = payload, src_URL = []\<rparr>
    | None \<Rightarrow> \<lparr>src_Type = ''url'', src_MediaType = [], src_Data = [], src_URL = url\<rparr>)\<rparr>"

definition text_block :: "string \<Rightarrow> wireContent" where
  "text_block t = (zero_content ''text'')\<lparr>wc_Text := t\<rparr>"

definition toWireContentBlocks :: "Message \<Rightarrow> wireContent list" where
  "toWireContentBlocks m =
     (if msg_Parts m = [] then [text_block (msg_Content m)]
      else concat (map (\<lambda>p.
        if part_Type p = ''text'' then [text_block (part_Text p)]
        else if part_Type p = ''image_url'' then
          (case part_ImageURL p of None \<Rightarrow> [] | Some im \<Rightarrow> [toImageBlock (img_URL im)])
        else []) (msg_Parts m)))"

definition toWireTools :: "Tool list \<Rightarrow> wireTool list" where
  "toWireTools tools = map (\<lambda>t. \<lparr>wt_Name = fn_Name (tool_Function t), wt_Description = fn_Description (tool_Function t),
     wt_InputSchema = fn_Parameters (tool_Function t)\<rparr>) tools"

definition toWireToolChoice :: "json \<Rightarrow> wireToolChoice option" where
  "toWireToolChoice choice = (case choice of
      JStr v \<Rightarrow> if v = ''required'' then Some \<lparr>wtc_Type = ''any'', wtc_Name = []\<rparr>
               else if v = ''auto'' then Some \<lparr>wtc_Type = ''auto'', wtc_Name = []\<rparr>
               else None
    | JObj v \<Rightarrow> (case json_field ''function'' v of
        Some (JObj f) \<Rightarrow> (case json_field ''name'' f of
            Some (JStr name) \<Rightarrow> if name \<noteq> [] then Some \<lparr>wtc_Type = ''tool'', wtc_Name = name\<rparr> else None
          | _ \<Rightarrow> None)
      | _ \<Rightarrow> None)
    | _ \<Rightarrow> None)"

section \<open>Prompt caching\<close>

definition minCacheableTokens :: "string \<Rightarrow> nat" where
  "minCacheableTokens model = (if Contains (ToLower model) ''haiku'' then 2048 else 1024)"

definition maybeCacheSystemBlock :: "string \<Rightarrow> string \<Rightarrow> wireContent" where
  "maybeCacheSystemBlock model system =
     (let block = text_block system
      in if length system div 4 \<ge> minCacheableTokens model then block\<lparr>wc_CacheControl := Some ''ephemeral''\<rparr> else block)"

definition markHistoryCacheBreakpoint :: "wireMessage list \<Rightarrow> int \<Rightarrow> string \<Rightarrow> wireMessage list" where
  "markHistoryCacheBreakpoint msgs historyLen model =
     (if historyLen \<le> 0 \<or> historyLen > int (length msgs) then msgs
      else let h = nat historyLen;
               totalChars = sum_list (map (\<lambda>c. length (wc_Text c) + length (wc_Content c)) (concat (map wm_Content (take h msgs))));
               blocks = wm_Content (msgs ! (h - 1))
           in if totalChars div 4 < minCacheableTokens model then msgs
              else if blocks = [] then msgs
              else msgs[h - 1 := (msgs ! (h - 1))\<lparr>wm_Content := blocks[length blocks - 1 := (last blocks)\<lparr>wc_CacheControl := Some ''ephemeral''\<rparr>]\<rparr>])"

section \<open>Requests\<close>

definition flushResults :: "wireMessage list \<Rightarrow> wireContent list \<Rightarrow> wireMessage list" where
  "flushResults msgs pendingResults =
     (if pendingResults \<noteq> [] then msgs @ [\<lparr>wm_Role = ''user'', wm_Content = pendingResults\<rparr>] else msgs)"

definition tool_result :: "Message \<Rightarrow> wireContent" where
  "tool_result m = (zero_content ''tool_result'')\<lparr>wc_ToolUseID := msg_ToolCallID m, wc_Content := msg_Content m\<rparr>"

text \<open>Decoding into a map leaves it nil on an error, on \<^verbatim>\<open>null\<close> and on what is no object.\<close>

definition tool_use :: "(string \<Rightarrow> json option) \<Rightarrow> ToolCall \<Rightarrow> wireContent" where
  "tool_use unmarshal tc = (zero_content ''tool_use'')\<lparr>wc_ID := tc_ID tc, wc_Name := tf_Name (tc_Function tc),
     wc_Input := (case unmarshal (tf_Arguments (tc_Function tc)) of Some (JObj o') \<Rightarrow> Some o' | _ \<Rightarrow> None)\<rparr>"

definition wire_step :: "(string \<Rightarrow> json option) \<Rightarrow> string \<times> wireMessage list \<times> wireContent list \<Rightarrow> Message \<Rightarrow>
    string \<times> wireMessage list \<times> wireContent list" where
  "wire_step unmarshal st m = (case st of (system, msgs, pendingResults) \<Rightarrow>
     if msg_Role m = ''tool'' then (system, msgs, pendingResults @ [tool_result m])
     else let msgs = flushResults msgs pendingResults in
       if msg_Role m = ''system'' then
         (if system \<noteq> [] then system @ [CHR 0x0A, CHR 0x0A] @ msg_Content m else msg_Content m, msgs, [])
       else if msg_Role m = ''assistant'' \<and> msg_ToolCalls m \<noteq> [] then
         (system, msgs @ [\<lparr>wm_Role = ''assistant'',
            wm_Content = (if msg_Content m \<noteq> [] then [text_block (msg_Content m)] else []) @ map (tool_use unmarshal) (msg_ToolCalls m)\<rparr>], [])
       else (system, msgs @ [\<lparr>wm_Role = msg_Role m, wm_Content = toWireContentBlocks m\<rparr>], []))"

definition toWireRequest :: "(string \<Rightarrow> json option) \<Rightarrow> RequestEnvelope \<Rightarrow> int \<Rightarrow> wireRequest" where
  "toWireRequest unmarshal req historyLen =
     (case foldl (wire_step unmarshal) ([], [], []) (req_Messages req) of (system, msgs, pendingResults) \<Rightarrow>
        let msgs = markHistoryCacheBreakpoint (flushResults msgs pendingResults) historyLen (req_Model req)
        in \<lparr>wr_Model = req_Model req, wr_Messages = msgs,
            wr_System = (if system \<noteq> [] then [maybeCacheSystemBlock (req_Model req) system] else []),
            wr_MaxTokens = 4096, wr_Stream = False, wr_Tools = toWireTools (req_Tools req),
            wr_ToolChoice = toWireToolChoice (req_ToolChoice req)\<rparr>)"

section \<open>Encoding by the struct tags\<close>

text \<open>A key with \<^verbatim>\<open>omitempty\<close> is left out for the zero value, a nil pointer and an empty slice or map.\<close>

definition marshal_source :: "wireImageSource \<Rightarrow> json" where
  "marshal_source s = JObj ([(''type'', JStr (src_Type s))] @ omitempty ''media_type'' (src_MediaType s) @
     omitempty ''data'' (src_Data s) @ omitempty ''url'' (src_URL s))"

definition marshal_content :: "wireContent \<Rightarrow> json" where
  "marshal_content c = JObj ([(''type'', JStr (wc_Type c))] @ omitempty ''text'' (wc_Text c) @
     omitempty ''id'' (wc_ID c) @ omitempty ''name'' (wc_Name c) @
     (case wc_Input c of Some (f # fs) \<Rightarrow> [(''input'', JObj (f # fs))] | _ \<Rightarrow> []) @
     omitempty ''tool_use_id'' (wc_ToolUseID c) @ omitempty ''content'' (wc_Content c) @
     (if wc_IsError c then [(''is_error'', JBool True)] else []) @
     (case wc_Source c of None \<Rightarrow> [] | Some src \<Rightarrow> [(''source'', marshal_source src)]) @
     (case wc_CacheControl c of None \<Rightarrow> [] | Some ty \<Rightarrow> [(''cache_control'', JObj [(''type'', JStr ty)])]))"

definition marshal_wire_message :: "wireMessage \<Rightarrow> json" where
  "marshal_wire_message m = JObj [(''role'', JStr (wm_Role m)), (''content'', JArr (map marshal_content (wm_Content m)))]"

definition marshal_wire_tool :: "wireTool \<Rightarrow> json" where
  "marshal_wire_tool t = JObj ([(''name'', JStr (wt_Name t))] @ omitempty ''description'' (wt_Description t) @
     (if wt_InputSchema t = [] then [] else [(''input_schema'', JObj (wt_InputSchema t))]))"

text \<open>The slice of messages is nil when there are none.\<close>

definition marshal_request :: "wireRequest \<Rightarrow> json" where
  "marshal_request wr = JObj ([(''model'', JStr (wr_Model wr)),
       (''messages'', if wr_Messages wr = [] then JNull else JArr (map marshal_wire_message (wr_Messages wr)))] @
     (if wr_System wr = [] then [] else [(''system'', JArr (map marshal_content (wr_System wr)))]) @
     [(''max_tokens'', JInt (wr_MaxTokens wr))] @
     (if wr_Stream wr then [(''stream'', JBool True)] else []) @
     (if wr_Tools wr = [] then [] else [(''tools'', JArr (map marshal_wire_tool (wr_Tools wr)))]) @
     (case wr_ToolChoice wr of None \<Rightarrow> []
      | Some tc \<Rightarrow> [(''tool_choice'', JObj ([(''type'', JStr (wtc_Type tc))] @ omitempty ''name'' (wtc_Name tc)))]))"

section \<open>Responses\<close>

definition normalizeStopReason :: "string \<Rightarrow> string" where
  "normalizeStopReason reason =
     (if reason = ''end_turn'' then ''stop''
      else if reason = ''max_tokens'' then ''length''
      else if reason = ''stop_sequence'' then ''stop''
      else if reason = ''tool_use'' then ''tool_calls''
      else reason)"

definition usageFromWire :: "wireUsage \<Rightarrow> Usage" where
  "usageFromWire u =
     (let promptTokens = wu_InputTokens u + wu_CacheCreationInputTokens u + wu_CacheReadInputTokens u
      in \<lparr>PromptTokens = promptTokens, CompletionTokens = wu_OutputTokens u, TotalTokens = promptTokens + wu_OutputTokens u,
          CacheReadInputTokens = wu_CacheReadInputTokens u, CacheCreationInputTokens = wu_CacheCreationInputTokens u\<rparr>)"

text \<open>A nil map is encoded as \<^verbatim>\<open>null\<close>.\<close>

definition input_json :: "(string \<times> json) list option \<Rightarrow> json" where
  "input_json i = (case i of None \<Rightarrow> JNull | Some o' \<Rightarrow> JObj o')"

definition splitContent :: "(json \<Rightarrow> string) \<Rightarrow> wireContent list \<Rightarrow> string \<times> ToolCall list" where
  "splitContent marshal content = foldl (\<lambda>(t, calls) c.
     if wc_Type c = ''text'' then (t @ wc_Text c, calls)
     else if wc_Type c = ''tool_use'' then
       (t, calls @ [\<lparr>tc_ID = wc_ID c, tc_Type = ''function'',
          tc_Function = \<lparr>tf_Name = wc_Name c, tf_Arguments = marshal (input_json (wc_Input c))\<rparr>\<rparr>])
     else (t, calls)) ([], []) content"

definition fromWireResponse :: "(json \<Rightarrow> string) \<Rightarrow> int \<Rightarrow> wireResponse \<Rightarrow> ResponseEnvelope" where
  "fromWireResponse marshal now wr =
     (case splitContent marshal (wresp_Content wr) of (t, toolCalls) \<Rightarrow>
        \<lparr>resp_ID = wresp_ID wr, resp_Object = ''chat.completion'', resp_Created = now, resp_Model = wresp_Model wr,
         resp_Choices = [\<lparr>ch_Index = 0, ch_Message = (text_message ''assistant'' t)\<lparr>msg_ToolCalls := toolCalls\<rparr>,
           ch_FinishReason = normalizeStopReason (wresp_StopReason wr)\<rparr>],
         resp_Usage = usageFromWire (wresp_Usage wr)\<rparr>)"

text \<open>Decoding by the struct tags.\<close>

definition decode_usage :: "(string \<times> json) list \<Rightarrow> wireUsage option" where
  "decode_usage u = (case (json_int ''input_tokens'' u, json_int ''output_tokens'' u,
        json_int ''cache_read_input_tokens'' u, json_int ''cache_creation_input_tokens'' u) of
      (Some i, Some out, Some r, Some c) \<Rightarrow> Some \<lparr>wu_InputTokens = i, wu_OutputTokens = out, wu_CacheReadInputTokens = r, wu_CacheCreationInputTokens = c\<rparr>
    | _ \<Rightarrow> None)"

definition decode_source :: "json \<Rightarrow> wireImageSource option option" where
  "decode_source v = (case v of
      JNull \<Rightarrow> Some None
    | JObj v \<Rightarrow> (case (json_string ''type'' v, json_string ''media_type'' v, json_string ''data'' v, json_string ''url'' v) of
        (Some ty, Some mt, Some d, Some u) \<Rightarrow> Some (Some \<lparr>src_Type = ty, src_MediaType = mt, src_Data = d, src_URL = u\<rparr>)
      | _ \<Rightarrow> None)
    | _ \<Rightarrow> None)"

definition decode_input :: "json \<Rightarrow> (string \<times> json) list option option" where
  "decode_input v = (case v of JNull \<Rightarrow> Some None | JObj o' \<Rightarrow> Some (Some o') | _ \<Rightarrow> None)"

definition decode_cache_control :: "json \<Rightarrow> string option option" where
  "decode_cache_control v = (case v of JNull \<Rightarrow> Some None | JObj o' \<Rightarrow> map_option Some (json_string ''type'' o') | _ \<Rightarrow> None)"

definition decode_bool :: "json \<Rightarrow> bool option" where
  "decode_bool v = (case v of JNull \<Rightarrow> Some False | JBool b \<Rightarrow> Some b | _ \<Rightarrow> None)"

definition field_or_null :: "string \<Rightarrow> (string \<times> json) list \<Rightarrow> json" where
  "field_or_null k v = (case json_field k v of None \<Rightarrow> JNull | Some x \<Rightarrow> x)"

definition decode_content :: "json \<Rightarrow> wireContent option" where
  "decode_content v = (case v of
      JNull \<Rightarrow> Some (zero_content [])
    | JObj v \<Rightarrow> (case (json_string ''type'' v, json_string ''text'' v, json_string ''id'' v, json_string ''name'' v,
          json_string ''tool_use_id'' v, json_string ''content'' v, decode_input (field_or_null ''input'' v),
          decode_bool (field_or_null ''is_error'' v), decode_source (field_or_null ''source'' v),
          decode_cache_control (field_or_null ''cache_control'' v)) of
        (Some ty, Some t, Some cid, Some name, Some tu, Some ct, Some inp, Some e, Some src, Some cc) \<Rightarrow>
          Some \<lparr>wc_Type = ty, wc_Text = t, wc_ID = cid, wc_Name = name, wc_Input = inp, wc_ToolUseID = tu, wc_Content = ct,
                wc_IsError = e, wc_Source = src, wc_CacheControl = cc\<rparr>
      | _ \<Rightarrow> None)
    | _ \<Rightarrow> None)"

definition decode_response :: "(string \<times> json) list \<Rightarrow> wireResponse option" where
  "decode_response v = (case (json_string ''id'' v, json_string ''type'' v, json_string ''role'' v, json_string ''model'' v,
        json_string ''stop_reason'' v, Option.bind (json_object ''usage'' v) decode_usage,
        case field_or_null ''content'' v of JNull \<Rightarrow> Some [] | JArr cs \<Rightarrow> json_list decode_content cs | _ \<Rightarrow> None) of
      (Some i, Some ty, Some r, Some mo, Some sr, Some u, Some cs) \<Rightarrow>
        Some \<lparr>wresp_ID = i, wresp_Type = ty, wresp_Role = r, wresp_Content = cs, wresp_Model = mo, wresp_StopReason = sr, wresp_Usage = u\<rparr>
    | _ \<Rightarrow> None)"

section \<open>Streaming\<close>

record streamToolCallAccumulator =
  acc_byIndex :: "(int, ToolCall) gomap"
  acc_order :: "int list"

definition newStreamToolCallAccumulator :: streamToolCallAccumulator where
  "newStreamToolCallAccumulator = \<lparr>acc_byIndex = Map.empty, acc_order = []\<rparr>"

definition acc_start :: "int \<Rightarrow> string \<Rightarrow> string \<Rightarrow> streamToolCallAccumulator \<Rightarrow> streamToolCallAccumulator" where
  "acc_start i cid name a = a\<lparr>acc_byIndex := (acc_byIndex a)(i \<mapsto> \<lparr>tc_ID = cid, tc_Type = ''function'',
      tc_Function = \<lparr>tf_Name = name, tf_Arguments = []\<rparr>\<rparr>), acc_order := acc_order a @ [i]\<rparr>"

definition acc_appendArgs :: "int \<Rightarrow> string \<Rightarrow> streamToolCallAccumulator \<Rightarrow> streamToolCallAccumulator" where
  "acc_appendArgs i partialJSON a = (case acc_byIndex a i of
      None \<Rightarrow> a
    | Some tc \<Rightarrow> a\<lparr>acc_byIndex := (acc_byIndex a)(i \<mapsto> tc\<lparr>tc_Function := (tc_Function tc)
        \<lparr>tf_Arguments := tf_Arguments (tc_Function tc) @ partialJSON\<rparr>\<rparr>)\<rparr>)"

definition acc_finalize :: "streamToolCallAccumulator \<Rightarrow> ToolCall list option" where
  "acc_finalize a = those (map (acc_byIndex a) (acc_order a))"

text \<open>The decoded events of a stream; one that does not decode, or whose type the loop does not know, changes nothing.\<close>

datatype stream_event =
    MessageStart string string wireUsage
  | ContentBlockStart int string string string
  | ContentBlockDelta int string string string
  | MessageDelta string int
  | MessageStop
  | Ignored

definition message_start_of :: "(string \<times> json) list \<Rightarrow> stream_event option" where
  "message_start_of v = (case (json_string ''type'' v, json_object ''message'' v) of
      (Some _, Some m) \<Rightarrow> (case (json_string ''id'' m, json_string ''model'' m, Option.bind (json_object ''usage'' m) decode_usage) of
          (Some i, Some mo, Some u) \<Rightarrow> Some (MessageStart i mo u) | _ \<Rightarrow> None)
    | _ \<Rightarrow> None)"

definition block_start_of :: "(string \<times> json) list \<Rightarrow> stream_event option" where
  "block_start_of v = (case (json_string ''type'' v, json_int ''index'' v, json_object ''content_block'' v) of
      (Some _, Some i, Some b) \<Rightarrow> (case (json_string ''type'' b, json_string ''id'' b, json_string ''name'' b) of
          (Some ty, Some cid, Some name) \<Rightarrow> Some (ContentBlockStart i ty cid name) | _ \<Rightarrow> None)
    | _ \<Rightarrow> None)"

definition block_delta_of :: "(string \<times> json) list \<Rightarrow> stream_event option" where
  "block_delta_of v = (case (json_string ''type'' v, json_int ''index'' v, json_object ''delta'' v) of
      (Some _, Some i, Some d) \<Rightarrow> (case (json_string ''type'' d, json_string ''text'' d, json_string ''partial_json'' d) of
          (Some ty, Some t, Some pj) \<Rightarrow> Some (ContentBlockDelta i ty t pj) | _ \<Rightarrow> None)
    | _ \<Rightarrow> None)"

definition message_delta_of :: "(string \<times> json) list \<Rightarrow> stream_event option" where
  "message_delta_of v = (case (json_string ''type'' v, json_object ''delta'' v, json_object ''usage'' v) of
      (Some _, Some d, Some u) \<Rightarrow> (case (json_string ''stop_reason'' d, json_int ''output_tokens'' u) of
          (Some sr, Some out) \<Rightarrow> Some (MessageDelta sr out) | _ \<Rightarrow> None)
    | _ \<Rightarrow> None)"

definition decode_stream_event :: "(string \<Rightarrow> json option) \<Rightarrow> string \<Rightarrow> string \<Rightarrow> stream_event" where
  "decode_stream_event unmarshal eventType payload =
     (let decoded = (\<lambda>f. case decode_object unmarshal f payload of None \<Rightarrow> Ignored | Some ev \<Rightarrow> ev) in
      if eventType = ''message_start'' then decoded message_start_of
      else if eventType = ''content_block_start'' then decoded block_start_of
      else if eventType = ''content_block_delta'' then decoded block_delta_of
      else if eventType = ''message_delta'' then decoded message_delta_of
      else if eventType = ''message_stop'' then MessageStop
      else Ignored)"

record anthropic_state =
  as_msgID :: string
  as_model :: string
  as_inputTok :: int
  as_cacheReadTok :: int
  as_cacheCreationTok :: int
  as_toolCalls :: streamToolCallAccumulator

datatype stream_action = StreamDone | StreamNext anthropic_state | StreamSend StreamChunk anthropic_state | StreamPanic

definition stream_action :: "stream_event \<Rightarrow> anthropic_state \<Rightarrow> stream_action" where
  "stream_action ev s = (case ev of
      MessageStart i mo u \<Rightarrow> StreamNext (s\<lparr>as_msgID := i, as_model := mo, as_inputTok := wu_InputTokens u,
        as_cacheReadTok := wu_CacheReadInputTokens u, as_cacheCreationTok := wu_CacheCreationInputTokens u\<rparr>)
    | ContentBlockStart i ty cid name \<Rightarrow>
        StreamNext (if ty \<noteq> ''tool_use'' then s else s\<lparr>as_toolCalls := acc_start i cid name (as_toolCalls s)\<rparr>)
    | ContentBlockDelta i ty t pj \<Rightarrow>
        if ty = ''text_delta'' then
          StreamSend \<lparr>chunk_ID = as_msgID s, chunk_Model = as_model s, chunk_Delta = text_message ''assistant'' t,
            chunk_FinishReason = [], chunk_Usage = None\<rparr> s
        else if ty = ''input_json_delta'' then StreamNext (s\<lparr>as_toolCalls := acc_appendArgs i pj (as_toolCalls s)\<rparr>)
        else StreamNext s
    | MessageDelta sr out \<Rightarrow>
        (let promptTokens = as_inputTok s + as_cacheReadTok s + as_cacheCreationTok s;
             u = \<lparr>PromptTokens = promptTokens, CompletionTokens = out, TotalTokens = promptTokens + out,
                  CacheReadInputTokens = as_cacheReadTok s, CacheCreationInputTokens = as_cacheCreationTok s\<rparr>
         in case (if acc_order (as_toolCalls s) = [] then Some [] else acc_finalize (as_toolCalls s)) of
              None \<Rightarrow> StreamPanic
            | Some calls \<Rightarrow> StreamSend \<lparr>chunk_ID = as_msgID s, chunk_Model = as_model s,
                chunk_Delta = (text_message [] [])\<lparr>msg_ToolCalls := calls\<rparr>,
                chunk_FinishReason = normalizeStopReason sr, chunk_Usage = Some u\<rparr> s)
    | MessageStop \<Rightarrow> StreamDone
    | Ignored \<Rightarrow> StreamNext s)"

fun stream_lines :: "(string \<Rightarrow> json option) \<Rightarrow> (StreamChunk \<Rightarrow> 'w \<Rightarrow> goerror option \<times> 'w) \<Rightarrow> goerror option \<Rightarrow>
    string list \<Rightarrow> string \<Rightarrow> anthropic_state \<Rightarrow> 'w \<Rightarrow> (goerror option \<times> 'w) option" where
  "stream_lines unmarshal fn scanErr [] eventType s w = Some (scanErr, w)"
| "stream_lines unmarshal fn scanErr (line # lines) eventType s w =
     (if HasPrefix line ''event: '' then stream_lines unmarshal fn scanErr lines (drop 7 line) s w
      else if \<not> HasPrefix line ''data: '' then stream_lines unmarshal fn scanErr lines eventType s w
      else case stream_action (decode_stream_event unmarshal eventType (drop 6 line)) s of
          StreamDone \<Rightarrow> Some (None, w)
        | StreamPanic \<Rightarrow> None
        | StreamNext s \<Rightarrow> stream_lines unmarshal fn scanErr lines eventType s w
        | StreamSend chunk s \<Rightarrow> (case fn chunk w of
            (Some err, w) \<Rightarrow> Some (Some err, w)
          | (None, w) \<Rightarrow> stream_lines unmarshal fn scanErr lines eventType s w))"

text \<open>
  \<^verbatim>\<open>bufio.Scanner\<close> with its default buffer of 64 KiB: a line that does not fit with its end ends the
  scan with an error, a carriage return before the end is dropped, and what remains at the end of
  the input is a line when it is not empty.
\<close>

definition scan_lines :: "string \<Rightarrow> goerror option \<Rightarrow> string list \<times> goerror option" where
  "scan_lines body readErr =
     (let ls = split_at (CHR 0x0A) body;
          ls = (if last ls = [] then butlast ls else ls);
          fit = takeWhile (\<lambda>l. length l < 65536) ls
      in (map (\<lambda>l. if l \<noteq> [] \<and> last l = CHR 0x0D then butlast l else l) fit,
          if length fit < length ls then Some (plain_error ''bufio.Scanner: token too long'') else readErr))"

section \<open>The adapter\<close>

record http_answer =
  ha_StatusCode :: int
  ha_Body :: string
  ha_readErr :: "goerror option"

datatype post_result = BuildFailed goerror | DoFailed goerror | Answered http_answer

definition wrap_error :: "string \<Rightarrow> goerror \<Rightarrow> goerror" where
  "wrap_error what err = err\<lparr>err_msg := what @ err_msg err\<rparr>"

definition Anthropic_Chat :: "(string \<Rightarrow> json option) \<Rightarrow> (json \<Rightarrow> string) \<Rightarrow> int \<Rightarrow>
    (string \<Rightarrow> 'w \<Rightarrow> post_result \<times> 'w) \<Rightarrow> int option \<Rightarrow> RequestEnvelope \<Rightarrow> 'w \<Rightarrow> (goerror + ResponseEnvelope) \<times> 'w" where
  "Anthropic_Chat unmarshal marshal now post ctx req w =
     (case post (marshal (marshal_request (toWireRequest unmarshal req (HistoryLenFromContext ctx)))) w of
        (BuildFailed err, w) \<Rightarrow> (Inl (wrap_error ''anthropic: build request: '' err), w)
      | (DoFailed err, w) \<Rightarrow> (Inl (wrap_error ''anthropic: do request: '' err), w)
      | (Answered a, w) \<Rightarrow> (case ha_readErr a of
          Some err \<Rightarrow> (Inl (wrap_error ''anthropic: read response body: '' err), w)
        | None \<Rightarrow>
            if ha_StatusCode a \<noteq> 200
            then (Inl (plain_error (''anthropic: status '' @ Itoa (ha_StatusCode a) @ '': '' @ ha_Body a)), w)
            else (case decode_object unmarshal decode_response (ha_Body a) of
                None \<Rightarrow> (Inl (plain_error ''anthropic: decode response''), w)
              | Some wireResp \<Rightarrow> (Inr (fromWireResponse marshal now wireResp), w))))"

definition Anthropic_Stream :: "(string \<Rightarrow> json option) \<Rightarrow> (json \<Rightarrow> string) \<Rightarrow> (string \<Rightarrow> 'w \<Rightarrow> post_result \<times> 'w) \<Rightarrow>
    int option \<Rightarrow> RequestEnvelope \<Rightarrow> (StreamChunk \<Rightarrow> 'w \<Rightarrow> goerror option \<times> 'w) \<Rightarrow> 'w \<Rightarrow> (goerror option \<times> 'w) option" where
  "Anthropic_Stream unmarshal marshal post ctx req fn w =
     (case post (marshal (marshal_request ((toWireRequest unmarshal req (HistoryLenFromContext ctx))\<lparr>wr_Stream := True\<rparr>))) w of
        (BuildFailed err, w) \<Rightarrow> Some (Some (wrap_error ''anthropic: build stream request: '' err), w)
      | (DoFailed err, w) \<Rightarrow> Some (Some (wrap_error ''anthropic: do stream request: '' err), w)
      | (Answered a, w) \<Rightarrow>
          if ha_StatusCode a \<noteq> 200
          then Some (Some (plain_error (''anthropic: stream status '' @ Itoa (ha_StatusCode a) @ '': '' @ ha_Body a)), w)
          else (case scan_lines (ha_Body a) (ha_readErr a) of (lines, scanErr) \<Rightarrow>
            stream_lines unmarshal fn scanErr lines []
              \<lparr>as_msgID = [], as_model = [], as_inputTok = 0, as_cacheReadTok = 0, as_cacheCreationTok = 0,
               as_toolCalls = newStreamToolCallAccumulator\<rparr> w))"

section \<open>The conversation on the wire\<close>

definition is_tool :: "Message \<Rightarrow> bool" where
  "is_tool m \<longleftrightarrow> msg_Role m = ''tool''"

definition is_system :: "Message \<Rightarrow> bool" where
  "is_system m \<longleftrightarrow> msg_Role m = ''system''"

text \<open>The wire message of a message that is neither a tool result nor a system prompt.\<close>

definition message_turn :: "(string \<Rightarrow> json option) \<Rightarrow> Message \<Rightarrow> wireMessage" where
  "message_turn unmarshal m =
     (if msg_Role m = ''assistant'' \<and> msg_ToolCalls m \<noteq> [] then
        \<lparr>wm_Role = ''assistant'', wm_Content = (if msg_Content m \<noteq> [] then [text_block (msg_Content m)] else []) @ map (tool_use unmarshal) (msg_ToolCalls m)\<rparr>
      else \<lparr>wm_Role = msg_Role m, wm_Content = toWireContentBlocks m\<rparr>)"

text \<open>The conversation: every run of tool results is one turn of the user.\<close>

function turns :: "(string \<Rightarrow> json option) \<Rightarrow> Message list \<Rightarrow> wireMessage list" where
  "turns unmarshal [] = []"
| "turns unmarshal (m # ms) =
     (if is_tool m then
        \<lparr>wm_Role = ''user'', wm_Content = map tool_result (m # takeWhile is_tool ms)\<rparr> # turns unmarshal (dropWhile is_tool ms)
      else if is_system m then turns unmarshal ms
      else message_turn unmarshal m # turns unmarshal ms)"
  by pat_completeness auto
termination
  by (relation "measure (\<lambda>(_, ms). length ms)") (auto simp: le_imp_less_Suc length_dropWhile_le)

definition turns_from :: "(string \<Rightarrow> json option) \<Rightarrow> wireContent list \<Rightarrow> Message list \<Rightarrow> wireMessage list" where
  "turns_from unmarshal pend ms =
     (let results = pend @ map tool_result (takeWhile is_tool ms)
      in if results = [] then turns unmarshal ms
         else \<lparr>wm_Role = ''user'', wm_Content = results\<rparr> # turns unmarshal (dropWhile is_tool ms))"

lemma turns_from_Nil: "turns_from unmarshal [] ms = turns unmarshal ms"
  by (cases ms) (auto simp: turns_from_def)

definition system_text :: "string \<Rightarrow> string list \<Rightarrow> string" where
  "system_text s cs = foldl (\<lambda>s c. if s \<noteq> [] then s @ [CHR 0x0A, CHR 0x0A] @ c else c) s cs"

lemma flushResults_eq: "flushResults msgs pend = msgs @ flushResults [] pend"
  by (simp add: flushResults_def)

lemma turns_from_simps:
  "is_tool m \<Longrightarrow> turns_from u pend (m # ms) = turns_from u (pend @ [tool_result m]) ms"
  "\<not> is_tool m \<Longrightarrow> turns_from u pend (m # ms) = flushResults [] pend @ turns u (m # ms)"
  "turns_from u pend [] = flushResults [] pend"
  by (simp_all add: turns_from_def flushResults_def Let_def)

lemma system_text_Cons:
  "system_text s (c # cs) = system_text (if s \<noteq> [] then s @ [CHR 0x0A, CHR 0x0A] @ c else c) cs"
  by (simp add: system_text_def)

lemma wire_step_simps:
  "is_tool m \<Longrightarrow> wire_step u (sys, msgs, pend) m = (sys, msgs, pend @ [tool_result m])"
  "is_system m \<Longrightarrow> wire_step u (sys, msgs, pend) m =
     (if sys \<noteq> [] then sys @ [CHR 0x0A, CHR 0x0A] @ msg_Content m else msg_Content m, flushResults msgs pend, [])"
  "\<not> is_tool m \<Longrightarrow> \<not> is_system m \<Longrightarrow> wire_step u (sys, msgs, pend) m = (sys, flushResults msgs pend @ [message_turn u m], [])"
  by (simp_all add: wire_step_def is_tool_def is_system_def message_turn_def Let_def)

lemma tool_not_system: "is_tool m \<Longrightarrow> \<not> is_system m"
  by (simp add: is_tool_def is_system_def)

lemma wire_fold:
  assumes "foldl (wire_step unmarshal) (sys, msgs, pend) ms = (sys', msgs', pend')"
  shows "flushResults msgs' pend' = msgs @ turns_from unmarshal pend ms \<and>
    sys' = system_text sys (map msg_Content (filter is_system ms))"
  using assms
proof (induction ms arbitrary: sys msgs pend)
  case Nil
  then show ?case using flushResults_eq [of msgs' pend'] by (simp add: turns_from_simps system_text_def)
next
  case (Cons m ms)
  consider "is_tool m" "\<not> is_system m" | "\<not> is_tool m" "is_system m" | "\<not> is_tool m" "\<not> is_system m"
    using tool_not_system by blast
  then show ?case
  proof cases
    case 1
    with Cons show ?thesis by (simp add: wire_step_simps turns_from_simps)
  next
    case 2
    with Cons.prems have "foldl (wire_step unmarshal) (if sys \<noteq> [] then sys @ [CHR 0x0A, CHR 0x0A] @ msg_Content m else msg_Content m,
        flushResults msgs pend, []) ms = (sys', msgs', pend')"
      by (simp add: wire_step_simps)
    from Cons.IH [OF this] 2 show ?thesis
      using flushResults_eq [of msgs pend] by (simp add: turns_from_simps turns_from_Nil system_text_Cons)
  next
    case 3
    with Cons.prems have "foldl (wire_step unmarshal) (sys, flushResults msgs pend @ [message_turn unmarshal m], []) ms = (sys', msgs', pend')"
      by (simp add: wire_step_simps)
    from Cons.IH [OF this] 3 show ?thesis
      using flushResults_eq [of msgs pend] by (simp add: turns_from_simps turns_from_Nil)
  qed
qed

lemma Join_append_first: "Join ((a @ b) # cs) sep = a @ Join (b # cs) sep"
  by (cases cs) simp_all

lemma system_text_started: "s \<noteq> [] \<Longrightarrow> system_text s cs = Join (s # cs) [CHR 0x0A, CHR 0x0A]"
proof (induction cs arbitrary: s)
  case (Cons c cs)
  then show ?case
    using Join_append_first [of "s @ [CHR 0x0A, CHR 0x0A]" c cs "[CHR 0x0A, CHR 0x0A]"] by (simp add: system_text_Cons)
qed (simp add: system_text_def)

lemma system_text_eq: "system_text [] cs = Join (dropWhile (\<lambda>c. c = []) cs) [CHR 0x0A, CHR 0x0A]"
proof (induction cs)
  case (Cons c cs)
  show ?case
  proof (cases "c = []")
    case False
    then have "system_text [] (c # cs) = system_text c cs" by (simp add: system_text_def)
    with False system_text_started show ?thesis by simp
  qed (use Cons in \<open>simp add: system_text_def\<close>)
qed (simp add: system_text_def)

lemma toWireRequest_eq:
  "toWireRequest unmarshal req h =
     (let t = Join (dropWhile (\<lambda>c. c = []) (map msg_Content (filter is_system (req_Messages req)))) [CHR 0x0A, CHR 0x0A]
      in \<lparr>wr_Model = req_Model req, wr_Messages = markHistoryCacheBreakpoint (turns unmarshal (req_Messages req)) h (req_Model req),
          wr_System = (if t \<noteq> [] then [maybeCacheSystemBlock (req_Model req) t] else []),
          wr_MaxTokens = 4096, wr_Stream = False, wr_Tools = toWireTools (req_Tools req),
          wr_ToolChoice = toWireToolChoice (req_ToolChoice req)\<rparr>)"
proof -
  obtain sys msgs pend where f: "foldl (wire_step unmarshal) ([], [], []) (req_Messages req) = (sys, msgs, pend)"
    by (metis prod_cases3)
  from wire_fold [OF f] show ?thesis
    by (simp add: toWireRequest_def f turns_from_Nil system_text_eq Let_def)
qed

text \<open>A wire message without its cache markers.\<close>

definition uncached :: "wireMessage \<Rightarrow> wireMessage" where
  "uncached m = m\<lparr>wm_Content := map (\<lambda>c. c\<lparr>wc_CacheControl := None\<rparr>) (wm_Content m)\<rparr>"

lemma uncached_mark: "map uncached (markHistoryCacheBreakpoint msgs h model) = map uncached msgs"
proof -
  have "uncached (m\<lparr>wm_Content := (wm_Content m)[length (wm_Content m) - 1 := (last (wm_Content m))\<lparr>wc_CacheControl := x\<rparr>]\<rparr>) = uncached m"
    if "wm_Content m \<noteq> []" for m x
    using that by (cases "wm_Content m" rule: rev_cases) (simp_all add: uncached_def)
  then show ?thesis
    by (auto simp: markHistoryCacheBreakpoint_def Let_def map_update list_update_same_conv)
qed

lemma block_simps [simp]:
  "wc_CacheControl (tool_result m) = None" "wc_CacheControl (tool_use u tc) = None" "wc_CacheControl (text_block t) = None"
  "wc_CacheControl (toImageBlock url) = None"
  "wc_Type (tool_result m) = ''tool_result''" "wc_Type (tool_use u tc) = ''tool_use''" "wc_Type (text_block t) = ''text''"
  "wc_Type (toImageBlock url) = ''image''"
  by (simp_all add: tool_result_def tool_use_def text_block_def toImageBlock_def zero_content_def)

lemma content_blocks:
  "c \<in> set (wm_Content (message_turn u m)) \<Longrightarrow> wc_CacheControl c = None \<and> wc_Type c \<noteq> ''tool_result''"
  by (auto simp: message_turn_def toWireContentBlocks_def split: if_splits option.splits)

lemma uncached_plain: "(\<And>c. c \<in> set (wm_Content m) \<Longrightarrow> wc_CacheControl c = None) \<Longrightarrow> uncached m = m"
  by (cases m) (auto simp: uncached_def intro!: map_idI)

lemma uncached_turns: "map uncached (turns u ms) = turns u ms"
  by (induction u ms rule: turns.induct) (auto intro!: uncached_plain dest: content_blocks)

lemma filter_tool_runs:
  "filter is_tool ms = takeWhile is_tool ms @ filter is_tool (dropWhile is_tool ms)"
  by (induction ms) auto

lemma turns_results:
  "filter (\<lambda>c. wc_Type c = ''tool_result'') (concat (map wm_Content (turns u ms))) = map tool_result (filter is_tool ms)"
proof (induction u ms rule: turns.induct)
  case (2 u m ms)
  have "filter (\<lambda>c. wc_Type c = ''tool_result'') (wm_Content (message_turn u m)) = []"
    using content_blocks by (auto simp: filter_empty_conv)
  with 2 show ?case using filter_tool_runs [of ms] by (auto simp: filter_map o_def filter_id_conv)
qed simp

text \<open>
  C17. The request sent to the API is the caller's conversation: cache markers apart, its messages are
  the turns of the conversation with every run of tool results as one turn of the user, the system
  prompts are all joined in order in the system field, and every tool result is sent exactly once
  and in order.
\<close>

theorem toWireRequest_conversation:
  "map uncached (wr_Messages (toWireRequest unmarshal req h)) = turns unmarshal (req_Messages req) \<and>
   concat (map wc_Text (wr_System (toWireRequest unmarshal req h))) =
     Join (dropWhile (\<lambda>c. c = []) (map msg_Content (filter is_system (req_Messages req)))) [CHR 0x0A, CHR 0x0A] \<and>
   filter (\<lambda>c. wc_Type c = ''tool_result'') (concat (map wm_Content (map uncached (wr_Messages (toWireRequest unmarshal req h))))) =
     map tool_result (filter is_tool (req_Messages req))"
proof -
  have "wc_Text (maybeCacheSystemBlock model t) = t" for model t
    by (simp add: maybeCacheSystemBlock_def text_block_def Let_def)
  then show ?thesis
    by (simp add: toWireRequest_eq Let_def uncached_mark uncached_turns turns_results)
qed

section \<open>History breakpoint\<close>

text \<open>The marker on the last block of a message.\<close>

definition mark_last :: "wireMessage \<Rightarrow> wireMessage" where
  "mark_last m = (if wm_Content m = [] then m
     else m\<lparr>wm_Content := butlast (wm_Content m) @ [(last (wm_Content m))\<lparr>wc_CacheControl := Some ''ephemeral''\<rparr>]\<rparr>)"

definition message_chars :: "wireMessage \<Rightarrow> nat" where
  "message_chars m = sum_list (map (\<lambda>c. length (wc_Text c) + length (wc_Content c)) (wm_Content m))"

lemma turns_system: "(\<And>m. m \<in> set pre \<Longrightarrow> is_system m) \<Longrightarrow> turns u (pre @ ms) = turns u ms"
proof (induction pre)
  case (Cons m pre)
  then have "is_system m" by simp
  then have "\<not> is_tool m" using tool_not_system by blast
  with Cons show ?case by simp
qed simp

lemma turns_plain:
  "(\<And>m. m \<in> set hist \<Longrightarrow> \<not> is_tool m \<and> \<not> is_system m) \<Longrightarrow> turns u (hist @ ms) = map (message_turn u) hist @ turns u ms"
  by (induction hist) auto

lemma update_last_block: "bs \<noteq> [] \<Longrightarrow> bs[length bs - Suc 0 := x] = butlast bs @ [x]"
  by (cases bs rule: rev_cases) simp_all

lemma mark_append:
  assumes "ms \<noteq> []"
  shows "markHistoryCacheBreakpoint (ms @ rest) (int (length ms)) model =
    (if sum_list (map message_chars ms) div 4 < minCacheableTokens model then ms @ rest
     else butlast ms @ [mark_last (last ms)] @ rest)"
proof -
  have chars: "sum_list (map (\<lambda>c. length (wc_Text c) + length (wc_Content c)) (concat (map wm_Content ms))) = sum_list (map message_chars ms)"
    by (induction ms) (simp_all add: message_chars_def)
  have nth: "(ms @ rest) ! (length ms - Suc 0) = last ms" using assms by (simp add: nth_append last_conv_nth)
  have empty: "wm_Content m = [] \<Longrightarrow> mark_last m = m" for m by (simp add: mark_last_def)
  have marked: "m\<lparr>wm_Content := (wm_Content m)[length (wm_Content m) - Suc 0 := (last (wm_Content m))\<lparr>wc_CacheControl := Some ''ephemeral''\<rparr>]\<rparr> = mark_last m"
    if "wm_Content m \<noteq> []" for m
    using that by (simp add: mark_last_def update_last_block)
  have upd: "(ms @ rest)[length ms - Suc 0 := x] = butlast ms @ [x] @ rest" for x
    using assms by (simp add: list_update_append update_last_block)
  have whole: "butlast ms @ [last ms] @ rest = ms @ rest" using assms by simp
  show ?thesis
    using assms whole by (simp add: markHistoryCacheBreakpoint_def chars nth empty marked upd Let_def)
qed

text \<open>
  The cache marker of a session lands where it is meant to: with the history of a session in front
  of the new turn, and system prompts in front of both, the last message of the history is marked,
  and nothing else, when the history is long enough for the model; otherwise nothing is marked.
\<close>

theorem history_breakpoint:
  assumes msgs: "req_Messages req = pre @ hist @ new" "hist \<noteq> []"
    and pre: "\<And>m. m \<in> set pre \<Longrightarrow> is_system m"
    and hist: "\<And>m. m \<in> set hist \<Longrightarrow> \<not> is_tool m \<and> \<not> is_system m"
  shows "wr_Messages (toWireRequest unmarshal req (int (length hist))) =
    (if sum_list (map (\<lambda>m. message_chars (message_turn unmarshal m)) hist) div 4 < minCacheableTokens (req_Model req)
     then map (message_turn unmarshal) hist
     else map (message_turn unmarshal) (butlast hist) @ [mark_last (message_turn unmarshal (last hist))]) @ turns unmarshal new"
proof -
  have "turns unmarshal (req_Messages req) = map (message_turn unmarshal) hist @ turns unmarshal new"
    by (simp add: msgs turns_system [OF pre] turns_plain [OF hist])
  then show ?thesis
    using mark_append [of "map (message_turn unmarshal) hist" "turns unmarshal new" "req_Model req"] msgs(2)
    by (simp add: toWireRequest_eq Let_def o_def map_butlast last_map)
qed

theorem history_breakpoint_witness:
  defines "q \<equiv> text_message ''user'' (replicate 5000 (CHR ''a''))"
  shows "wr_Messages (toWireRequest (\<lambda>_. None) (zero_request\<lparr>req_Messages := [text_message ''system'' ''s'', q, text_message ''user'' ''b'']\<rparr>) 1) =
    [mark_last \<lparr>wm_Role = ''user'', wm_Content = [text_block (msg_Content q)]\<rparr>, \<lparr>wm_Role = ''user'', wm_Content = [text_block ''b'']\<rparr>]"
proof -
  have turn: "message_turn (\<lambda>_. None) (text_message ''user'' t) = \<lparr>wm_Role = ''user'', wm_Content = [text_block t]\<rparr>" for t
    by (simp add: message_turn_def text_message_def toWireContentBlocks_def)
  have role: "\<not> is_tool (text_message ''user'' t)" "\<not> is_system (text_message ''user'' t)" "is_system (text_message ''system'' t)" for t
    by (simp_all add: is_tool_def is_system_def text_message_def)
  have long: "\<not> length (msg_Content q) div 4 < minCacheableTokens []"
    by (simp add: q_def text_message_def minCacheableTokens_def ToLower_def HasPrefix_def)
  have q: "\<not> is_tool q" "\<not> is_system q" "message_turn (\<lambda>_. None) q = \<lparr>wm_Role = ''user'', wm_Content = [text_block (msg_Content q)]\<rparr>"
    by (simp_all add: q_def role turn) (simp add: text_message_def)
  have chars: "message_chars \<lparr>wm_Role = r, wm_Content = [text_block t]\<rparr> = length t" for r t
    by (simp add: message_chars_def text_block_def zero_content_def)
  show ?thesis
    using history_breakpoint [of "zero_request\<lparr>req_Messages := [text_message ''system'' ''s'', q, text_message ''user'' ''b'']\<rparr>"
        "[text_message ''system'' ''s'']" "[q]" "[text_message ''user'' ''b'']" "\<lambda>_. None"] role turn long
    by (simp add: q chars zero_request_def)
qed

section \<open>Tool calls come back as they were sent\<close>

definition call_of :: "(json \<Rightarrow> string) \<Rightarrow> wireContent \<Rightarrow> ToolCall" where
  "call_of marshal c = \<lparr>tc_ID = wc_ID c, tc_Type = ''function'',
     tc_Function = \<lparr>tf_Name = wc_Name c, tf_Arguments = marshal (input_json (wc_Input c))\<rparr>\<rparr>"

lemma splitContent_acc:
  "foldl (\<lambda>(t, calls) c.
     if wc_Type c = ''text'' then (t @ wc_Text c, calls)
     else if wc_Type c = ''tool_use'' then
       (t, calls @ [\<lparr>tc_ID = wc_ID c, tc_Type = ''function'',
          tc_Function = \<lparr>tf_Name = wc_Name c, tf_Arguments = marshal (input_json (wc_Input c))\<rparr>\<rparr>])
     else (t, calls)) (t0, calls0) cs =
   (t0 @ concat (map wc_Text (filter (\<lambda>c. wc_Type c = ''text'') cs)),
    calls0 @ map (call_of marshal) (filter (\<lambda>c. wc_Type c = ''tool_use'') cs))"
  by (induction cs arbitrary: t0 calls0) (simp_all add: call_of_def)

lemma splitContent_eq:
  "splitContent marshal cs = (concat (map wc_Text (filter (\<lambda>c. wc_Type c = ''text'') cs)),
     map (call_of marshal) (filter (\<lambda>c. wc_Type c = ''tool_use'') cs))"
  by (simp add: splitContent_def splitContent_acc)

definition use_block :: "string \<Rightarrow> string \<Rightarrow> (string \<times> json) list \<Rightarrow> wireContent" where
  "use_block cid name inp = (zero_content ''tool_use'')\<lparr>wc_ID := cid, wc_Name := name, wc_Input := Some inp\<rparr>"

text \<open>
  Two JSON trees are the same value when they differ only in the order of the keys of their objects
  and in duplicates, of which the last counts. The codec may write the keys of a map in any order
  (it sorts them).
\<close>

definition object_norm :: "(string \<times> json) list \<Rightarrow> (string \<times> json) list" where
  "object_norm fs = map (\<lambda>k. (k, the (json_field k fs))) (sort (remdups (map fst fs)))"

primrec canon :: "json \<Rightarrow> json" where
  "canon JNull = JNull"
| "canon (JBool b) = JBool b"
| "canon (JInt n) = JInt n"
| "canon (JFloat x) = JFloat x"
| "canon (JStr s) = JStr s"
| "canon (JArr vs) = JArr (map canon vs)"
| "canon (JObj fs) = JObj (object_norm (map (map_prod id canon) fs))"

definition same_json :: "json \<Rightarrow> json \<Rightarrow> bool" where
  "same_json v v' \<longleftrightarrow> canon v = canon v'"

lemma same_json_refl [simp]: "same_json v v"
  by (simp add: same_json_def)

lemma same_object:
  assumes "same_json v (JObj fs)"
  obtains fs' where "v = JObj fs'" "fs' = [] \<longleftrightarrow> fs = []"
proof -
  have empty: "object_norm gs = [] \<longleftrightarrow> gs = []" for gs by (simp add: object_norm_def flip: set_empty)
  obtain fs' where v: "v = JObj fs'" using assms by (cases v) (simp_all add: same_json_def)
  then have "object_norm (map (map_prod id canon) fs') = object_norm (map (map_prod id canon) fs)"
    using assms by (simp add: same_json_def)
  with empty [of "map (map_prod id canon) fs'"] empty [of "map (map_prod id canon) fs"] have "fs' = [] \<longleftrightarrow> fs = []" by auto
  with v show thesis by (rule that)
qed

text \<open>The codec reads back what it writes.\<close>

definition reads_back :: "(string \<Rightarrow> json option) \<Rightarrow> (json \<Rightarrow> string) \<Rightarrow> json \<Rightarrow> bool" where
  "reads_back unmarshal marshal v = (case unmarshal (marshal v) of None \<Rightarrow> False | Some v' \<Rightarrow> same_json v' v)"

text \<open>A block of an answer as the API sends it: a text, or a call with its id, name and input.\<close>

fun block_json :: "string + string \<times> string \<times> (string \<times> json) list \<Rightarrow> json" where
  "block_json (Inl t) = JObj [(''type'', JStr ''text''), (''text'', JStr t)]"
| "block_json (Inr (cid, name, inp)) =
     JObj [(''type'', JStr ''tool_use''), (''id'', JStr cid), (''name'', JStr name), (''input'', JObj inp)]"

fun block_of :: "string + string \<times> string \<times> (string \<times> json) list \<Rightarrow> wireContent" where
  "block_of (Inl t) = text_block t"
| "block_of (Inr (cid, name, inp)) = use_block cid name inp"

definition block_text :: "(string + string \<times> string \<times> (string \<times> json) list) list \<Rightarrow> string" where
  "block_text bs = concat (map (case_sum (\<lambda>t. t) (\<lambda>_. [])) bs)"

definition block_uses :: "(string + 'a) list \<Rightarrow> 'a list" where
  "block_uses bs = concat (map (case_sum (\<lambda>_. []) (\<lambda>c. [c])) bs)"

lemma decode_block: "decode_content (block_json b) = Some (block_of b)"
  by (cases b rule: block_json.cases)
    (simp_all add: decode_content_def json_string_def field_or_null_def decode_input_def decode_bool_def decode_source_def
      decode_cache_control_def text_block_def use_block_def zero_content_def)

lemma decode_blocks: "json_list decode_content (map block_json bs) = Some (map block_of bs)"
  by (induction bs) (simp_all add: decode_block)

lemma split_blocks:
  "splitContent marshal (map block_of bs) =
     (block_text bs, map (\<lambda>(cid, name, inp). call_of marshal (use_block cid name inp)) (block_uses bs))"
proof -
  have "concat (map wc_Text (filter (\<lambda>c. wc_Type c = ''text'') (map block_of bs))) = block_text bs"
    by (induction bs rule: list.induct)
      (auto simp: block_text_def text_block_def use_block_def zero_content_def split: sum.split)
  moreover have "map (call_of marshal) (filter (\<lambda>c. wc_Type c = ''tool_use'') (map block_of bs)) =
      map (\<lambda>(cid, name, inp). call_of marshal (use_block cid name inp)) (block_uses bs)"
    by (induction bs rule: list.induct)
      (auto simp: block_uses_def text_block_def use_block_def zero_content_def split: sum.split)
  ultimately show ?thesis by (simp add: splitContent_eq)
qed

lemma response_content:
  assumes "json_field ''content'' o' = Some (JArr (map block_json bs))" "decode_response o' = Some wr"
  shows "wresp_Content wr = map block_of bs"
  using assms by (auto simp: decode_response_def field_or_null_def decode_blocks split: option.splits)

text \<open>The block of a call in the next request: \<^verbatim>\<open>omitempty\<close> drops an input without any key.\<close>

definition sent_use :: "string \<times> string \<times> (string \<times> json) list \<Rightarrow> json" where
  "sent_use c = (case c of (cid, name, inp) \<Rightarrow>
     if inp = [] then JObj [(''type'', JStr ''tool_use''), (''id'', JStr cid), (''name'', JStr name)]
     else block_json (Inr (cid, name, inp)))"

lemma sent_call:
  assumes "cid \<noteq> []" "name \<noteq> []" "reads_back unmarshal marshal (JObj inp)"
  shows "same_json (marshal_content (tool_use unmarshal (call_of marshal (use_block cid name inp)))) (sent_use (cid, name, inp))"
proof -
  from assms(3) obtain v where codec: "unmarshal (marshal (JObj inp)) = Some v" "same_json v (JObj inp)"
    by (auto simp: reads_back_def split: option.splits)
  from codec(2) obtain inp' where v: "v = JObj inp'" "inp' = [] \<longleftrightarrow> inp = []" by (rule same_object)
  have call: "tool_use unmarshal (call_of marshal (use_block cid name inp)) = use_block cid name inp'"
    using codec(1) by (simp add: tool_use_def call_of_def use_block_def input_json_def zero_content_def v(1))
  have "canon (JObj inp') = canon (JObj inp)" using codec(2) by (simp add: same_json_def v(1))
  then show ?thesis
    using assms(1,2) v(2) unfolding call
    by (cases inp')
      (simp_all add: marshal_content_def use_block_def zero_content_def omitempty_def sent_use_def same_json_def)
qed

lemma turns_at:
  "\<not> is_tool m \<Longrightarrow> \<not> is_system m \<Longrightarrow> turns u (ms @ m # ms') = turns u ms @ message_turn u m # turns u ms'"
proof (induction u ms rule: turns.induct)
  case (2 u k ms)
  show ?case
  proof (cases "is_tool k")
    case True
    have "takeWhile is_tool (ms @ m # ms') = takeWhile is_tool ms"
      "dropWhile is_tool (ms @ m # ms') = dropWhile is_tool ms @ m # ms'"
      using 2(4) by (induction ms) simp_all
    with True 2 show ?thesis by simp
  qed (use 2 in simp)
qed simp

text \<open>
  C28. An answer with tool calls goes back to the API as the API sent it. When the content of an answer
  is any list of text and tool-use blocks with at least one call, the message the caller gets for
  it, placed anywhere in the next request (one without a stored history, whose end would carry a
  cache marker besides), is encoded there as one assistant message: one text
  block with all the text, if there is any, and then one block per call, in order, with the same
  id, name and input as JSON values. There is one loss: the \<^verbatim>\<open>input\<close> key of a call whose input is the
  empty object is not sent. Ids and names are not empty, and the JSON codec reads back the inputs
  it writes.
\<close>

theorem tool_calls_roundtrip:
  assumes answer: "json_field ''content'' o' = Some (JArr (map block_json bs))" "decode_response o' = Some wr"
    and calls: "block_uses bs \<noteq> []"
    and named: "\<forall>(cid, name, inp)\<in>set (block_uses bs). cid \<noteq> [] \<and> name \<noteq> [] \<and> reads_back unmarshal marshal (JObj inp)"
    and req: "req_Messages req = ms @ ch_Message (hd (resp_Choices (fromWireResponse marshal now wr))) # ms'"
  shows "\<exists>fields content. marshal_request (toWireRequest unmarshal req 0) = JObj fields \<and>
    json_field ''messages'' fields = Some (JArr (map marshal_wire_message (turns unmarshal ms) @
      JObj [(''role'', JStr ''assistant''), (''content'', JArr content)] # map marshal_wire_message (turns unmarshal ms'))) \<and>
    list_all2 same_json content
      ((if block_text bs = [] then [] else [block_json (Inl (block_text bs))]) @ map sent_use (block_uses bs))"
proof -
  let ?call = "\<lambda>(cid, name, inp). call_of marshal (use_block cid name inp)"
  let ?m = "(text_message ''assistant'' (block_text bs))\<lparr>msg_ToolCalls := map ?call (block_uses bs)\<rparr>"
  have m: "ch_Message (hd (resp_Choices (fromWireResponse marshal now wr))) = ?m"
    by (simp add: fromWireResponse_def response_content [OF answer] split_blocks)
  have role: "\<not> is_tool ?m" "\<not> is_system ?m" by (simp_all add: is_tool_def is_system_def text_message_def)
  define blocks where "blocks = (if block_text bs \<noteq> [] then [text_block (block_text bs)] else []) @
    map (tool_use unmarshal) (map ?call (block_uses bs))"
  have turn: "message_turn unmarshal ?m = \<lparr>wm_Role = ''assistant'', wm_Content = blocks\<rparr>"
    using calls by (simp add: message_turn_def text_message_def blocks_def)
  have "wr_Messages (toWireRequest unmarshal req 0) = turns unmarshal ms @ message_turn unmarshal ?m # turns unmarshal ms'"
    using turns_at [OF role] req m by (simp add: toWireRequest_eq markHistoryCacheBreakpoint_def Let_def)
  then have sent: "\<exists>fields. marshal_request (toWireRequest unmarshal req 0) = JObj fields \<and>
    json_field ''messages'' fields = Some (JArr (map marshal_wire_message (turns unmarshal ms) @
      JObj [(''role'', JStr ''assistant''), (''content'', JArr (map marshal_content blocks))] # map marshal_wire_message (turns unmarshal ms')))"
    by (simp add: marshal_request_def turn marshal_wire_message_def split: option.split)
  have call: "same_json (marshal_content (tool_use unmarshal (?call c))) (sent_use c)" if "c \<in> set (block_uses bs)" for c
  proof (cases c)
    case (fields cid name inp)
    with named that have "cid \<noteq> []" "name \<noteq> []" "reads_back unmarshal marshal (JObj inp)" by auto
    with fields show ?thesis by (simp add: sent_call)
  qed
  have "list_all2 same_json (map marshal_content (map (tool_use unmarshal) (map ?call (block_uses bs)))) (map sent_use (block_uses bs))"
    using call by (auto simp: list_all2_map1 list_all2_map2 list.rel_refl_strong)
  moreover have "marshal_content (text_block t) = block_json (Inl t)" if "t \<noteq> []" for t
    using that by (simp add: marshal_content_def text_block_def zero_content_def omitempty_def)
  ultimately have "list_all2 same_json (map marshal_content blocks)
      ((if block_text bs = [] then [] else [block_json (Inl (block_text bs))]) @ map sent_use (block_uses bs))"
    by (simp add: blocks_def)
  with sent show ?thesis by blast
qed

text \<open>
  A text, a call whose input comes back with its keys sorted, and a call without arguments, which
  goes back without the \<^verbatim>\<open>input\<close> it came with.
\<close>

definition sample_codec :: "string \<Rightarrow> json option" where
  "sample_codec s = (if s = ''ab'' then Some (JObj [(''a'', JInt 2), (''b'', JInt 1)])
     else if s = ''ba'' then Some (JObj [(''b'', JInt 1), (''a'', JInt 2)])
     else if s = ''{}'' then Some (JObj []) else None)"

definition sample_encode :: "json \<Rightarrow> string" where
  "sample_encode v = (if v = JObj [] then ''{}'' else ''ab'')"

definition sample_blocks :: "(string + string \<times> string \<times> (string \<times> json) list) list" where
  "sample_blocks = [Inl ''hm'', Inr (''c1'', ''f'', [(''b'', JInt 1), (''a'', JInt 2)]), Inr (''c2'', ''g'', [])]"

lemma sample_same: "same_json (JObj [(''a'', JInt 2), (''b'', JInt 1)]) (JObj [(''b'', JInt 1), (''a'', JInt 2)])"
  unfolding same_json_def by code_simp

theorem tool_calls_roundtrip_witness:
  "\<exists>wr m fields content. decode_response [(''content'', JArr (map block_json sample_blocks))] = Some wr \<and>
    m = ch_Message (hd (resp_Choices (fromWireResponse sample_encode 0 wr))) \<and>
    marshal_request (toWireRequest sample_codec (zero_request\<lparr>req_Messages := [text_message ''user'' ''q'', m]\<rparr>) 0) = JObj fields \<and>
    json_field ''messages'' fields = Some (JArr (map marshal_wire_message [\<lparr>wm_Role = ''user'', wm_Content = [text_block ''q'']\<rparr>] @
      [JObj [(''role'', JStr ''assistant''), (''content'', JArr content)]])) \<and>
    list_all2 same_json content [block_json (Inl ''hm''), block_json (Inr (''c1'', ''f'', [(''b'', JInt 1), (''a'', JInt 2)])),
      JObj [(''type'', JStr ''tool_use''), (''id'', JStr ''c2''), (''name'', JStr ''g'')]]"
proof -
  have field: "json_field ''content'' [(''content'', JArr (map block_json sample_blocks))] = Some (JArr (map block_json sample_blocks))" by simp
  obtain wr where wr: "decode_response [(''content'', JArr (map block_json sample_blocks))] = Some wr"
    by (simp add: decode_response_def field_or_null_def decode_blocks decode_usage_def json_string_def json_object_def json_int_def)
  have parts: "block_uses sample_blocks = [(''c1'', ''f'', [(''b'', JInt 1), (''a'', JInt 2)]), (''c2'', ''g'', [])]" "block_text sample_blocks = ''hm''"
    by (simp_all add: block_uses_def block_text_def sample_blocks_def)
  have user: "turns sample_codec [text_message ''user'' ''q''] = [\<lparr>wm_Role = ''user'', wm_Content = [text_block ''q'']\<rparr>]"
    by (simp add: is_tool_def is_system_def message_turn_def toWireContentBlocks_def text_message_def)
  have codec: "\<forall>(cid, name, inp)\<in>set (block_uses sample_blocks). cid \<noteq> [] \<and> name \<noteq> [] \<and> reads_back sample_codec sample_encode (JObj inp)"
    using sample_same by (simp add: parts reads_back_def sample_codec_def sample_encode_def)
  let ?m = "ch_Message (hd (resp_Choices (fromWireResponse sample_encode 0 wr)))"
  have calls: "block_uses sample_blocks \<noteq> []" by (simp add: parts)
  have req: "req_Messages (zero_request\<lparr>req_Messages := [text_message ''user'' ''q'', ?m]\<rparr>) = [text_message ''user'' ''q''] @ ?m # []" by simp
  obtain fields content where
    "marshal_request (toWireRequest sample_codec (zero_request\<lparr>req_Messages := [text_message ''user'' ''q'', ?m]\<rparr>) 0) = JObj fields"
    "json_field ''messages'' fields = Some (JArr (map marshal_wire_message (turns sample_codec [text_message ''user'' ''q'']) @
      JObj [(''role'', JStr ''assistant''), (''content'', JArr content)] # map marshal_wire_message (turns sample_codec [])))"
    "list_all2 same_json content ((if block_text sample_blocks = [] then [] else [block_json (Inl (block_text sample_blocks))]) @
      map sent_use (block_uses sample_blocks))"
    using tool_calls_roundtrip [where marshal = sample_encode and now = 0, OF field wr calls codec req] by blast
  then show ?thesis
    using wr unfolding user by (intro exI [of _ wr] exI [of _ ?m] exI [of _ fields] exI [of _ content])
      (simp add: parts sent_use_def del: block_json.simps)
qed

section \<open>Tool results in sessions\<close>

text \<open>
  A turn in which the caller answers tool calls is stored without the answers: a session keeps an
  empty message of the user in place of the tool results, and on the wire the stored turn has an
  empty text where the API expects the results of the calls before it.
\<close>

theorem session_drops_tool_results:
  assumes inject: "Session_inject now key req s = (req', n, s')"
    and tools: "\<And>m. m \<in> set (req_Messages req) \<Longrightarrow> is_tool m"
    and answer: "\<not> req_Stream req" "rec_status (out_recorded out) = 200" "rec_body (out_recorded out) = JsonBody resp"
      "resp_Choices resp = c # cs" "msg_Role (ch_Message c) = ''assistant''"
  shows "Session_persist now' key req' n out s' = Session_Append now' key (text_message ''user'' []) (ch_Message c) s' \<and>
    turns unmarshal [text_message ''user'' [], ch_Message c] =
      [\<lparr>wm_Role = ''user'', wm_Content = [text_block []]\<rparr>, message_turn unmarshal (ch_Message c)]"
proof -
  have new: "drop n (req_Messages req') = req_Messages req" "req_Stream req' = req_Stream req"
    using inject by (auto simp: Session_inject_def Let_def split: prod.splits)
  have "find (\<lambda>m. msg_Role m = ''user'') (rev (req_Messages req)) = None"
    using tools by (auto simp: find_None_iff is_tool_def)
  then have user: "lastUserMessage (req_Messages req') n = text_message ''user'' []"
    by (simp add: lastUserMessage_def new)
  have roles: "\<not> is_tool (ch_Message c)" "\<not> is_system (ch_Message c)" "\<not> is_tool (text_message ''user'' [])" "\<not> is_system (text_message ''user'' [])"
    using answer(5) by (simp_all add: is_tool_def is_system_def text_message_def)
  show ?thesis
    using answer by (simp add: Session_persist_def new user Let_def roles)
      (simp add: message_turn_def toWireContentBlocks_def text_message_def)
qed

section \<open>The contract of a stream\<close>

text \<open>Every index in the order has a call, so the last chunk can always be built.\<close>

definition acc_ok :: "streamToolCallAccumulator \<Rightarrow> bool" where
  "acc_ok a \<longleftrightarrow> set (acc_order a) \<subseteq> dom (acc_byIndex a)"

lemma acc_ok_simps [simp]:
  "acc_ok newStreamToolCallAccumulator"
  "acc_ok a \<Longrightarrow> acc_ok (acc_start i cid name a)"
  "acc_ok a \<Longrightarrow> acc_ok (acc_appendArgs i pj a)"
  by (auto simp: acc_ok_def newStreamToolCallAccumulator_def acc_start_def acc_appendArgs_def split: option.split)

lemma those_defined: "set xs \<subseteq> dom f \<Longrightarrow> \<exists>ys. those (map f xs) = Some ys"
  by (induction xs) (auto simp: dom_def)

lemma action_ok:
  assumes "acc_ok (as_toolCalls s)"
  shows "case stream_action ev s of StreamPanic \<Rightarrow> False | StreamDone \<Rightarrow> True
    | StreamNext s' \<Rightarrow> acc_ok (as_toolCalls s') | StreamSend c s' \<Rightarrow> acc_ok (as_toolCalls s')"
proof -
  from assms obtain tcs where "acc_finalize (as_toolCalls s) = Some tcs"
    using those_defined [of "acc_order (as_toolCalls s)" "acc_byIndex (as_toolCalls s)"] by (auto simp: acc_ok_def acc_finalize_def)
  with assms show ?thesis by (cases ev) (simp_all add: stream_action_def Let_def)
qed

lemma lines_chunked:
  "acc_ok (as_toolCalls s) \<Longrightarrow> \<exists>chunks err. \<forall>fn w. stream_lines unmarshal fn scanErr lines et s (w :: 'w) = Some (deliver_end fn chunks err w)"
proof (induction lines arbitrary: et s)
  case Nil
  show ?case by (intro exI [of _ "[]"] exI [of _ scanErr]) simp
next
  case (Cons line lines)
  show ?case
  proof (cases "HasPrefix line ''event: '' \<or> \<not> HasPrefix line ''data: ''")
    case True
    with Cons show ?thesis by (cases "HasPrefix line ''event: ''") simp_all
  next
    case False
    let ?ev = "decode_stream_event unmarshal et (drop 6 line)"
    show ?thesis
    proof (cases "stream_action ?ev s")
      case StreamDone
      with False show ?thesis by (intro exI [of _ "[]"] exI [of _ None]) simp
    next
      case (StreamNext s')
      with False Cons.IH [of s' et] action_ok [OF Cons.prems, of ?ev] show ?thesis by simp
    next
      case (StreamSend c s')
      with Cons.IH [of s' et] action_ok [OF Cons.prems, of ?ev]
      obtain chunks err where "\<And>fn (w :: 'w). stream_lines unmarshal fn scanErr lines et s' w = Some (deliver_end fn chunks err w)" by auto
      with False StreamSend show ?thesis
        by (intro exI [of _ "c # chunks"] exI [of _ err]) (simp split: prod.split option.split)
    next
      case StreamPanic
      with action_ok [OF Cons.prems, of ?ev] show ?thesis by simp
    qed
  qed
qed

lemma answered_chunked:
  "\<exists>chunks err. \<forall>fn w. Anthropic_Stream unmarshal marshal (\<lambda>_ w. (Answered a, w)) ctx req fn w = Some (deliver_end fn chunks err w)"
proof (cases "ha_StatusCode a = 200")
  case True
  then show ?thesis by (cases "scan_lines (ha_Body a) (ha_readErr a)") (simp add: Anthropic_Stream_def lines_chunked)
next
  case False
  then show ?thesis by (intro exI [of _ "[]"]) (simp add: Anthropic_Stream_def)
qed

interpretation anthropic: provider_stream "\<lambda>fn w. the (Anthropic_Stream unmarshal marshal (\<lambda>_ w. (Answered a, w)) ctx req fn w)" for unmarshal marshal a ctx req
  by unfold_locales (metis answered_chunked option.sel)

text \<open>
  C24. The adapter keeps the contract the executor relies on, whatever bytes the API sends: a stream
  never panics, and it is a list of chunks with an end, which the callback reads up to its first
  error and cannot change.
\<close>

theorem anthropic_stream_contract:
  "\<exists>chunks err. \<forall>fn w. Anthropic_Stream unmarshal marshal (\<lambda>_ w. (Answered a, w)) ctx req fn w = Some (deliver_end fn chunks err w)"
  by (rule answered_chunked)

section \<open>Streaming and waiting give the same answer\<close>

text \<open>What the decoded events alone do.\<close>

fun run_stream_events :: "(StreamChunk \<Rightarrow> 'w \<Rightarrow> goerror option \<times> 'w) \<Rightarrow> goerror option \<Rightarrow> stream_event list \<Rightarrow> anthropic_state \<Rightarrow> 'w \<Rightarrow>
    (goerror option \<times> 'w) option" where
  "run_stream_events fn scanErr [] s w = Some (scanErr, w)"
| "run_stream_events fn scanErr (ev # evs) s w = (case stream_action ev s of
      StreamDone \<Rightarrow> Some (None, w)
    | StreamPanic \<Rightarrow> None
    | StreamNext s \<Rightarrow> run_stream_events fn scanErr evs s w
    | StreamSend chunk s \<Rightarrow> (case fn chunk w of
        (Some err, w) \<Rightarrow> Some (Some err, w)
      | (None, w) \<Rightarrow> run_stream_events fn scanErr evs s w))"

text \<open>The lines of an event on the wire, and the body with the lines of all of them.\<close>

definition event_lines :: "string \<times> string \<Rightarrow> string list" where
  "event_lines e = [''event: '' @ fst e, ''data: '' @ snd e, []]"

definition sse_body :: "(string \<times> string) list \<Rightarrow> string" where
  "sse_body es = concat (map (\<lambda>l. l @ [CHR 0x0A]) (concat (map event_lines es)))"

definition line_ok :: "string \<Rightarrow> bool" where
  "line_ok l \<longleftrightarrow> CHR 0x0A \<notin> set l \<and> CHR 0x0D \<notin> set l \<and> length l < 65000"

lemma lines_events:
  "stream_lines unmarshal fn scanErr (concat (map event_lines es)) et s w =
     run_stream_events fn scanErr (map (\<lambda>(e, d). decode_stream_event unmarshal e d) es) s w"
proof (induction es arbitrary: et s w)
  case (Cons e es)
  then show ?case
    by (cases e) (simp add: event_lines_def HasPrefix_def split: stream_action.split prod.split option.split)
qed simp

lemma split_lines: "(\<And>l. l \<in> set ls \<Longrightarrow> sep \<notin> set l) \<Longrightarrow> split_at sep (concat (map (\<lambda>l. l @ [sep]) ls)) = ls @ [[]]"
  by (induction ls) (simp_all add: split_at_append_sep)

lemma scan_sse:
  assumes "\<And>e d. (e, d) \<in> set es \<Longrightarrow> line_ok e \<and> line_ok d"
  shows "scan_lines (sse_body es) readErr = (concat (map event_lines es), readErr)"
proof -
  let ?ls = "concat (map event_lines es)"
  have ok: "CHR 0x0A \<notin> set l \<and> CHR 0x0D \<notin> set l \<and> length l < 65536" if l: "l \<in> set ?ls" for l
  proof -
    from l obtain e d where ed: "(e, d) \<in> set es" "l \<in> set (event_lines (e, d))" by auto
    with assms [OF ed(1)] show ?thesis by (auto simp: event_lines_def line_ok_def)
  qed
  have split: "split_at (CHR 0x0A) (sse_body es) = ?ls @ [[]]"
    unfolding sse_body_def using ok by (intro split_lines) blast
  have fit: "takeWhile (\<lambda>l. length l < 65536) ?ls = ?ls" using ok by (simp only: takeWhile_eq_all_conv) blast
  have "map (\<lambda>l. if l \<noteq> [] \<and> last l = CHR 0x0D then butlast l else l) ?ls = ?ls"
    by (rule map_idI) (use ok in \<open>metis last_in_set\<close>)
  then show ?thesis by (simp add: scan_lines_def split fit Let_def del: map_concat)
qed

text \<open>
  The events with which the API streams an answer. The message starts with the usage so far, of
  which the output is not yet counted. Then come the blocks in order, each with the deltas of its
  content, a delta being its type and its two texts; deltas of types the adapter does not know, as
  those of thoughts and citations, may be among them. The message ends with one or more changes to
  the message as a whole, the last of which has the reason it stopped and the final count of
  output tokens.
\<close>

type_synonym delta = "string \<times> string \<times> string"

definition delta_texts :: "delta list \<Rightarrow> string list" where
  "delta_texts ds = map (fst \<circ> snd) (filter (\<lambda>d. fst d = ''text_delta'') ds)"

definition delta_args :: "delta list \<Rightarrow> string" where
  "delta_args ds = concat (map (snd \<circ> snd) (filter (\<lambda>d. fst d = ''input_json_delta'') ds))"

abbreviation delta_event :: "int \<Rightarrow> delta \<Rightarrow> stream_event" where
  "delta_event i d \<equiv> ContentBlockDelta i (fst d) (fst (snd d)) (snd (snd d))"

definition block_events :: "int \<Rightarrow> wireContent \<times> delta list \<Rightarrow> stream_event list" where
  "block_events i b = ContentBlockStart i (wc_Type (fst b)) (wc_ID (fst b)) (wc_Name (fst b)) # map (delta_event i) (snd b)"

fun blocks_events :: "int \<Rightarrow> (wireContent \<times> delta list) list \<Rightarrow> stream_event list" where
  "blocks_events i [] = []"
| "blocks_events i (b # bs) = block_events i b @ blocks_events (i + 1) bs"

definition message_changes :: "wireResponse \<Rightarrow> (string \<times> int) list \<Rightarrow> (string \<times> int) list" where
  "message_changes wr ds = ds @ [(wresp_StopReason wr, wu_OutputTokens (wresp_Usage wr))]"

definition response_events :: "wireResponse \<Rightarrow> int \<Rightarrow> (wireContent \<times> delta list) list \<Rightarrow> (string \<times> int) list \<Rightarrow> stream_event list" where
  "response_events wr out bs ds =
     MessageStart (wresp_ID wr) (wresp_Model wr) ((wresp_Usage wr)\<lparr>wu_OutputTokens := out\<rparr>) # blocks_events 0 bs @
     map (\<lambda>d. MessageDelta (fst d) (snd d)) (message_changes wr ds) @ [MessageStop]"

text \<open>
  The deltas of a block give its content: those of a text concatenate to it, and those of a call
  to a JSON text that reads as its input, in whatever spelling; a call without arguments may have
  none. No other block has text.
\<close>

definition reads_as :: "(string \<Rightarrow> json option) \<Rightarrow> string \<Rightarrow> json \<Rightarrow> bool" where
  "reads_as unmarshal t v = (case if t = [] then Some (JObj []) else unmarshal t of None \<Rightarrow> False | Some v' \<Rightarrow> same_json v' v)"

definition block_ok :: "(string \<Rightarrow> json option) \<Rightarrow> wireContent \<times> delta list \<Rightarrow> bool" where
  "block_ok unmarshal b \<longleftrightarrow>
     concat (delta_texts (snd b)) = (if wc_Type (fst b) = ''text'' then wc_Text (fst b) else []) \<and>
     (if wc_Type (fst b) = ''tool_use''
      then (case wc_Input (fst b) of None \<Rightarrow> False | Some inp \<Rightarrow> reads_as unmarshal (delta_args (snd b)) (JObj inp)) else True)"

text \<open>
  How an answer is streamed: lines the scanner can hold, whose events are those of the answer, with
  pings and any other event the adapter does not know in between.
\<close>

definition streams :: "(string \<Rightarrow> json option) \<Rightarrow> wireResponse \<Rightarrow> (wireContent \<times> delta list) list \<Rightarrow> (string \<times> int) list \<Rightarrow>
    (string \<times> string) list \<Rightarrow> bool" where
  "streams unmarshal wr bs ds es \<longleftrightarrow> (\<forall>(e, d)\<in>set es. line_ok e \<and> line_ok d) \<and>
     (\<exists>out. filter (\<lambda>ev. ev \<noteq> Ignored) (map (\<lambda>(e, d). decode_stream_event unmarshal e d) es) = response_events wr out bs ds) \<and>
     map fst bs = wresp_Content wr \<and> (\<forall>b\<in>set bs. block_ok unmarshal b)"

abbreviation keep_chunk :: "StreamChunk \<Rightarrow> StreamChunk list \<Rightarrow> goerror option \<times> StreamChunk list" where
  "keep_chunk c w \<equiv> (None, w @ [c])"

lemma run_ignored:
  "run_stream_events fn err (filter (\<lambda>ev. ev \<noteq> Ignored) evs) s w = run_stream_events fn err evs s w"
proof (induction evs arbitrary: s w)
  case (Cons ev evs)
  then show ?case
    by (cases "ev = Ignored") (simp_all add: stream_action_def [of Ignored] split: stream_action.split prod.split option.split)
qed simp

definition text_chunk :: "anthropic_state \<Rightarrow> string \<Rightarrow> StreamChunk" where
  "text_chunk s t = \<lparr>chunk_ID = as_msgID s, chunk_Model = as_model s, chunk_Delta = text_message ''assistant'' t,
     chunk_FinishReason = [], chunk_Usage = None\<rparr>"

lemma appendArgs_Nil [simp]: "acc_appendArgs i [] a = a"
  by (cases a) (simp add: acc_appendArgs_def fun_upd_idem split: option.split)

lemma appendArgs_append: "acc_appendArgs i (x @ y) a = acc_appendArgs i y (acc_appendArgs i x a)"
  by (simp add: acc_appendArgs_def split: option.split)

lemma run_deltas:
  "run_stream_events keep_chunk err (map (delta_event i) ds @ evs) s w =
     run_stream_events keep_chunk err evs (s\<lparr>as_toolCalls := acc_appendArgs i (delta_args ds) (as_toolCalls s)\<rparr>)
       (w @ map (text_chunk s) (delta_texts ds))"
proof (induction ds arbitrary: s w)
  case (Cons d ds)
  have same: "text_chunk (s\<lparr>as_toolCalls := a\<rparr>) = text_chunk s" for a by (simp add: fun_eq_iff text_chunk_def)
  show ?case
    using Cons by (simp add: stream_action_def delta_args_def delta_texts_def text_chunk_def [of s "fst (snd d)"] same appendArgs_append)
qed (simp add: delta_args_def delta_texts_def)

text \<open>The calls of a streamed answer, with the arguments as they were spelled.\<close>

definition stream_call :: "wireContent \<times> delta list \<Rightarrow> ToolCall" where
  "stream_call b = \<lparr>tc_ID = wc_ID (fst b), tc_Type = ''function'',
     tc_Function = \<lparr>tf_Name = wc_Name (fst b), tf_Arguments = delta_args (snd b)\<rparr>\<rparr>"

definition stream_calls :: "(wireContent \<times> delta list) list \<Rightarrow> ToolCall list" where
  "stream_calls bs = map stream_call (filter (\<lambda>b. wc_Type (fst b) = ''tool_use'') bs)"

definition stream_texts :: "(wireContent \<times> delta list) list \<Rightarrow> string list" where
  "stream_texts bs = concat (map (delta_texts \<circ> snd) bs)"

lemma those_snoc: "those (xs @ [Some x]) = map_option (\<lambda>ys. ys @ [x]) (those xs)"
  by (induction xs) (auto simp: option.map_comp o_def split: option.splits)

text \<open>The accumulator before block \<open>i\<close>: only indices below have a call.\<close>

definition acc_below :: "int \<Rightarrow> streamToolCallAccumulator \<Rightarrow> bool" where
  "acc_below i a \<longleftrightarrow> set (acc_order a) \<subseteq> {..<i} \<and> dom (acc_byIndex a) \<subseteq> {..<i}"

definition acc_block :: "int \<Rightarrow> wireContent \<times> delta list \<Rightarrow> streamToolCallAccumulator \<Rightarrow> streamToolCallAccumulator" where
  "acc_block i b a = acc_appendArgs i (delta_args (snd b))
     (if wc_Type (fst b) = ''tool_use'' then acc_start i (wc_ID (fst b)) (wc_Name (fst b)) a else a)"

lemma acc_block_calls:
  assumes "acc_below i a" "acc_finalize a = Some cs"
  shows "acc_below (i + 1) (acc_block i b a)" "acc_finalize (acc_block i b a) = Some (cs @ stream_calls [b])"
proof -
  have fresh: "acc_byIndex a i = None" "i \<notin> set (acc_order a)" using assms(1) by (auto simp: acc_below_def)
  have block: "acc_block i b a = (if wc_Type (fst b) = ''tool_use''
      then \<lparr>acc_byIndex = (acc_byIndex a)(i \<mapsto> stream_call b), acc_order = acc_order a @ [i]\<rparr> else a)"
    using fresh by (simp add: acc_block_def acc_appendArgs_def acc_start_def stream_call_def)
  show "acc_below (i + 1) (acc_block i b a)"
    using assms(1) by (fastforce simp: block acc_below_def split: if_splits)
  have "map ((acc_byIndex a)(i \<mapsto> stream_call b)) (acc_order a @ [i]) = map (acc_byIndex a) (acc_order a) @ [Some (stream_call b)]"
    using fresh(2) by (auto simp: map_eq_conv)
  then show "acc_finalize (acc_block i b a) = Some (cs @ stream_calls [b])"
    using assms(2) by (simp add: block acc_finalize_def stream_calls_def those_snoc del: map_append)
qed

lemma blocks_run:
  assumes "acc_below i (as_toolCalls s)" "acc_finalize (as_toolCalls s) = Some cs"
  shows "\<exists>a. run_stream_events keep_chunk err (blocks_events i bs @ evs) s w =
      run_stream_events keep_chunk err evs (s\<lparr>as_toolCalls := a\<rparr>) (w @ map (text_chunk s) (stream_texts bs)) \<and>
    acc_finalize a = Some (cs @ stream_calls bs)"
  using assms
proof (induction bs arbitrary: s i cs w)
  case Nil
  then show ?case by (intro exI [of _ "as_toolCalls s"]) (simp add: stream_texts_def stream_calls_def)
next
  case (Cons b bs)
  let ?a = "acc_block i b (as_toolCalls s)"
  have same: "text_chunk (s\<lparr>as_toolCalls := a\<rparr>) = text_chunk s" for a by (simp add: fun_eq_iff text_chunk_def)
  have block: "run_stream_events keep_chunk err (block_events i b @ evs') s w =
      run_stream_events keep_chunk err evs' (s\<lparr>as_toolCalls := ?a\<rparr>) (w @ map (text_chunk s) (delta_texts (snd b)))" for evs'
    by (simp add: block_events_def stream_action_def run_deltas acc_block_def same)
  have parts: "stream_texts (b # bs) = delta_texts (snd b) @ stream_texts bs" "stream_calls (b # bs) = stream_calls [b] @ stream_calls bs"
    by (simp_all add: stream_texts_def stream_calls_def)
  from Cons.IH [of "i + 1" "s\<lparr>as_toolCalls := ?a\<rparr>" "cs @ stream_calls [b]" "w @ map (text_chunk s) (delta_texts (snd b))"]
    acc_block_calls [OF Cons.prems, of b]
  show ?case by (auto simp: block same parts)
qed

text \<open>The chunks of a streamed answer: one per fragment of text, and one per change of the whole message, with the rest.\<close>

definition answer_chunk :: "wireResponse \<Rightarrow> string \<Rightarrow> StreamChunk" where
  "answer_chunk wr t = \<lparr>chunk_ID = wresp_ID wr, chunk_Model = wresp_Model wr, chunk_Delta = text_message ''assistant'' t,
     chunk_FinishReason = [], chunk_Usage = None\<rparr>"

definition finish_chunk :: "wireResponse \<Rightarrow> ToolCall list \<Rightarrow> string \<times> int \<Rightarrow> StreamChunk" where
  "finish_chunk wr tcs d = \<lparr>chunk_ID = wresp_ID wr, chunk_Model = wresp_Model wr, chunk_Delta = (text_message [] [])\<lparr>msg_ToolCalls := tcs\<rparr>,
     chunk_FinishReason = normalizeStopReason (fst d), chunk_Usage = Some (usageFromWire ((wresp_Usage wr)\<lparr>wu_OutputTokens := snd d\<rparr>))\<rparr>"

definition started :: "wireResponse \<Rightarrow> streamToolCallAccumulator \<Rightarrow> anthropic_state" where
  "started wr a = \<lparr>as_msgID = wresp_ID wr, as_model = wresp_Model wr, as_inputTok = wu_InputTokens (wresp_Usage wr),
     as_cacheReadTok = wu_CacheReadInputTokens (wresp_Usage wr), as_cacheCreationTok = wu_CacheCreationInputTokens (wresp_Usage wr),
     as_toolCalls = a\<rparr>"

lemma changes_run:
  assumes "acc_finalize a = Some tcs"
  shows "run_stream_events keep_chunk err (map (\<lambda>d. MessageDelta (fst d) (snd d)) ds @ evs) (started wr a) w =
    run_stream_events keep_chunk err evs (started wr a) (w @ map (finish_chunk wr tcs) ds)"
proof (induction ds arbitrary: w)
  case (Cons d ds)
  have "acc_order a = [] \<Longrightarrow> tcs = []" using assms by (simp add: acc_finalize_def)
  then have "stream_action (MessageDelta (fst d) (snd d)) (started wr a) = StreamSend (finish_chunk wr tcs d) (started wr a)"
    using assms by (simp add: stream_action_def started_def finish_chunk_def usageFromWire_def Let_def add_ac)
  with Cons show ?case by simp
qed simp

lemma stream_chunks:
  assumes post: "post (marshal (marshal_request ((toWireRequest unmarshal req (HistoryLenFromContext ctx))\<lparr>wr_Stream := True\<rparr>))) w =
      (Answered \<lparr>ha_StatusCode = 200, ha_Body = sse_body es, ha_readErr = None\<rparr>, w')"
    and st: "streams unmarshal wr bs ds es"
  shows "Anthropic_Stream unmarshal marshal post ctx req keep_chunk w =
    Some (None, w' @ map (answer_chunk wr) (stream_texts bs) @ map (finish_chunk wr (stream_calls bs)) (message_changes wr ds))"
proof -
  let ?new = newStreamToolCallAccumulator
  let ?changes = "map (\<lambda>d. MessageDelta (fst d) (snd d)) (message_changes wr ds)"
  have chunk: "text_chunk (started wr a) = answer_chunk wr" for a by (simp add: fun_eq_iff text_chunk_def answer_chunk_def started_def)
  have fresh: "acc_below 0 ?new" "acc_finalize ?new = Some []"
    by (simp_all add: newStreamToolCallAccumulator_def acc_finalize_def acc_below_def)
  obtain a where a: "run_stream_events keep_chunk None (blocks_events 0 bs @ ?changes @ [MessageStop]) (started wr ?new) w' =
      run_stream_events keep_chunk None (?changes @ [MessageStop]) (started wr a) (w' @ map (answer_chunk wr) (stream_texts bs))"
    "acc_finalize a = Some (stream_calls bs)"
    using blocks_run [of 0 "started wr ?new" "[]" None bs "?changes @ [MessageStop]" w'] fresh by (auto simp: chunk) (auto simp: started_def)
  have scan: "scan_lines (sse_body es) None = (concat (map event_lines es), None)"
    using st by (intro scan_sse) (auto simp: streams_def)
  obtain out where evs: "filter (\<lambda>ev. ev \<noteq> Ignored) (map (\<lambda>(e, d). decode_stream_event unmarshal e d) es) = response_events wr out bs ds"
    using st by (auto simp: streams_def)
  let ?s = "\<lparr>as_msgID = [], as_model = [], as_inputTok = 0, as_cacheReadTok = 0, as_cacheCreationTok = 0, as_toolCalls = ?new\<rparr>"
  have "run_stream_events keep_chunk None (map (\<lambda>(e, d). decode_stream_event unmarshal e d) es) ?s w' =
      run_stream_events keep_chunk None (blocks_events 0 bs @ ?changes @ [MessageStop]) (started wr ?new) w'"
    using run_ignored [of keep_chunk None "map (\<lambda>(e, d). decode_stream_event unmarshal e d) es" ?s w']
    by (simp add: evs response_events_def stream_action_def [of "MessageStart _ _ _"] started_def)
  also have "\<dots> = Some (None, w' @ map (answer_chunk wr) (stream_texts bs) @ map (finish_chunk wr (stream_calls bs)) (message_changes wr ds))"
    by (simp add: a(1) changes_run [OF a(2)] stream_action_def [of MessageStop])
  finally show ?thesis by (simp add: Anthropic_Stream_def post scan lines_events)
qed

text \<open>
  Two calls are the same when their ids, types and names are, and their arguments read as the same JSON
  value, no text at all standing for the empty object.
\<close>

definition same_call :: "(string \<Rightarrow> json option) \<Rightarrow> ToolCall \<Rightarrow> ToolCall \<Rightarrow> bool" where
  "same_call unmarshal c c' \<longleftrightarrow> tc_ID c = tc_ID c' \<and> tc_Type c = tc_Type c' \<and> tf_Name (tc_Function c) = tf_Name (tc_Function c') \<and>
     (case unmarshal (tf_Arguments (tc_Function c')) of None \<Rightarrow> False | Some v \<Rightarrow> reads_as unmarshal (tf_Arguments (tc_Function c)) v)"

definition inputs_read_back :: "(string \<Rightarrow> json option) \<Rightarrow> (json \<Rightarrow> string) \<Rightarrow> wireResponse \<Rightarrow> bool" where
  "inputs_read_back unmarshal marshal wr \<longleftrightarrow>
     (\<forall>c\<in>set (filter (\<lambda>c. wc_Type c = ''tool_use'') (wresp_Content wr)). reads_back unmarshal marshal (input_json (wc_Input c)))"

lemma streamed_split:
  assumes st: "streams unmarshal wr bs ds es"
    and codec: "inputs_read_back unmarshal marshal wr"
  shows "fst (splitContent marshal (wresp_Content wr)) = concat (stream_texts bs)"
    "list_all2 (same_call unmarshal) (stream_calls bs) (snd (splitContent marshal (wresp_Content wr)))"
proof -
  have content: "wresp_Content wr = map fst bs" and ok: "\<And>b. b \<in> set bs \<Longrightarrow> block_ok unmarshal b"
    using st by (auto simp: streams_def)
  have "concat (map wc_Text (filter (\<lambda>c. wc_Type c = ''text'') (map fst bs))) = concat (stream_texts bs)"
    using ok by (induction bs) (auto simp: stream_texts_def block_ok_def)
  then show "fst (splitContent marshal (wresp_Content wr)) = concat (stream_texts bs)" by (simp add: splitContent_eq content)
  have call: "same_call unmarshal (stream_call b) (call_of marshal (fst b))" if b: "b \<in> set bs" "wc_Type (fst b) = ''tool_use''" for b
  proof -
    from ok [OF b(1)] b(2) obtain inp where inp: "wc_Input (fst b) = Some inp" "reads_as unmarshal (delta_args (snd b)) (JObj inp)"
      by (auto simp: block_ok_def split: option.splits)
    have "reads_back unmarshal marshal (input_json (wc_Input (fst b)))" using codec b by (auto simp: content inputs_read_back_def)
    then obtain v where v: "unmarshal (marshal (JObj inp)) = Some v" "same_json v (JObj inp)"
      by (auto simp: inp(1) input_json_def reads_back_def split: option.splits)
    from inp(2) v(2) have "reads_as unmarshal (delta_args (snd b)) v" by (auto simp: reads_as_def same_json_def split: option.splits if_splits)
    with inp(1) v(1) show ?thesis by (simp add: same_call_def stream_call_def call_of_def input_json_def)
  qed
  then show "list_all2 (same_call unmarshal) (stream_calls bs) (snd (splitContent marshal (wresp_Content wr)))"
    by (auto simp: splitContent_eq content stream_calls_def filter_map o_def list_all2_map1 list_all2_map2 intro!: list.rel_refl_strong)
qed

text \<open>
  C10. The two calls of the adapter agree. When the API gives an answer to one and streams the same
  answer to the other, in fragments of any size, with pings and unknown events in between and the
  inputs of tool calls spelled in any way, the chunks carry the text, the finish reason, the usage,
  the id and the model of the answer the other call returns, and the same tool calls up to the
  spelling of their arguments; and both calls end without error and without a panic. The lines of
  the stream are shorter than 65000 bytes, and the JSON codec reads back the inputs it writes.
\<close>

theorem stream_matches_chat:
  assumes chat: "post (marshal (marshal_request (toWireRequest unmarshal req (HistoryLenFromContext ctx)))) v =
      (Answered \<lparr>ha_StatusCode = 200, ha_Body = body, ha_readErr = None\<rparr>, v')"
      "decode_object unmarshal decode_response body = Some wr"
    and stream: "post (marshal (marshal_request ((toWireRequest unmarshal req (HistoryLenFromContext ctx))\<lparr>wr_Stream := True\<rparr>))) w =
      (Answered \<lparr>ha_StatusCode = 200, ha_Body = sse_body es, ha_readErr = None\<rparr>, w')"
      "streams unmarshal wr bs ds es"
    and codec: "inputs_read_back unmarshal marshal wr"
  shows "\<exists>resp ch chunks final.
    Anthropic_Chat unmarshal marshal now post ctx req v = (Inr resp, v') \<and> resp_Choices resp = [ch] \<and>
    Anthropic_Stream unmarshal marshal post ctx req keep_chunk w = Some (None, w' @ chunks @ [final]) \<and>
    concat (map (\<lambda>c. msg_Content (chunk_Delta c)) (chunks @ [final])) = msg_Content (ch_Message ch) \<and>
    list_all2 (same_call unmarshal) (msg_ToolCalls (chunk_Delta final)) (msg_ToolCalls (ch_Message ch)) \<and>
    chunk_FinishReason final = ch_FinishReason ch \<and> chunk_Usage final = Some (resp_Usage resp) \<and>
    (\<forall>c\<in>set (chunks @ [final]). chunk_ID c = resp_ID resp \<and> chunk_Model c = resp_Model resp)"
proof -
  have split: "fst (splitContent marshal (wresp_Content wr)) = concat (stream_texts bs)"
    "list_all2 (same_call unmarshal) (stream_calls bs) (snd (splitContent marshal (wresp_Content wr)))"
    by (rule streamed_split [OF stream(2) codec])+
  define resp where "resp = fromWireResponse marshal now wr"
  define ch where "ch = hd (resp_Choices resp)"
  define chunks where "chunks = map (answer_chunk wr) (stream_texts bs) @ map (finish_chunk wr (stream_calls bs)) ds"
  define final where "final = finish_chunk wr (stream_calls bs) (wresp_StopReason wr, wu_OutputTokens (wresp_Usage wr))"
  have answer: "resp_Choices resp = [ch]" "msg_Content (ch_Message ch) = concat (stream_texts bs)"
    "msg_ToolCalls (ch_Message ch) = snd (splitContent marshal (wresp_Content wr))"
    "ch_FinishReason ch = normalizeStopReason (wresp_StopReason wr)"
    "resp_Usage resp = usageFromWire (wresp_Usage wr)" "resp_ID resp = wresp_ID wr" "resp_Model resp = wresp_Model wr"
    using split(1) by (simp_all add: ch_def resp_def fromWireResponse_def text_message_def case_prod_beta)
  have "Anthropic_Chat unmarshal marshal now post ctx req v = (Inr resp, v')"
    by (simp add: Anthropic_Chat_def chat resp_def)
  moreover have "Anthropic_Stream unmarshal marshal post ctx req keep_chunk w = Some (None, w' @ chunks @ [final])"
    using stream_chunks [of post marshal unmarshal req ctx w es w' wr bs ds, OF stream]
    by (simp add: chunks_def final_def message_changes_def)
  moreover have "concat (map (\<lambda>c. msg_Content (chunk_Delta c)) (chunks @ [final])) = msg_Content (ch_Message ch)"
    by (simp add: answer(2) chunks_def final_def answer_chunk_def finish_chunk_def text_message_def o_def)
  moreover have "list_all2 (same_call unmarshal) (msg_ToolCalls (chunk_Delta final)) (msg_ToolCalls (ch_Message ch))"
    using split(2) by (simp add: answer(3) final_def finish_chunk_def)
  moreover have "chunk_FinishReason final = ch_FinishReason ch" "chunk_Usage final = Some (resp_Usage resp)"
    by (simp_all add: answer final_def finish_chunk_def)
  moreover have "\<forall>c\<in>set (chunks @ [final]). chunk_ID c = resp_ID resp \<and> chunk_Model c = resp_Model resp"
    by (auto simp: answer chunks_def final_def answer_chunk_def finish_chunk_def)
  ultimately show ?thesis using answer(1) by blast
qed

text \<open>
  The text "hi" in two fragments, a ping between them, and a call whose arguments are spelled with
  the keys in an order the codec does not write.
\<close>

definition sample_payload :: "string \<Rightarrow> json option" where
  "sample_payload s =
     (if s = ''R'' then Some (JObj [(''id'', JStr ''m''), (''model'', JStr ''x''), (''stop_reason'', JStr ''tool_use''),
        (''content'', JArr [block_json (Inl ''hi''), block_json (Inr (''c1'', ''f'', [(''b'', JInt 1), (''a'', JInt 2)]))]),
        (''usage'', JObj [(''input_tokens'', JInt 3), (''output_tokens'', JInt 2)])])
      else if s = ''S'' then Some (JObj [(''message'', JObj [(''id'', JStr ''m''), (''model'', JStr ''x''), (''usage'', JObj [(''input_tokens'', JInt 3), (''output_tokens'', JInt 1)])])])
      else if s = ''B'' then Some (JObj [(''index'', JInt 0), (''content_block'', JObj [(''type'', JStr ''text'')])])
      else if s = ''H'' then Some (JObj [(''index'', JInt 0), (''delta'', JObj [(''type'', JStr ''text_delta''), (''text'', JStr ''h'')])])
      else if s = ''I'' then Some (JObj [(''index'', JInt 0), (''delta'', JObj [(''type'', JStr ''text_delta''), (''text'', JStr ''i'')])])
      else if s = ''C'' then Some (JObj [(''index'', JInt 1), (''content_block'', JObj [(''type'', JStr ''tool_use''), (''id'', JStr ''c1''), (''name'', JStr ''f'')])])
      else if s = ''J'' then Some (JObj [(''index'', JInt 1), (''delta'', JObj [(''type'', JStr ''input_json_delta''), (''partial_json'', JStr ''b'')])])
      else if s = ''K'' then Some (JObj [(''index'', JInt 1), (''delta'', JObj [(''type'', JStr ''input_json_delta''), (''partial_json'', JStr ''a'')])])
      else if s = ''M'' then Some (JObj [(''delta'', JObj [(''stop_reason'', JStr ''tool_use'')]), (''usage'', JObj [(''output_tokens'', JInt 2)])])
      else sample_codec s)"

definition sample_sse :: "(string \<times> string) list" where
  "sample_sse = [(''message_start'', ''S''), (''content_block_start'', ''B''), (''ping'', ''Z''), (''content_block_delta'', ''H''), (''ping'', ''Z''),
     (''content_block_delta'', ''I''), (''content_block_stop'', ''Z''), (''content_block_start'', ''C''), (''content_block_delta'', ''J''),
     (''content_block_delta'', ''K''), (''content_block_stop'', ''Z''), (''message_delta'', ''M''), (''message_stop'', ''Z'')]"

definition sample_wire :: wireResponse where
  "sample_wire = \<lparr>wresp_ID = ''m'', wresp_Type = [], wresp_Role = [],
     wresp_Content = [text_block ''hi'', use_block ''c1'' ''f'' [(''b'', JInt 1), (''a'', JInt 2)]], wresp_Model = ''x'',
     wresp_StopReason = ''tool_use'', wresp_Usage = \<lparr>wu_InputTokens = 3, wu_OutputTokens = 2, wu_CacheReadInputTokens = 0, wu_CacheCreationInputTokens = 0\<rparr>\<rparr>"

definition sample_deltas :: "(wireContent \<times> delta list) list" where
  "sample_deltas = [(text_block ''hi'', [(''text_delta'', ''h'', []), (''text_delta'', ''i'', [])]),
     (use_block ''c1'' ''f'' [(''b'', JInt 1), (''a'', JInt 2)], [(''input_json_delta'', [], ''b''), (''input_json_delta'', [], ''a'')])]"

lemmas decode_simps = decode_stream_event_def decode_object_def message_start_of_def block_start_of_def block_delta_of_def message_delta_of_def
  decode_usage_def json_string_def json_object_def json_int_def

lemma sample_events:
  "filter (\<lambda>ev. ev \<noteq> Ignored) (map (\<lambda>(e, d). decode_stream_event sample_payload e d) sample_sse) = response_events sample_wire 1 sample_deltas []"
  by (simp add: sample_sse_def sample_payload_def sample_codec_def decode_simps response_events_def block_events_def message_changes_def
      sample_wire_def sample_deltas_def text_block_def use_block_def zero_content_def)

lemma sample_streams: "streams sample_payload sample_wire sample_deltas [] sample_sse"
proof -
  have "\<forall>(e, d)\<in>set sample_sse. line_ok e \<and> line_ok d" by (simp add: sample_sse_def line_ok_def)
  moreover have "map fst sample_deltas = wresp_Content sample_wire" by (simp add: sample_deltas_def sample_wire_def)
  moreover have "\<forall>b\<in>set sample_deltas. block_ok sample_payload b"
    by (simp add: sample_deltas_def block_ok_def delta_texts_def delta_args_def text_block_def use_block_def zero_content_def reads_as_def
        sample_payload_def sample_codec_def)
  ultimately show ?thesis using sample_events by (auto simp: streams_def)
qed

lemma sample_decoded: "decode_object sample_payload decode_response ''R'' = Some sample_wire"
  using decode_blocks [of "[Inl ''hi'', Inr (''c1'', ''f'', [(''b'', JInt 1), (''a'', JInt 2)])]"]
  by (simp add: sample_payload_def decode_object_def decode_response_def field_or_null_def decode_usage_def json_string_def json_object_def
      json_int_def sample_wire_def del: json_list.simps block_json.simps)

text \<open>The API of the sample: it streams when the body it gets asks for it.\<close>

definition sample_marshal :: "json \<Rightarrow> string" where
  "sample_marshal v = (case v of JObj fs \<Rightarrow> (if json_field ''stream'' fs = Some (JBool True) then ''stream'' else ''ab'') | _ \<Rightarrow> ''ab'')"

definition sample_api :: "string \<Rightarrow> 'w \<Rightarrow> post_result \<times> 'w" where
  "sample_api body w = (Answered \<lparr>ha_StatusCode = 200, ha_Body = (if body = ''stream'' then sse_body sample_sse else ''R''), ha_readErr = None\<rparr>, w)"

lemma sample_posts:
  "sample_api (sample_marshal (marshal_request (toWireRequest u zero_request h))) w = (Answered \<lparr>ha_StatusCode = 200, ha_Body = ''R'', ha_readErr = None\<rparr>, w)"
  "sample_api (sample_marshal (marshal_request ((toWireRequest u zero_request h)\<lparr>wr_Stream := True\<rparr>))) w =
     (Answered \<lparr>ha_StatusCode = 200, ha_Body = sse_body sample_sse, ha_readErr = None\<rparr>, w)"
  by (simp_all add: sample_api_def sample_marshal_def marshal_request_def toWireRequest_eq zero_request_def Let_def markHistoryCacheBreakpoint_def
      toWireTools_def toWireToolChoice_def)

lemma sample_reads: "inputs_read_back sample_payload sample_marshal sample_wire"
  using sample_same by (simp add: inputs_read_back_def reads_back_def input_json_def sample_wire_def text_block_def use_block_def zero_content_def
      sample_marshal_def sample_payload_def sample_codec_def)

theorem stream_matches_chat_witness:
  "\<exists>resp ch chunks final. Anthropic_Chat sample_payload sample_marshal 0 sample_api None zero_request ([] :: StreamChunk list) = (Inr resp, []) \<and>
    resp_Choices resp = [ch] \<and>
    Anthropic_Stream sample_payload sample_marshal sample_api None zero_request keep_chunk [] = Some (None, chunks @ [final]) \<and>
    concat (map (\<lambda>c. msg_Content (chunk_Delta c)) (chunks @ [final])) = msg_Content (ch_Message ch) \<and>
    list_all2 (same_call sample_payload) (msg_ToolCalls (chunk_Delta final)) (msg_ToolCalls (ch_Message ch)) \<and>
    chunk_Usage final = Some (resp_Usage resp)"
proof -
  from stream_matches_chat [where post = sample_api and marshal = sample_marshal and now = 0 and ctx = None and req = zero_request
      and v = "[] :: StreamChunk list" and w = "[]" and wr = sample_wire and es = sample_sse,
      OF sample_posts(1) sample_decoded sample_posts(2) sample_streams sample_reads]
  obtain resp ch chunks final where
    "Anthropic_Chat sample_payload sample_marshal 0 sample_api None zero_request ([] :: StreamChunk list) = (Inr resp, [])" "resp_Choices resp = [ch]"
    "Anthropic_Stream sample_payload sample_marshal sample_api None zero_request keep_chunk [] = Some (None, [] @ chunks @ [final])"
    "concat (map (\<lambda>c. msg_Content (chunk_Delta c)) (chunks @ [final])) = msg_Content (ch_Message ch)"
    "list_all2 (same_call sample_payload) (msg_ToolCalls (chunk_Delta final)) (msg_ToolCalls (ch_Message ch))"
    "chunk_Usage final = Some (resp_Usage resp)"
    by blast
  then show ?thesis by (intro exI [of _ resp] exI [of _ ch] exI [of _ chunks] exI [of _ final]) simp
qed

theorem session_drops_tool_results_witness:
  defines "req \<equiv> zero_request\<lparr>req_Messages := [(text_message ''tool'' ''sunny'')\<lparr>msg_ToolCallID := ''c1''\<rparr>]\<rparr>"
    and "resp \<equiv> zero_response\<lparr>resp_Choices := [\<lparr>ch_Index = 0, ch_Message = text_message ''assistant'' ''It is sunny.'', ch_FinishReason = ''stop''\<rparr>]\<rparr>"
  shows "ss_sessions (Session_persist 1 ''k'' req 0 \<lparr>out_lines = [], out_recorded = \<lparr>rec_status = 200, rec_body = JsonBody resp\<rparr>\<rparr>
      (NewMemorySessionStore 0 5)) ''k'' =
    Some \<lparr>se_messages = [text_message ''user'' [], text_message ''assistant'' ''It is sunny.''], se_expiresAt = None\<rparr>"
proof -
  let ?out = "\<lparr>out_lines = [], out_recorded = \<lparr>rec_status = 200, rec_body = JsonBody resp\<rparr>\<rparr>"
  let ?c = "\<lparr>ch_Index = 0, ch_Message = text_message ''assistant'' ''It is sunny.'', ch_FinishReason = ''stop''\<rparr>"
  have inject: "Session_inject 0 ''k'' req (NewMemorySessionStore 0 5) = (req, 0, NewMemorySessionStore 0 5)"
    by (simp add: Session_inject_def Session_Get_def NewMemorySessionStore_def trimToContextWindow_def)
  have "Session_persist 1 ''k'' req 0 ?out (NewMemorySessionStore 0 5) = Session_Append 1 ''k'' (text_message ''user'' []) (ch_Message ?c) (NewMemorySessionStore 0 5)"
    by (rule session_drops_tool_results [OF inject, where c = ?c and cs = "[]" and resp = resp, THEN conjunct1])
      (simp_all add: req_def resp_def is_tool_def text_message_def zero_request_def)
  then show ?thesis by (simp add: Session_Append_def NewMemorySessionStore_def keep_last_turns_def)
qed

end
