(* ===== verification/Spec2Isabelle.thy ===== *)
theory Spec2Isabelle
  imports SemanticLayer Session UserMemory Gateway EventStream Anthropic
begin

text \<open>
  \<^bold>\<open>A verification of the ixr inference gateway.\<close>

  \<^bold>\<open>The program.\<close> ixr is an HTTP proxy in front of language-model providers. A request for a chat
  completion passes a front of middleware (admission, authentication, rate limit, body limit), the
  request interceptors (budget, brevity, compressor), the session, memory and cache middleware, and
  reaches the chat handler. The handler picks a model, by name, by utility (\<^verbatim>\<open>auto\<close>) or by a chain of
  models, asks the circuit breaker, calls the provider with retries and fallbacks, resolves calls of
  the retrieval tool, and publishes one event per call on a bus. Plugins behind the bus account for
  the spend, train the bandit, collect feedback, extract facts about the user and write telemetry.

  \<^bold>\<open>Conventions.\<close> Definitions have the names of the Go code, methods as \<open>Type_method\<close>. A struct is a
  record, a pointer that may be nil an option, an error a value of \<open>goerror\<close> in a sum or an option, a
  panic the result \<^const>\<open>None\<close>. Time and durations are integers in nanoseconds, \<^verbatim>\<open>float64\<close> is the type of
  reals, strings are lists of bytes, maps are partial functions. What the code gets from outside is an
  argument: the clock, random draws, the order in which a map is ranged over, environment variables,
  files, the JSON codec between text and trees, providers and callbacks, which act on a world they
  pass along. Goroutines are explicit steps, so that a statement about any list of steps is one about
  any interleaving.

  \<^bold>\<open>Theories.\<close> Paths are below \<^verbatim>\<open>src/\<close>.

  \<^item> \<open>Prelude\<close>: Go types and the parts of the standard library in use; the locales \<open>invariant_run\<close> (an
    invariant over any run) and \<open>journaled\<close> (replaying a journal restores a state). \<open>SliceSort\<close>: the
    sorting loop of the routing code, equal to a stable sort. \<open>Schema\<close>: the types of \<^verbatim>\<open>pkg/schema\<close> and
    their JSON codec, with the round trip of messages.
  \<^item> \<open>CircuitBreaker\<close>: \<^verbatim>\<open>internal/domain/circuitbreaker\<close> and its Redis state. A closed breaker trips
    exactly by its policy, an open one admits at most the configured probes and recovers, reachable
    breakers are consistent, and the registry is one breaker per model, also when other goroutines run
    between the three critical sections of \<^verbatim>\<open>RecordOutcome\<close>.
  \<^item> \<open>RateLimit\<close>: \<^verbatim>\<open>internal/domain/policy\<close>, identities and tenants. The limit holds over every sliding
    window up to the requests in flight; windows of different identities are independent.
  \<^item> \<open>Budget\<close>: \<^verbatim>\<open>plugins/budget\<close>. The gate, exact books over any run, and the journal.
  \<^item> \<open>Catalog\<close>, \<open>Executor\<close>: \<^verbatim>\<open>internal/domain/routing\<close>, \<^verbatim>\<open>internal/domain/cost\<close>, \<^verbatim>\<open>internal/app\<close>. Routing
    picks the best model within the cap; execution makes a bounded number of calls, reports the truth,
    succeeds when one candidate is healthy and never repeats streamed output.
  \<^item> \<open>Bandit\<close>, \<open>Scoring\<close>: \<^verbatim>\<open>internal/domain/scoring\<close>, \<^verbatim>\<open>internal/adapters/store\<close>, the feedback and reward
    plugins. Both bandits satisfy one locale; the engine decides for an admitted model within the cap.
  \<^item> \<open>ResponseCache\<close>, \<open>SemanticLayer\<close>: \<^verbatim>\<open>internal/domain/cache\<close> and its middleware. Both caches satisfy
    the locale \<open>request_cache\<close>; sizes are bounded, similarity is a cosine.
  \<^item> \<open>Session\<close>, \<open>UserMemory\<close>: conversation history and facts about users, with their journals, middleware
    and handlers. Histories are whole turns within the window; a restart restores what was there.
  \<^item> \<open>Compressor\<close>, \<open>Guardrail\<close>: \<^verbatim>\<open>plugins/compressor\<close>, \<^verbatim>\<open>internal/domain/retrieval\<close>, \<^verbatim>\<open>pkg/guardrail\<close>,
    \<^verbatim>\<open>plugins/brevity\<close> and the body and admission middleware. Compression touches only what it may and is
    reversible; bodies are replayed; admission never exceeds its cap.
  \<^item> \<open>Chat\<close>: \<^verbatim>\<open>internal/ingress/chat.go\<close>, \<^verbatim>\<open>chain.go\<close>, \<^verbatim>\<open>stream.go\<close>, \<^verbatim>\<open>internal/domain/chain\<close> and \<^verbatim>\<open>reasoning\<close>.
    Every call is accounted for in one event; chains compose, with breakers and streaming, and do not
    panic; a retrieval call gets the original text. The handler runs one request at a time: it records
    outcomes with nothing in between.
  \<^item> \<open>Auth\<close>, \<open>Configuration\<close>, \<open>EventBus\<close>, \<open>Gateway\<close>: \<^verbatim>\<open>internal/ingress/auth.go\<close>, \<^verbatim>\<open>internal/adapters/config\<close>,
    \<^verbatim>\<open>internal/adapters/bus\<close>, \<^verbatim>\<open>pkg/ixr/ixr.go\<close>. Who passes and as whom; which configurations load; that
    subscribers see the accepted events once and in order; that the composed front gives back its slots,
    that \<^verbatim>\<open>auto\<close> always finds a provider, and that a reload revokes keys.
  \<^item> \<open>ProviderStream\<close>: the contract between the executor and a streaming adapter, a locale that the two
    streaming adapters below interpret.
  \<^item> \<open>EventStream\<close>: the streaming half of \<^verbatim>\<open>internal/adapters/providers/bedrock\<close>. The frame reader accepts
    exactly well-formed frames, detects every changed byte, a stream of frames is the stream of the
    events in them, and one that is cut inside a frame keeps the chunks before it and ends with an error.
  \<^item> \<open>Anthropic\<close>: \<^verbatim>\<open>internal/adapters/providers/anthropic\<close>. The request is the caller's conversation, the
    cache marker lands at the end of the history, tool calls go back in the JSON of the next request as
    they came, an empty input apart, and streaming and waiting give the same answer up to the spelling of
    the arguments of tool calls.
  \<^item> This theory: how the executor retries what the Anthropic adapter returns, and that a streamed
    answer leaves the same session as one that was waited for.

  \<^bold>\<open>Bounds and fuel.\<close> Loops are total functions with termination proofs: retries by the attempts left,
  candidates by the length of the list, frames by the bytes left. Reading a body to its end is a partial
  function, and it is proved to return. Nothing uses fuel. Integers are unbounded where the Go code counts tokens, requests and nanoseconds,
  and 32-bit words in the hash of the vectorizer and in the frame codec, where the width matters.
  Floating-point rounding is not modelled. \<^verbatim>\<open>sort.Slice\<close> is the insertion sort it is for up to twelve
  elements; for longer lists the order of equal scores is not specified by the library.

  \<^bold>\<open>Not modelled.\<close> The OpenAI, OpenAI-compatible and Google adapters and the non-streaming half of
  Bedrock: they are HTTP calls, signatures and field-by-field translations, and a provider is an
  argument of everything above it. The adapters that only choose a base URL, the HTTP server, the
  endpoints for embeddings, images and the schema document, metrics, traces and log lines are input and
  output without state. The intent parser is imported by nothing. The evaluation tool runs outside the
  gateway. Of the modelled parts, file watching, coalescing of concurrent cache misses, TLS settings and
  the transport of webhooks are left out; the memory extractor that asks a model is an argument.
\<close>

section \<open>Provider errors and retries\<close>

lemma chat_loop_failing:
  assumes chat: "\<And>n. chat p req n = (Inl err, Suc n)" and wait: "\<And>t n. wait t n = (None, n)"
    and err: "\<not> context_error err" "\<not> isClientError err"
    and i: "i \<le> MaxAttempts cfg" "i = MaxAttempts cfg \<Longrightarrow> le = Some err"
  shows "chat_loop chat wait p req cfg i b le n = ((None, MaxAttempts cfg, Some err), n + nat (MaxAttempts cfg - i))"
  using i
proof (induction "nat (MaxAttempts cfg - i)" arbitrary: i b le n)
  case 0
  then show ?case by (subst chat_loop.simps) simp
next
  case (Suc k)
  then have lt: "i < MaxAttempts cfg" by simp
  have k: "nat (MaxAttempts cfg - i) = Suc k" "nat (MaxAttempts cfg - (i + 1)) = k" using Suc.hyps(2) by simp_all
  have step: "chat_loop chat wait p req cfg (i + 1) b' (Some err) (Suc n) = ((None, MaxAttempts cfg, Some err), Suc n + k)" for b'
    using Suc.hyps(1) [of "i + 1" "Some err" b' "Suc n"] k(2) lt by simp
  from lt err show ?case by (subst chat_loop.simps) (simp add: chat wait step k(1))
qed

text \<open>
  C29. How a failing API is retried: an answer other than 200 makes the Anthropic adapter fail with an
  error that names the status, and the executor then calls it once when it takes the error for a
  mistake of the caller, as for the statuses 400, 401, 403, 404, 422 and also 429, and otherwise
  exactly as often as the configuration allows.
\<close>

theorem anthropic_status_retry:
  assumes cfg: "0 < MaxAttempts cfg" and code: "code \<noteq> 200"
    and post: "\<And>wr n. post wr n = (post_result.Answered \<lparr>ha_StatusCode = code, ha_Body = body, ha_readErr = None\<rparr>, Suc n)"
    and wait: "\<And>t n. wait t n = (None, n)"
    and err: "err = plain_error (''anthropic: status '' @ Itoa code @ '': '' @ body)"
  shows "chatWithRetry (\<lambda>p. Anthropic_Chat unmarshal marshal now post ctx) wait p req cfg n =
      (if isClientError err then ((None, 1, Some err), Suc n) else ((None, MaxAttempts cfg, Some err), n + nat (MaxAttempts cfg))) \<and>
    (code \<in> {400, 401, 403, 404, 422, 429} \<longrightarrow> isClientError err)"
proof
  let ?chat = "\<lambda>p. Anthropic_Chat unmarshal marshal now post ctx"
  have chat: "?chat p req n = (Inl err, Suc n)" for p n by (simp add: Anthropic_Chat_def post code err)
  have plain: "\<not> context_error err" by (simp add: err context_error_def plain_error_def)
  have many: "chat_loop ?chat wait p req cfg 0 b le n = ((None, MaxAttempts cfg, Some err), n + nat (MaxAttempts cfg))" if "\<not> isClientError err" for b le
    using chat_loop_failing [of ?chat p req err wait 0 cfg le b n, OF chat wait plain that] cfg by simp
  have once: "chat_loop ?chat wait p req cfg 0 b le n = ((None, 1, Some err), Suc n)" if "isClientError err" for b le
    using that cfg by (subst chat_loop.simps) (simp add: chat)
  show "chatWithRetry ?chat wait p req cfg n =
      (if isClientError err then ((None, 1, Some err), Suc n) else ((None, MaxAttempts cfg, Some err), n + nat (MaxAttempts cfg)))"
    by (simp add: chatWithRetry_def many once)
  have named: "Contains (err_msg err) (''status '' @ Itoa code)"
    unfolding Contains_iff sublist_def by (rule exI [of _ "''anthropic: ''"], rule exI [of _ "'': '' @ body"]) (simp add: err plain_error_def)
  have digits: "Itoa 400 = ''400''" "Itoa 401 = ''401''" "Itoa 403 = ''403''" "Itoa 404 = ''404''" "Itoa 422 = ''422''" "Itoa 429 = ''429''"
    by code_simp+
  show "code \<in> {400, 401, 403, 404, 422, 429} \<longrightarrow> isClientError err"
    using named by (auto simp: isClientError_def client_patterns_def digits)
qed

theorem anthropic_status_retry_witness:
  "chatWithRetry (\<lambda>p. Anthropic_Chat (\<lambda>_. None) (\<lambda>_. []) 0 (\<lambda>wr n. (post_result.Answered \<lparr>ha_StatusCode = 429, ha_Body = ''slow down'', ha_readErr = None\<rparr>, Suc n)) None)
     (\<lambda>t n. (None, n)) () zero_request DefaultRetryConfig 0 = ((None, 1, Some (plain_error ''anthropic: status 429: slow down'')), 1)"
proof -
  have digits: "Itoa 429 = ''429''" by code_simp
  have pos: "0 < MaxAttempts DefaultRetryConfig" by (simp add: DefaultRetryConfig_def)
  show ?thesis
    using anthropic_status_retry [of DefaultRetryConfig 429 "\<lambda>wr n. (post_result.Answered \<lparr>ha_StatusCode = 429, ha_Body = ''slow down'', ha_readErr = None\<rparr>, Suc n)"
        "''slow down''" "\<lambda>t n. (None, n)" _ "\<lambda>_. None" "\<lambda>_. []" 0 None "()" zero_request 0, OF pos _ refl refl refl]
    by (simp add: digits)
qed

section \<open>Streamed answers in sessions\<close>

text \<open>
  What the capture of the session middleware reads from an event the chat handler wrote, by the tags
  of \<^verbatim>\<open>sseChunkEnvelope\<close>, \<^verbatim>\<open>sseDeltaChoice\<close> and \<^verbatim>\<open>sseDelta\<close>.
\<close>

definition captured_choice :: "json \<Rightarrow> (string \<times> ToolCall list) option" where
  "captured_choice v = (case v of
      JNull \<Rightarrow> Some ([], [])
    | JObj c \<Rightarrow> (case (json_int ''index'' c, json_string ''finish_reason'' c, json_object ''delta'' c) of
        (Some _, Some _, Some d) \<Rightarrow> (case (json_string ''role'' d, json_string ''content'' d,
            case json_field ''tool_calls'' d of None \<Rightarrow> Some [] | Some JNull \<Rightarrow> Some []
              | Some (JArr tcs) \<Rightarrow> json_list unmarshal_tool_call tcs | _ \<Rightarrow> None) of
          (Some _, Some t, Some tcs) \<Rightarrow> Some (t, tcs) | _ \<Rightarrow> None)
      | _ \<Rightarrow> None)
    | _ \<Rightarrow> None)"

definition captured :: "sse_event \<Rightarrow> sse_line" where
  "captured e = (case e of
      SSEDone \<Rightarrow> DoneLine
    | SSEData (JObj env) \<Rightarrow> (case (json_string ''id'' env, json_string ''object'' env, json_int ''created'' env, json_string ''model'' env,
          case json_field ''choices'' env of None \<Rightarrow> Some [] | Some JNull \<Rightarrow> Some [] | Some (JArr cs) \<Rightarrow> json_list captured_choice cs | _ \<Rightarrow> None) of
        (Some _, Some _, Some _, Some _, Some cs) \<Rightarrow> ChunkLine (case cs of [] \<Rightarrow> None | c # _ \<Rightarrow> Some c)
      | _ \<Rightarrow> BadChunk)
    | SSEData JNull \<Rightarrow> ChunkLine None
    | SSEData _ \<Rightarrow> BadChunk)"

definition written :: "StreamChunk \<Rightarrow> sse_event \<Rightarrow> bool" where
  "written c e \<longleftrightarrow> (\<exists>now. 0 \<le> now \<and> now < 2 ^ 63 \<and> e = SSEData (writeSSEChunk now c))"

lemma captured_choice_written:
  "captured_choice (JObj [(''index'', JInt 0),
      (''delta'', JObj (omitempty ''role'' r @ omitempty ''content'' t @ (if tcs = [] then [] else [(''tool_calls'', JArr (map marshal_tool_call tcs))]))),
      (''finish_reason'', if f = [] then JNull else JStr f)]) = Some (t, tcs)"
  by (simp add: captured_choice_def json_int_def json_string_def json_object_def json_field_def omitempty_def codec_list)

lemma captured_written:
  assumes "written c e"
  shows "captured e = ChunkLine (Some (msg_Content (chunk_Delta c), msg_ToolCalls (chunk_Delta c)))"
proof -
  from assms obtain now where now: "0 \<le> now" "now < 2 ^ 63" "e = SSEData (writeSSEChunk now c)" by (auto simp: written_def)
  have "0 \<le> now div Second" using now(1) by (simp add: Second_def pos_imp_zdiv_nonneg_iff)
  moreover have "now div Second < 2 ^ 63" using now by (simp add: Second_def div_less_iff_less_mult)
  ultimately show ?thesis
    by (simp add: now(3) captured_def writeSSEChunk_def captured_choice_written json_int_def json_string_def json_field_def)
qed

lemma capture_texts:
  "foldl sse_step (m, found) (map (\<lambda>t. ChunkLine (Some (t, []))) ts) =
     (m\<lparr>msg_Content := msg_Content m @ concat ts\<rparr>, found \<or> concat ts \<noteq> [])"
  by (induction ts arbitrary: m found) (auto simp: sse_step_def)

text \<open>
  C22. A streamed answer is remembered as the same turn as one that was waited for: the events the chat
  handler writes for the chunks of an Anthropic stream, captured by the session middleware, give the
  message that the adapter returns for the answer without streaming, the arguments of its tool
  calls spelled as they were streamed but with the same JSON value, and the turn is stored unless
  that message is empty. The stream may have pings and unknown events in between, has lines
  shorter than 65000 bytes, and ends with one change of the message as a whole.
\<close>

theorem streamed_answer_remembered:
  assumes post: "post (marshal (marshal_request ((toWireRequest unmarshal req (HistoryLenFromContext ctx))\<lparr>wr_Stream := True\<rparr>))) [] =
      (post_result.Answered \<lparr>ha_StatusCode = 200, ha_Body = sse_body es, ha_readErr = None\<rparr>, [])"
    and st: "streams unmarshal wr bs [] es" and codec: "inputs_read_back unmarshal marshal wr"
    and m: "m = ch_Message (hd (resp_Choices (fromWireResponse marshal now wr)))"
    and out: "Anthropic_Stream unmarshal marshal post ctx req (\<lambda>c w. (None, w @ [c])) [] = Some (err, chunks)" "list_all2 written chunks evs"
  shows "\<exists>tcs. parseSSEAssistantTurn (map captured (evs @ [SSEDone])) =
      (m\<lparr>msg_ToolCalls := tcs\<rparr>, msg_Content m \<noteq> [] \<or> msg_ToolCalls m \<noteq> []) \<and>
    list_all2 (same_call unmarshal) tcs (msg_ToolCalls m) \<and> err = None"
proof -
  have chunks: "chunks = map (answer_chunk wr) (stream_texts bs) @ map (finish_chunk wr (stream_calls bs)) (message_changes wr [])" "err = None"
    using stream_chunks [of post marshal unmarshal req ctx "[]" es "[]" wr bs "[]", OF post st] out(1) by simp_all
  have "map captured evs = map (\<lambda>c. ChunkLine (Some (msg_Content (chunk_Delta c), msg_ToolCalls (chunk_Delta c)))) chunks"
    using out(2) by (induction rule: list_all2_induct) (simp_all add: captured_written)
  then have lines: "map captured evs = map (\<lambda>t. ChunkLine (Some (t, []))) (stream_texts bs) @ [ChunkLine (Some ([], stream_calls bs))]"
    by (simp add: chunks message_changes_def answer_chunk_def finish_chunk_def text_message_def)
  have split: "fst (splitContent marshal (wresp_Content wr)) = concat (stream_texts bs)"
    "list_all2 (same_call unmarshal) (stream_calls bs) (snd (splitContent marshal (wresp_Content wr)))"
    by (rule streamed_split [OF st codec])+
  have msg: "m = (text_message ''assistant'' (concat (stream_texts bs)))\<lparr>msg_ToolCalls := snd (splitContent marshal (wresp_Content wr))\<rparr>"
    using split(1) by (simp add: m fromWireResponse_def case_prod_beta)
  have "parseSSEAssistantTurn (map captured (evs @ [SSEDone])) =
      ((text_message ''assistant'' (concat (stream_texts bs)))\<lparr>msg_ToolCalls := stream_calls bs\<rparr>,
       concat (stream_texts bs) \<noteq> [] \<or> stream_calls bs \<noteq> [])"
    by (simp add: parseSSEAssistantTurn_def lines capture_texts captured_def sse_step_def text_message_def)
  moreover have "stream_calls bs = [] \<longleftrightarrow> snd (splitContent marshal (wresp_Content wr)) = []"
    using split(2) by (auto simp: list_all2_Nil list_all2_Nil2)
  ultimately show ?thesis
    using split(2) by (intro exI [of _ "stream_calls bs"]) (simp add: msg chunks(2) text_message_def)
qed

theorem streamed_answer_remembered_witness:
  "\<exists>chunks tcs. Anthropic_Stream sample_payload sample_marshal sample_api None zero_request (\<lambda>c w. (None, w @ [c])) [] = Some (None, chunks) \<and>
    parseSSEAssistantTurn (map captured (map (\<lambda>c. SSEData (writeSSEChunk 5 c)) chunks @ [SSEDone])) =
      ((text_message ''assistant'' ''hi'')\<lparr>msg_ToolCalls := tcs\<rparr>, True) \<and>
    list_all2 (same_call sample_payload) tcs
      [\<lparr>tc_ID = ''c1'', tc_Type = ''function'', tc_Function = \<lparr>tf_Name = ''f'', tf_Arguments = ''ab''\<rparr>\<rparr>]"
proof -
  define cs where "cs = map (answer_chunk sample_wire) (stream_texts sample_deltas) @
    map (finish_chunk sample_wire (stream_calls sample_deltas)) (message_changes sample_wire [])"
  have run: "Anthropic_Stream sample_payload sample_marshal sample_api None zero_request (\<lambda>c w. (None, w @ [c])) [] = Some (None, cs)"
    using stream_chunks [of sample_api sample_marshal sample_payload zero_request None "[]" sample_sse "[]" sample_wire sample_deltas "[]",
        OF sample_posts(2) sample_streams] by (simp add: cs_def)
  have written: "list_all2 written cs (map (\<lambda>c. SSEData (writeSSEChunk 5 c)) cs)"
    by (auto simp: written_def list_all2_map2 intro!: list_all2_refl exI [of _ 5])
  have m: "ch_Message (hd (resp_Choices (fromWireResponse sample_marshal 0 sample_wire))) = (text_message ''assistant'' ''hi'')\<lparr>msg_ToolCalls :=
      [\<lparr>tc_ID = ''c1'', tc_Type = ''function'', tc_Function = \<lparr>tf_Name = ''f'', tf_Arguments = ''ab''\<rparr>\<rparr>]\<rparr>"
    by (simp add: fromWireResponse_def splitContent_eq sample_wire_def text_message_def text_block_def use_block_def zero_content_def call_of_def
        sample_marshal_def input_json_def)
  from streamed_answer_remembered [of sample_api sample_marshal sample_payload zero_request None sample_sse sample_wire sample_deltas _ 0 None
      cs "map (\<lambda>c. SSEData (writeSSEChunk 5 c)) cs", OF sample_posts(2) sample_streams sample_reads m [symmetric] run written]
  obtain tcs where "parseSSEAssistantTurn (map captured (map (\<lambda>c. SSEData (writeSSEChunk 5 c)) cs @ [SSEDone])) =
      ((text_message ''assistant'' ''hi'')\<lparr>msg_ToolCalls := tcs\<rparr>, True)"
    "list_all2 (same_call sample_payload) tcs [\<lparr>tc_ID = ''c1'', tc_Type = ''function'', tc_Function = \<lparr>tf_Name = ''f'', tf_Arguments = ''ab''\<rparr>\<rparr>]"
    by (auto simp: text_message_def)
  with run show ?thesis by blast
qed

end
